(* ===== verification/Atlas_Prelude.thy ===== *)
theory Atlas_Prelude
  imports Complex_Main "HOL-Library.AList" "HOL-Library.Sublist"
begin

text \<open>
  Shared vocabulary of the development: the Python values the modelled modules pass around
  (clock readings, insertion-ordered dictionaries, bounded deques, strings) and the generic
  lemmas the component theories build on.

  Conventions.
  \<^item> A clock reading or a duration is a rational number. Every finite IEEE double is a rational,
    so the type holds every value the code can read; the rounding of float addition and
    subtraction is not modelled.
  \<^item> A Python \<^verbatim>\<open>dict\<close> is an association list with distinct keys, in insertion order:
    \<^verbatim>\<open>d.get(k)\<close> is \<^term>\<open>map_of d k\<close>, \<^verbatim>\<open>d[k] = v\<close> is \<^term>\<open>AList.update k v d\<close> (which keeps the
    position of a key that is present and appends a new one at the end, as Python does),
    \<^verbatim>\<open>d.pop(k, None)\<close> is \<^term>\<open>AList.delete k d\<close>.
  \<^item> A Python \<^verbatim>\<open>str\<close> is a list of characters with code points below 256. The string functions
    below follow Python on that range.
\<close>

named_theorems atlas_simps \<open>rewrite rules shared by the component proofs\<close>

type_synonym seconds = rat
type_synonym ('k, 'v) dict = "('k \<times> 'v) list"

section \<open>Numbers\<close>

text \<open>\<^verbatim>\<open>int(x)\<close> of a float truncates towards zero.\<close>

definition py_int :: "rat \<Rightarrow> int" where
  "py_int x = (if 0 \<le> x then \<lfloor>x\<rfloor> else \<lceil>x\<rceil>)"

lemma py_int_nonneg: "0 \<le> x \<Longrightarrow> 0 \<le> py_int x"
  by (simp add: py_int_def)

lemma py_int_le: "0 \<le> x \<Longrightarrow> of_int (py_int x) \<le> x"
  by (simp add: py_int_def)

lemma py_int_gt: "x < of_int (py_int x) + 1"
proof (cases "0 \<le> x")
  case True
  have "x < of_int \<lfloor>x\<rfloor> + 1" by linarith
  with True show ?thesis by (simp add: py_int_def)
next
  case False
  have "x < of_int \<lceil>x\<rceil> + 1" by linarith
  with False show ?thesis by (simp add: py_int_def)
qed

lemma py_int_of_int [simp]: "py_int (of_int n) = n"
  by (simp add: py_int_def)

section \<open>Lists\<close>

lemma subseq_sorted_map: "subseq xs ys \<Longrightarrow> sorted (map f ys) \<Longrightarrow> sorted (map f xs)"
proof (induction rule: list_emb.induct)
  case (list_emb_Cons2 x y xs ys)
  then show ?case by (auto dest: list_emb_set)
qed simp_all

lemma concat_map_concat: "concat (map concat xsss) = concat (concat xsss)"
  by (induction xsss) simp_all

section \<open>Bounded deques\<close>

text \<open>
  \<^verbatim>\<open>collections.deque(maxlen=m)\<close>: an append to a full deque drops the element at the other end.
\<close>

definition deque_append :: "nat \<Rightarrow> 'a list \<Rightarrow> 'a \<Rightarrow> 'a list" where
  "deque_append m xs x = (let ys = xs @ [x] in drop (length ys - m) ys)"

lemma deque_append_room: "length xs < m \<Longrightarrow> deque_append m xs x = xs @ [x]"
  by (simp add: deque_append_def)

lemma deque_append_length: "length (deque_append m xs x) \<le> m"
  by (simp add: deque_append_def)

lemma deque_append_suffix: "suffix (deque_append m xs x) (xs @ [x])"
  unfolding deque_append_def Let_def by (rule suffix_drop)

lemma deque_append_set: "set (deque_append m xs x) \<subseteq> insert x (set xs)"
  using set_drop_subset [of "length (xs @ [x]) - m" "xs @ [x]"]
  by (simp only: deque_append_def Let_def) auto

lemma deque_append_last: "0 < m \<Longrightarrow> deque_append m xs x \<noteq> [] \<and> last (deque_append m xs x) = x"
  by (simp add: deque_append_def)

lemma deque_append_fold:
  "0 < m \<Longrightarrow> fold (\<lambda>x d. deque_append m d x) ys (drop (length xs - m) xs)
     = drop (length (xs @ ys) - m) (xs @ ys)"
proof (induction ys arbitrary: xs)
  case Nil
  then show ?case by simp
next
  case (Cons y ys)
  have "Suc (length xs) - (length xs - m + m) + (length xs - m) = Suc (length xs) - m"
    using Cons.prems by arith
  then have "deque_append m (drop (length xs - m) xs) y
      = drop (length (xs @ [y]) - m) (xs @ [y])"
    using Cons.prems by (simp add: deque_append_def Let_def)
  with Cons.IH [of "xs @ [y]"] Cons.prems show ?case by simp
qed

section \<open>Dictionaries\<close>

abbreviation dict_ok :: "('k, 'v) dict \<Rightarrow> bool" where
  "dict_ok d \<equiv> distinct (map fst d)"

lemma map_of_update [simp]: "map_of (AList.update k v d) = (map_of d)(k \<mapsto> v)"
  by (rule update_conv')

lemma map_of_update_same: "map_of (AList.update k v d) k = Some v"
  by simp

lemma map_of_delete [simp]: "map_of (AList.delete k d) = (map_of d)(k := None)"
  by (rule delete_conv')

lemma dict_ok_update: "dict_ok d \<Longrightarrow> dict_ok (AList.update k v d)"
  by (rule distinct_update)

lemma dict_ok_delete: "dict_ok d \<Longrightarrow> dict_ok (AList.delete k d)"
  by (rule distinct_delete)

lemma dict_keys_update: "set (map fst (AList.update k v d)) = insert k (set (map fst d))"
  by (simp add: dom_update)

lemma dict_update_new: "k \<notin> fst ` set d \<Longrightarrow> AList.update k v d = d @ [(k, v)]"
  by (induction d) auto

lemma dict_update_same: "map_of d k = Some v \<Longrightarrow> AList.update k v d = d"
  by (induction d) (auto split: if_splits)

lemma dict_keys_update_old:
  "k \<in> fst ` set d \<Longrightarrow> map fst (AList.update k v d) = map fst d"
  by (induction d) auto

end
