(* ===== verification/Keyed_Registry.thy ===== *)
theory Keyed_Registry
  imports Atlas_Prelude
begin

text \<open>
  Two interfaces that several services of the program share.

  \<^item> A registry of lazily created components, one per key: the circuit breakers per endpoint,
    the throttle buckets per provider, the rate-limit windows per principal and tool, the
    event rings per channel. What every user of such a registry relies on is that the
    component of one key never sees the calls made for another key.
  \<^item> A state machine with an invariant, run over a list of events.
\<close>

section \<open>Lazily created components by key\<close>

locale keyed_registry =
  fixes lookup :: "'r \<Rightarrow> 'k \<Rightarrow> 'c option"
    and ensure :: "'k \<Rightarrow> 'r \<Rightarrow> 'r"
    and store :: "'k \<Rightarrow> 'c \<Rightarrow> 'r \<Rightarrow> 'r"
    and fresh :: "'k \<Rightarrow> 'c"
  assumes lookup_ensure: "lookup (ensure k r) =
      (case lookup r k of None \<Rightarrow> (lookup r)(k \<mapsto> fresh k) | Some _ \<Rightarrow> lookup r)"
    and lookup_store: "lookup (store k c r) = (lookup r)(k \<mapsto> c)"
begin

text \<open>One call on the component of a key: get it (creating it), run the method, keep the result.\<close>

definition call :: "'k \<Rightarrow> ('c \<Rightarrow> 'c) \<Rightarrow> 'r \<Rightarrow> 'r" where
  "call k f r = (let r' = ensure k r in store k (f (the (lookup r' k))) r')"

definition calls :: "('k \<times> ('c \<Rightarrow> 'c)) list \<Rightarrow> 'r \<Rightarrow> 'r" where
  "calls = fold (\<lambda>(k, f). call k f)"

definition component :: "'r \<Rightarrow> 'k \<Rightarrow> 'c" where
  "component r k = (case lookup r k of None \<Rightarrow> fresh k | Some c \<Rightarrow> c)"

lemma ensure_present: "lookup (ensure k r) k = Some (component r k)"
  by (simp add: lookup_ensure component_def split: option.split)

lemma ensure_other: "k \<noteq> k' \<Longrightarrow> lookup (ensure k r) k' = lookup r k'"
  by (simp add: lookup_ensure split: option.split)

lemma ensure_idem: "lookup (ensure k (ensure k r)) = lookup (ensure k r)"
  by (simp add: lookup_ensure [of k "ensure k r"] ensure_present)

lemma lookup_call: "lookup (call k f r) = (lookup r)(k \<mapsto> f (component r k))"
proof (rule ext)
  fix k'
  show "lookup (call k f r) k' = ((lookup r)(k \<mapsto> f (component r k))) k'"
    by (cases "k' = k") (simp_all add: call_def Let_def lookup_store ensure_present ensure_other)
qed

lemma component_call:
  "component (call k f r) k' = (if k' = k then f (component r k) else component r k')"
  by (simp add: component_def lookup_call)

text \<open>
  Isolation: after any interleaving of calls, the component of a key is what the calls for that
  key alone, in their order, make of it.
\<close>

lemma component_calls:
  "component (calls cs r) k = fold (\<lambda>(k', f). if k' = k then f else id) cs (component r k)"
proof (induction cs arbitrary: r)
  case Nil
  show ?case by (simp add: calls_def)
next
  case (Cons c cs)
  obtain k' f where c: "c = (k', f)" by (cases c)
  have "calls (c # cs) r = calls cs (call k' f r)" by (simp add: calls_def c)
  then show ?case by (simp add: Cons.IH component_call c)
qed

lemma component_calls_own:
  "component (calls cs r) k = component (calls (filter (\<lambda>c. fst c = k) cs) r) k"
proof -
  have "fold (\<lambda>(k', f). if k' = k then f else id) cs x
      = fold (\<lambda>(k', f). if k' = k then f else id) (filter (\<lambda>c. fst c = k) cs) x" for x :: 'c
    by (induction cs arbitrary: x) auto
  then show ?thesis by (simp add: component_calls)
qed

lemma component_calls_other:
  "(\<And>c. c \<in> set cs \<Longrightarrow> fst c \<noteq> k) \<Longrightarrow> component (calls cs r) k = component r k"
proof -
  assume "\<And>c. c \<in> set cs \<Longrightarrow> fst c \<noteq> k"
  then have "filter (\<lambda>c. fst c = k) cs = []" by (auto simp: filter_empty_conv)
  then show ?thesis by (subst component_calls_own) (simp add: calls_def)
qed

end

section \<open>State machines with an invariant\<close>

locale invariant_machine =
  fixes step :: "'e \<Rightarrow> 's \<Rightarrow> 's"
    and guard :: "'e \<Rightarrow> 's \<Rightarrow> bool"
    and inv :: "'s \<Rightarrow> bool"
  assumes inv_step: "inv s \<Longrightarrow> guard e s \<Longrightarrow> inv (step e s)"
begin

text \<open>A run whose every event meets its guard in the state it happens in.\<close>

fun admissible :: "'e list \<Rightarrow> 's \<Rightarrow> bool" where
  "admissible [] s = True"
| "admissible (e # es) s = (guard e s \<and> admissible es (step e s))"

lemma inv_run: "inv s \<Longrightarrow> admissible es s \<Longrightarrow> inv (fold step es s)"
  by (induction es arbitrary: s) (auto intro: inv_step)

lemma admissible_append:
  "admissible (es @ es') s \<longleftrightarrow> admissible es s \<and> admissible es' (fold step es s)"
  by (induction es arbitrary: s) auto

lemma inv_prefix: "inv s \<Longrightarrow> admissible (es @ es') s \<Longrightarrow> inv (fold step es s)"
  by (simp add: admissible_append inv_run)

end

end
