(* ===== verification/Circuit_Breaker.thy ===== *)
theory Circuit_Breaker
  imports Keyed_Registry
begin

text \<open>
  The LLM circuit breaker of \<^verbatim>\<open>services/circuit_breaker.py\<close>: its three-state machine, the
  process-wide singleton and the per-endpoint registry.

  Every method body runs under one \<^verbatim>\<open>asyncio.Lock\<close> with no await inside, so a call is one atomic
  step. A method reads \<^verbatim>\<open>time.monotonic()\<close> up to twice; each reading is an argument (\<open>now\<close> for
  the comparison, \<open>now'\<close> for the assignment). Log output is left out.
\<close>

section \<open>The breaker\<close>

datatype BreakerState = Closed | Open | Half_open

primrec state_name :: "BreakerState \<Rightarrow> string" where
  "state_name Closed = ''closed''"
| "state_name Open = ''open''"
| "state_name Half_open = ''half_open''"

record CircuitBreaker =
  cb_threshold :: int
  cb_cooldown_seconds :: int
  cb_half_open_probe_timeout :: int
  cb_provider_label :: string
  cb_state :: BreakerState
  cb_consecutive_failures :: int
  cb_opened_at :: "seconds option"
  cb_half_open_at :: "seconds option"
  cb_last_transition :: "string option"

record CircuitBreakerSnapshot =
  snap_state :: BreakerState
  snap_consecutive_failures :: int
  snap_threshold :: int
  snap_cooldown_seconds :: int
  snap_opened_at :: "seconds option"
  snap_last_transition :: "string option"

definition DEFAULT_COOLDOWN_SECONDS :: int where
  "DEFAULT_COOLDOWN_SECONDS = 60"

definition DEFAULT_HALF_OPEN_PROBE_TIMEOUT :: int where
  "DEFAULT_HALF_OPEN_PROBE_TIMEOUT = 120"

definition CircuitBreaker_init :: "int \<Rightarrow> int \<Rightarrow> string \<Rightarrow> int \<Rightarrow> CircuitBreaker" where
  "CircuitBreaker_init threshold cooldown_seconds provider_label half_open_probe_timeout =
     \<lparr>cb_threshold = threshold, cb_cooldown_seconds = cooldown_seconds,
      cb_half_open_probe_timeout = half_open_probe_timeout,
      cb_provider_label = provider_label, cb_state = Closed, cb_consecutive_failures = 0,
      cb_opened_at = None, cb_half_open_at = None, cb_last_transition = None\<rparr>"

definition CircuitBreaker_transition ::
    "BreakerState \<Rightarrow> BreakerState \<Rightarrow> CircuitBreaker \<Rightarrow> CircuitBreaker" where
  "CircuitBreaker_transition from_state to_state b =
     b\<lparr>cb_state := to_state,
       cb_last_transition := Some (state_name from_state @ ''->'' @ state_name to_state)\<rparr>"

definition CircuitBreaker_allow ::
    "seconds \<Rightarrow> seconds \<Rightarrow> CircuitBreaker \<Rightarrow> bool \<times> CircuitBreaker" where
  "CircuitBreaker_allow now now' b =
     (case cb_state b of
        Closed \<Rightarrow> (True, b)
      | Open \<Rightarrow>
          (case cb_opened_at b of
             None \<Rightarrow> (False, b)
           | Some t0 \<Rightarrow>
               if now - t0 \<ge> of_int (cb_cooldown_seconds b)
               then (True, (CircuitBreaker_transition Open Half_open b)\<lparr>cb_half_open_at := Some now'\<rparr>)
               else (False, b))
      | Half_open \<Rightarrow>
          (False,
           case cb_half_open_at b of
             None \<Rightarrow> b
           | Some t0 \<Rightarrow>
               if now - t0 \<ge> of_int (cb_half_open_probe_timeout b)
               then (CircuitBreaker_transition Half_open Open b)
                      \<lparr>cb_opened_at := Some now', cb_half_open_at := None\<rparr>
               else b))"

definition CircuitBreaker_record_success :: "CircuitBreaker \<Rightarrow> CircuitBreaker" where
  "CircuitBreaker_record_success b =
     (let previous_state = cb_state b; b1 = b\<lparr>cb_consecutive_failures := 0\<rparr> in
      if cb_state b1 = Open \<or> cb_state b1 = Half_open
      then (CircuitBreaker_transition previous_state Closed b1)
             \<lparr>cb_opened_at := None, cb_half_open_at := None\<rparr>
      else b1)"

definition CircuitBreaker_record_failure :: "seconds \<Rightarrow> CircuitBreaker \<Rightarrow> CircuitBreaker" where
  "CircuitBreaker_record_failure now b =
     (let b1 = b\<lparr>cb_consecutive_failures := cb_consecutive_failures b + 1\<rparr> in
      if cb_state b1 = Half_open
      then (CircuitBreaker_transition Half_open Open b1)
             \<lparr>cb_opened_at := Some now, cb_half_open_at := None\<rparr>
      else if cb_state b1 = Closed \<and> cb_consecutive_failures b1 \<ge> cb_threshold b1
      then (CircuitBreaker_transition Closed Open b1)\<lparr>cb_opened_at := Some now\<rparr>
      else b1)"

definition CircuitBreaker_is_open :: "CircuitBreaker \<Rightarrow> bool" where
  "CircuitBreaker_is_open b \<longleftrightarrow> cb_state b = Open"

definition CircuitBreaker_snapshot :: "CircuitBreaker \<Rightarrow> CircuitBreakerSnapshot" where
  "CircuitBreaker_snapshot b =
     \<lparr>snap_state = cb_state b, snap_consecutive_failures = cb_consecutive_failures b,
      snap_threshold = cb_threshold b, snap_cooldown_seconds = cb_cooldown_seconds b,
      snap_opened_at = cb_opened_at b, snap_last_transition = cb_last_transition b\<rparr>"

definition CircuitBreaker_reset :: "CircuitBreaker \<Rightarrow> CircuitBreaker" where
  "CircuitBreaker_reset b =
     b\<lparr>cb_state := Closed, cb_consecutive_failures := 0, cb_opened_at := None,
       cb_half_open_at := None, cb_last_transition := None\<rparr>"

section \<open>The module's singletons\<close>

record breaker_module =
  breaker_instance :: "CircuitBreaker option"
  endpoint_breakers :: "(string, CircuitBreaker) dict"

definition init_circuit_breaker :: "CircuitBreaker \<Rightarrow> breaker_module \<Rightarrow> breaker_module" where
  "init_circuit_breaker b m = m\<lparr>breaker_instance := Some b\<rparr>"

text \<open>
  \<^verbatim>\<open>get_settings().llm_outage_breaker_threshold\<close> is the argument \<open>settings\<close>; \<^const>\<open>None\<close> when
  the settings lookup raises. \<^verbatim>\<open>get_circuit_breaker\<close> lets the exception through (result
  \<^const>\<open>None\<close>), \<^verbatim>\<open>get_breaker_for_endpoint\<close> falls back to 5.
\<close>

definition get_circuit_breaker ::
    "int option \<Rightarrow> breaker_module \<Rightarrow> (CircuitBreaker \<times> breaker_module) option" where
  "get_circuit_breaker settings m =
     (case breaker_instance m of
        Some b \<Rightarrow> Some (b, m)
      | None \<Rightarrow>
          (case settings of
             None \<Rightarrow> None
           | Some threshold \<Rightarrow>
               (let b = CircuitBreaker_init threshold DEFAULT_COOLDOWN_SECONDS ''gemini''
                          DEFAULT_HALF_OPEN_PROBE_TIMEOUT
                in Some (b, m\<lparr>breaker_instance := Some b\<rparr>))))"

definition fresh_endpoint_breaker :: "int option \<Rightarrow> string \<Rightarrow> CircuitBreaker" where
  "fresh_endpoint_breaker settings endpoint_id =
     CircuitBreaker_init (case settings of None \<Rightarrow> 5 | Some t \<Rightarrow> t) DEFAULT_COOLDOWN_SECONDS
       (''endpoint:'' @ endpoint_id) DEFAULT_HALF_OPEN_PROBE_TIMEOUT"

definition get_breaker_for_endpoint ::
    "int option \<Rightarrow> string \<Rightarrow> breaker_module \<Rightarrow> CircuitBreaker \<times> breaker_module" where
  "get_breaker_for_endpoint settings endpoint_id m =
     (case map_of (endpoint_breakers m) endpoint_id of
        Some b \<Rightarrow> (b, m)
      | None \<Rightarrow>
          (let b = fresh_endpoint_breaker settings endpoint_id
           in (b, m\<lparr>endpoint_breakers := AList.update endpoint_id b (endpoint_breakers m)\<rparr>)))"

definition reset_endpoint_breakers_for_tests :: "breaker_module \<Rightarrow> breaker_module" where
  "reset_endpoint_breakers_for_tests m = m\<lparr>endpoint_breakers := []\<rparr>"

definition reset_circuit_breaker_for_tests :: "breaker_module \<Rightarrow> breaker_module" where
  "reset_circuit_breaker_for_tests m = m\<lparr>breaker_instance := None, endpoint_breakers := []\<rparr>"

text \<open>
  A caller gets the breaker of an endpoint and runs a method on it; the object is shared, so the
  registry holds the updated breaker afterwards.
\<close>

definition with_endpoint_breaker ::
    "int option \<Rightarrow> string \<Rightarrow> (CircuitBreaker \<Rightarrow> CircuitBreaker) \<Rightarrow> breaker_module \<Rightarrow> breaker_module"
where
  "with_endpoint_breaker settings e f m =
     (let (b, m') = get_breaker_for_endpoint settings e m
      in m'\<lparr>endpoint_breakers := AList.update e (f b) (endpoint_breakers m')\<rparr>)"

section \<open>Runs\<close>

text \<open>
  A breaker together with the latest reading of the monotonic clock. A step is one method call;
  its readings are not earlier than the readings before it.
\<close>

type_synonym breaker_sys = "CircuitBreaker \<times> seconds"

datatype breaker_label = Allow seconds seconds bool | Success | Failure | Reset

inductive breaker_step :: "breaker_sys \<Rightarrow> breaker_label \<Rightarrow> breaker_sys \<Rightarrow> bool" where
  step_allow: "clk \<le> now \<Longrightarrow> now \<le> now' \<Longrightarrow> CircuitBreaker_allow now now' b = (r, b') \<Longrightarrow>
     breaker_step (b, clk) (Allow now now' r) (b', now')"
| step_success: "clk \<le> now \<Longrightarrow>
     breaker_step (b, clk) Success (CircuitBreaker_record_success b, now)"
| step_failure: "clk \<le> now \<Longrightarrow>
     breaker_step (b, clk) Failure (CircuitBreaker_record_failure now b, now)"
| step_reset: "clk \<le> now \<Longrightarrow> breaker_step (b, clk) Reset (CircuitBreaker_reset b, now)"

inductive breaker_run :: "breaker_sys \<Rightarrow> breaker_label list \<Rightarrow> breaker_sys \<Rightarrow> bool" where
  run_nil: "breaker_run s [] s"
| run_cons: "breaker_step s l s' \<Longrightarrow> breaker_run s' ls s'' \<Longrightarrow> breaker_run s (l # ls) s''"

inductive_cases step_allowE: "breaker_step s (Allow n m r) s'"
inductive_simps run_Nil_iff [simp]: "breaker_run s [] s'"
inductive_simps run_Cons_iff: "breaker_run s (l # ls) s'"

definition breaker_inv :: "breaker_sys \<Rightarrow> bool" where
  "breaker_inv s = (case s of (b, clk) \<Rightarrow>
     0 \<le> cb_consecutive_failures b \<and>
     (case cb_state b of
        Closed \<Rightarrow> cb_opened_at b = None \<and> cb_half_open_at b = None \<and>
                  cb_consecutive_failures b < max 1 (cb_threshold b)
      | Open \<Rightarrow> cb_half_open_at b = None \<and> (\<exists>t. cb_opened_at b = Some t \<and> t \<le> clk)
      | Half_open \<Rightarrow> (\<exists>t u. cb_opened_at b = Some t \<and> cb_half_open_at b = Some u \<and>
                  t + of_int (cb_cooldown_seconds b) \<le> u \<and> u \<le> clk)))"

lemmas breaker_method_defs =
  CircuitBreaker_allow_def CircuitBreaker_record_success_def CircuitBreaker_record_failure_def
  CircuitBreaker_reset_def CircuitBreaker_transition_def

section \<open>Invariant\<close>

lemma breaker_inv_init: "breaker_inv (CircuitBreaker_init th cd label pt, clk)"
  by (simp add: breaker_inv_def CircuitBreaker_init_def)

lemma breaker_inv_step: "breaker_step s l s' \<Longrightarrow> breaker_inv s \<Longrightarrow> breaker_inv s'"
proof (induction rule: breaker_step.induct)
  case (step_allow clk now now' b r b')
  then show ?case
    by (cases "cb_state b")
      (auto simp: breaker_inv_def breaker_method_defs split: if_splits option.splits)
next
  case (step_success clk now b)
  then show ?case
    by (cases "cb_state b") (auto simp: breaker_inv_def breaker_method_defs Let_def)
next
  case (step_failure clk now b)
  then show ?case
    by (cases "cb_state b") (auto simp: breaker_inv_def breaker_method_defs Let_def)
next
  case (step_reset clk now b)
  then show ?case
    by (auto simp: breaker_inv_def breaker_method_defs)
qed

lemma breaker_run_append:
  "breaker_run s (ls @ ls') s'' \<longleftrightarrow> (\<exists>s'. breaker_run s ls s' \<and> breaker_run s' ls' s'')"
  by (induction ls arbitrary: s) (auto simp: run_Cons_iff)

lemma breaker_inv_run: "breaker_run s ls s' \<Longrightarrow> breaker_inv s \<Longrightarrow> breaker_inv s'"
  by (induction rule: breaker_run.induct) (auto intro: breaker_inv_step)

text \<open>The configuration never changes.\<close>

lemma breaker_step_config:
  "breaker_step s l s' \<Longrightarrow>
     cb_threshold (fst s') = cb_threshold (fst s) \<and>
     cb_cooldown_seconds (fst s') = cb_cooldown_seconds (fst s) \<and>
     cb_half_open_probe_timeout (fst s') = cb_half_open_probe_timeout (fst s)"
proof (induction rule: breaker_step.induct)
  case (step_allow clk now now' b r b')
  then show ?case
    by (cases "cb_state b") (auto simp: breaker_method_defs split: if_splits option.splits)
qed (auto simp: breaker_method_defs Let_def)

section \<open>Probes during an outage\<close>

text \<open>
  After a probe at \<open>u\<close> the breaker is either still probing, or open with a cooldown that started
  no earlier than \<open>u\<close>. Every step but a recorded success keeps this, and a further probe is only
  granted one cooldown later.
\<close>

definition holds_off :: "seconds \<Rightarrow> breaker_sys \<Rightarrow> bool" where
  "holds_off u s = (case s of (b, clk) \<Rightarrow>
     u \<le> clk \<and>
     (cb_state b = Half_open \<or>
      cb_state b = Open \<and> (\<exists>t. cb_opened_at b = Some t \<and> u \<le> t)))"

lemma holds_off_step:
  "breaker_step s l s' \<Longrightarrow> holds_off u s \<Longrightarrow> l \<noteq> Success \<Longrightarrow> l \<noteq> Reset \<Longrightarrow> holds_off u s'"
proof (induction rule: breaker_step.induct)
  case (step_allow clk now now' b r b')
  then show ?case
    by (cases "cb_state b")
      (auto simp: holds_off_def breaker_method_defs split: if_splits option.splits)
next
  case (step_failure clk now b)
  then show ?case
    by (cases "cb_state b") (auto simp: holds_off_def breaker_method_defs Let_def)
qed simp_all

lemma holds_off_grant:
  "breaker_step s (Allow n m True) s' \<Longrightarrow> holds_off u s \<Longrightarrow>
     u + of_int (cb_cooldown_seconds (fst s)) \<le> n"
  by (erule step_allowE)
    (auto simp: holds_off_def breaker_method_defs split: if_splits option.splits BreakerState.splits)

lemma holds_off_run:
  "breaker_run s ls s' \<Longrightarrow> holds_off u s \<Longrightarrow> Success \<notin> set ls \<Longrightarrow> Reset \<notin> set ls \<Longrightarrow>
     holds_off u s' \<and> cb_cooldown_seconds (fst s') = cb_cooldown_seconds (fst s)"
proof (induction rule: breaker_run.induct)
  case (run_cons s l s' ls s'')
  then show ?case using holds_off_step [OF run_cons.hyps(1)] breaker_step_config by auto
qed simp

lemma grant_holds_off:
  "breaker_step s (Allow n m True) s' \<Longrightarrow> cb_state (fst s) \<noteq> Closed \<Longrightarrow> holds_off m s'"
  by (erule step_allowE)
    (auto simp: holds_off_def breaker_method_defs split: if_splits option.splits BreakerState.splits)

lemma no_success_not_closed:
  "breaker_run s ls s' \<Longrightarrow> cb_state (fst s) \<noteq> Closed \<Longrightarrow> Success \<notin> set ls \<Longrightarrow> Reset \<notin> set ls \<Longrightarrow>
     cb_state (fst s') \<noteq> Closed \<and> cb_cooldown_seconds (fst s') = cb_cooldown_seconds (fst s)"
proof (induction rule: breaker_run.induct)
  case (run_cons s l s' ls s'')
  have "cb_state (fst s') \<noteq> Closed"
    using run_cons.hyps(1) run_cons.prems
    by (induction rule: breaker_step.induct)
      (auto simp: breaker_method_defs Let_def split: if_splits option.splits BreakerState.splits)
  with run_cons show ?case using breaker_step_config by auto
qed simp

text \<open>
  Property C5. While no success is recorded, an open breaker lets probes through at most once per
  cooldown, in every interleaving of \<^verbatim>\<open>allow\<close> and \<^verbatim>\<open>record_failure\<close> calls: between a granted probe
  (whose second clock reading is \<open>m1\<close>) and the next one (checked at \<open>n2\<close>) at least
  \<^verbatim>\<open>cooldown_seconds\<close> pass, however many callers ask in between.
\<close>

theorem breaker_probe_spacing:
  assumes run: "breaker_run s (xs @ Allow n1 m1 True # ys @ Allow n2 m2 True # zs) s'"
    and tripped: "cb_state (fst s) \<noteq> Closed"
    and outage: "Success \<notin> set (xs @ ys)" "Reset \<notin> set (xs @ ys)"
  shows "m1 + of_int (cb_cooldown_seconds (fst s)) \<le> n2"
proof -
  from run obtain s1 s2 s3 s4 where
    1: "breaker_run s xs s1" "breaker_step s1 (Allow n1 m1 True) s2"
    and 2: "breaker_run s2 ys s3" "breaker_step s3 (Allow n2 m2 True) s4"
    by (auto simp: breaker_run_append run_Cons_iff)
  have s1: "cb_state (fst s1) \<noteq> Closed"
      "cb_cooldown_seconds (fst s1) = cb_cooldown_seconds (fst s)"
    using no_success_not_closed [OF 1(1) tripped] outage by auto
  then have "holds_off m1 s2" using grant_holds_off [OF 1(2)] by simp
  then have "holds_off m1 s3" "cb_cooldown_seconds (fst s3) = cb_cooldown_seconds (fst s2)"
    using holds_off_run [OF 2(1)] outage by auto
  with holds_off_grant [OF 2(2)] s1 breaker_step_config [OF 1(2)] show ?thesis by simp
qed

definition tripped_example :: CircuitBreaker where
  "tripped_example = CircuitBreaker_record_failure 0 (CircuitBreaker_init 1 60 ''gemini'' 120)"

lemmas breaker_example_simps =
  tripped_example_def CircuitBreaker_init_def breaker_method_defs Let_def

theorem breaker_probe_spacing_witness:
  "(60::rat) + of_int (cb_cooldown_seconds tripped_example) \<le> 125"
proof -
  let ?b1 = "snd (CircuitBreaker_allow 60 60 tripped_example)"
  let ?b2 = "CircuitBreaker_record_failure 61 ?b1"
  let ?b3 = "snd (CircuitBreaker_allow 125 125 ?b2)"
  have "breaker_step (tripped_example, 0) (Allow 60 60 True) (?b1, 60)"
    by (rule step_allow) (simp_all add: breaker_example_simps)
  moreover have "breaker_step (?b1, 60) Failure (?b2, 61)"
    by (rule step_failure) simp
  moreover have "breaker_step (?b2, 61) (Allow 125 125 True) (?b3, 125)"
    by (rule step_allow) (simp_all add: breaker_example_simps)
  ultimately have "breaker_run (tripped_example, 0)
      ([] @ Allow 60 60 True # [Failure] @ Allow 125 125 True # []) (?b3, 125)"
    by (auto intro: run_cons run_nil)
  from breaker_probe_spacing [OF this] show ?thesis
    by (simp add: breaker_example_simps)
qed

section \<open>Invariant, recovery, tripping\<close>

text \<open>
  In every state a fresh breaker can reach by any sequence of method calls, the fields
  agree with the state: closed means no timestamps and fewer failures than the threshold, open
  means a recorded opening time, half-open means a probe time at least one cooldown after the
  opening. In particular \<^verbatim>\<open>_opened_at is None\<close> never holds in the open state.
\<close>

theorem breaker_reachable_inv:
  assumes "breaker_run (CircuitBreaker_init th cd label pt, t0) ls s"
  shows "breaker_inv s"
  using breaker_inv_run [OF assms breaker_inv_init] .

theorem breaker_reachable_inv_witness:
  "breaker_inv (CircuitBreaker_record_failure 3 (CircuitBreaker_init 1 60 ''gemini'' 120), 3)"
proof -
  have "breaker_run (CircuitBreaker_init 1 60 ''gemini'' 120, 0) [Failure]
      (CircuitBreaker_record_failure 3 (CircuitBreaker_init 1 60 ''gemini'' 120), 3)"
    by (auto simp: run_Cons_iff breaker_step.simps)
  then show ?thesis by (rule breaker_reachable_inv)
qed

text \<open>
  The breaker never denies forever: from any state that satisfies the invariant, a
  caller that asks once after the cooldown and the probe timeout have passed, and, if denied, asks
  again one cooldown later, gets through. This covers a probe whose caller died without recording
  an outcome.
\<close>

theorem breaker_recovers:
  assumes "breaker_inv (b, clk)"
    and "clk + of_int (cb_cooldown_seconds b) \<le> n1"
    and "clk + of_int (cb_half_open_probe_timeout b) \<le> n1"
    and "m1 + of_int (cb_cooldown_seconds b) \<le> n2"
  shows "fst (CircuitBreaker_allow n1 m1 b) \<or>
     fst (CircuitBreaker_allow n2 m2 (snd (CircuitBreaker_allow n1 m1 b)))"
proof (cases "cb_state b")
  case Closed
  then show ?thesis by (simp add: breaker_method_defs)
next
  case Open
  with assms(1,2) show ?thesis by (auto simp: breaker_inv_def breaker_method_defs)
next
  case Half_open
  with assms(1,3,4) show ?thesis by (auto simp: breaker_inv_def breaker_method_defs)
qed

theorem breaker_recovers_witness:
  "let b = snd (CircuitBreaker_allow 60 60 tripped_example) in
   breaker_inv (b, 60) \<and> \<not> fst (CircuitBreaker_allow 180 180 b) \<and>
   fst (CircuitBreaker_allow 240 240 (snd (CircuitBreaker_allow 180 180 b)))"
  using breaker_recovers [of "snd (CircuitBreaker_allow 60 60 tripped_example)" 60 180 180 240 240]
  by (simp add: breaker_inv_def breaker_example_simps)

lemma failure_below:
  "cb_state b = Closed \<Longrightarrow> cb_consecutive_failures b + 1 < cb_threshold b \<Longrightarrow>
     CircuitBreaker_record_failure t b
       = b\<lparr>cb_consecutive_failures := cb_consecutive_failures b + 1\<rparr>"
  by (simp add: CircuitBreaker_record_failure_def Let_def)

lemma failure_trips:
  "cb_state b = Closed \<Longrightarrow> cb_threshold b \<le> cb_consecutive_failures b + 1 \<Longrightarrow>
     cb_state (CircuitBreaker_record_failure t b) = Open \<and>
     cb_opened_at (CircuitBreaker_record_failure t b) = Some t"
  by (simp add: breaker_method_defs Let_def)

lemma failures_below_threshold:
  assumes "cb_state b = Closed"
    and "cb_consecutive_failures b + int (length ts) < max 1 (cb_threshold b)"
    and "0 \<le> cb_consecutive_failures b"
  shows "fold CircuitBreaker_record_failure ts b
    = b\<lparr>cb_consecutive_failures := cb_consecutive_failures b + int (length ts)\<rparr>"
  using assms
proof (induction ts arbitrary: b)
  case Nil
  then show ?case by simp
next
  case (Cons t ts)
  have "CircuitBreaker_record_failure t b
      = b\<lparr>cb_consecutive_failures := cb_consecutive_failures b + 1\<rparr>"
    using Cons.prems by (intro failure_below) auto
  then show ?case
    using Cons.IH [of "b\<lparr>cb_consecutive_failures := cb_consecutive_failures b + 1\<rparr>"] Cons.prems
    by (simp add: algebra_simps)
qed

lemma failures_when_open:
  "cb_state b = Open \<Longrightarrow>
     cb_state (fold CircuitBreaker_record_failure ts b) = Open \<and>
     cb_opened_at (fold CircuitBreaker_record_failure ts b) = cb_opened_at b"
  by (induction ts arbitrary: b) (simp_all add: CircuitBreaker_record_failure_def Let_def)

text \<open>
  A fresh breaker trips exactly at the threshold: after \<open>n\<close> failures in a row it is
  still closed while \<open>n\<close> is below \<^term>\<open>max 1 threshold\<close>, and from then on open with the time of the
  failure that tripped it (a threshold below one behaves like one).
\<close>

theorem breaker_trips_at_threshold:
  "let k = nat (max 1 th);
       b = fold CircuitBreaker_record_failure ts (CircuitBreaker_init th cd label pt) in
   cb_state b = (if length ts < k then Closed else Open) \<and>
   cb_opened_at b = (if length ts < k then None else Some (ts ! (k - 1)))"
proof -
  let ?i = "CircuitBreaker_init th cd label pt"
  let ?k = "nat (max 1 th)"
  let ?f = "fold CircuitBreaker_record_failure"
  have below: "?f us ?i = ?i\<lparr>cb_consecutive_failures := int (length us)\<rparr>"
    if "length us < ?k" for us
    using failures_below_threshold [of ?i us] that by (simp add: CircuitBreaker_init_def)
  show ?thesis
  proof (cases "length ts < ?k")
    case True
    then show ?thesis using below by (simp add: Let_def CircuitBreaker_init_def)
  next
    case False
    let ?us = "take (?k - 1) ts"
    let ?b = "?f ?us ?i"
    have us: "?b = ?i\<lparr>cb_consecutive_failures := int (?k - 1)\<rparr>"
      using False below [of ?us] by simp
    have "ts = ?us @ ts ! (?k - 1) # drop ?k ts"
      using False id_take_nth_drop [of "?k - 1" ts] by simp
    then have ts: "?f ts ?i = ?f (drop ?k ts) (CircuitBreaker_record_failure (ts ! (?k - 1)) ?b)"
      by (metis fold.simps(2) fold_append comp_apply)
    have "cb_state ?b = Closed" "cb_threshold ?b \<le> cb_consecutive_failures ?b + 1"
      unfolding us by (auto simp: CircuitBreaker_init_def)
    from failure_trips [OF this] show ?thesis
      using False by (simp add: Let_def ts failures_when_open)
  qed
qed

text \<open>A recorded success closes the breaker from any state, and a closed breaker admits at once.\<close>

lemma success_closes:
  "cb_state (CircuitBreaker_record_success b) = Closed \<and>
   cb_consecutive_failures (CircuitBreaker_record_success b) = 0 \<and>
   CircuitBreaker_allow n m (CircuitBreaker_record_success b) = (True, CircuitBreaker_record_success b)"
  by (cases "cb_state b") (simp_all add: breaker_method_defs Let_def)

section \<open>Endpoints fail independently\<close>

interpretation endpoint_registry: keyed_registry
  "\<lambda>m. map_of (endpoint_breakers m)"
  "\<lambda>e m. snd (get_breaker_for_endpoint settings e m)"
  "\<lambda>e b m. m\<lparr>endpoint_breakers := AList.update e b (endpoint_breakers m)\<rparr>"
  "fresh_endpoint_breaker settings"
  for settings
  by unfold_locales (simp_all add: get_breaker_for_endpoint_def Let_def split: option.split)

lemma with_endpoint_breaker_call:
  "with_endpoint_breaker settings e f = endpoint_registry.call settings e f"
proof (rule ext)
  fix m
  have "fst (get_breaker_for_endpoint settings e m)
      = the (map_of (endpoint_breakers (snd (get_breaker_for_endpoint settings e m))) e)"
    by (simp add: get_breaker_for_endpoint_def Let_def split: option.split)
  then show "with_endpoint_breaker settings e f m = endpoint_registry.call settings e f m"
    by (simp add: with_endpoint_breaker_def endpoint_registry.call_def case_prod_beta Let_def)
qed

text \<open>
  Endpoints fail independently: after any interleaving of method calls on the breakers
  of any endpoints, the breaker that \<^verbatim>\<open>get_breaker_for_endpoint\<close> returns for one endpoint is the one
  it would return if only the calls for that endpoint had been made. An outage of one endpoint
  therefore never trips, closes or delays the breaker of another.
\<close>

theorem endpoint_breakers_isolated:
  "fst (get_breaker_for_endpoint settings e
          (fold (\<lambda>(e', f). with_endpoint_breaker settings e' f) calls m)) =
   fst (get_breaker_for_endpoint settings e
          (fold (\<lambda>(e', f). with_endpoint_breaker settings e' f)
             (filter (\<lambda>c. fst c = e) calls) m))"
proof -
  have get: "fst (get_breaker_for_endpoint settings e m') = endpoint_registry.component settings m' e"
    for m'
    by (simp add: get_breaker_for_endpoint_def endpoint_registry.component_def Let_def
        split: option.split)
  have run: "fold (\<lambda>(e', f). with_endpoint_breaker settings e' f) cs m'
      = endpoint_registry.calls settings cs m'" for cs m'
    by (simp add: endpoint_registry.calls_def with_endpoint_breaker_call)
  show ?thesis
    unfolding get run by (rule endpoint_registry.component_calls_own)
qed

end
