(* ===== verification/Sliding_Window.thy ===== *)
theory Sliding_Window
  imports Atlas_Prelude
begin

text \<open>
  The contract of a sliding-window limiter. A limiter keeps the events it admitted; on a request
  it forgets the events older than the window and admits the request only if the weights in the
  window, the request included, stay within the limit. The MCP rate limiter (one unit per call)
  and both budgets of the LLM throttle (calls per minute, tokens per minute) are instances.
  Between requests other operations (\<open>tick\<close>) may change the rest of the state, but not the events.

  What a limiter promises is a statement about the history of everything it ever admitted: no
  window of the given width, wherever it is placed, holds more than the limit.
\<close>

locale sliding_window =
  fixes time :: "'e \<Rightarrow> rat"
    and weight :: "'e \<Rightarrow> nat"
    and width :: rat
    and limit :: "'s \<Rightarrow> nat"
    and events :: "'s \<Rightarrow> 'e list"
    and inv :: "'s \<Rightarrow> bool"
    and step :: "'e \<Rightarrow> 's \<Rightarrow> bool \<times> 's"
    and tick :: "'x \<Rightarrow> 's \<Rightarrow> 's"
  assumes width_nonneg: "0 \<le> width"
    and step_events: "inv s \<Longrightarrow> sorted (map time (events s @ [e])) \<Longrightarrow>
      events (snd (step e s)) = filter (\<lambda>x. time e - width \<le> time x) (events s)
        @ (if fst (step e s) then [e] else [])"
    and step_budget: "inv s \<Longrightarrow> sorted (map time (events s @ [e])) \<Longrightarrow> fst (step e s) \<Longrightarrow>
      sum_list (map weight (events (snd (step e s)))) \<le> limit s"
    and step_keeps: "inv s \<Longrightarrow> inv (snd (step e s)) \<and> limit (snd (step e s)) = limit s"
    and tick_keeps: "inv s \<Longrightarrow> inv (tick x s) \<and> limit (tick x s) = limit s \<and> events (tick x s) = events s"
begin

text \<open>A run with its history: requests (\<open>Inl\<close>) and other operations (\<open>Inr\<close>) in any order.\<close>

definition hist_step :: "'e + 'x \<Rightarrow> 'e list \<times> 's \<Rightarrow> 'e list \<times> 's" where
  "hist_step a p = (case a of
     Inl e \<Rightarrow> (fst p @ (if fst (step e (snd p)) then [e] else []), snd (step e (snd p)))
   | Inr x \<Rightarrow> (fst p, tick x (snd p)))"

definition run :: "('e + 'x) list \<Rightarrow> 's \<Rightarrow> 'e list \<times> 's" where
  "run as s = fold hist_step as ([], s)"

definition requests :: "('e + 'x) list \<Rightarrow> 'e list" where
  "requests as = List.map_filter (\<lambda>a. case a of Inl e \<Rightarrow> Some e | Inr _ \<Rightarrow> None) as"

definition budget_ok :: "nat \<Rightarrow> 'e list \<Rightarrow> bool" where
  "budget_ok n hist = (\<forall>xs e ys. hist = xs @ e # ys \<longrightarrow>
     sum_list (map weight (filter (\<lambda>x. time e - width \<le> time x) (xs @ [e]))) \<le> n)"

lemma requests_simps [simp]:
  "requests [] = []" "requests (as @ [Inl e]) = requests as @ [e]"
  "requests (as @ [Inr x]) = requests as"
  by (simp_all add: requests_def List.map_filter_def)

lemma budget_ok_snoc:
  assumes "budget_ok n hist"
    and "sum_list (map weight (filter (\<lambda>x. time e - width \<le> time x) (hist @ [e]))) \<le> n"
  shows "budget_ok n (hist @ [e])"
  unfolding budget_ok_def
proof (intro allI impI)
  fix xs f ys
  assume eq: "hist @ [e] = xs @ f # ys"
  show "sum_list (map weight (filter (\<lambda>x. time f - width \<le> time x) (xs @ [f]))) \<le> n"
  proof (cases ys rule: rev_cases)
    case Nil
    with eq show ?thesis using assms(2) by simp
  next
    case (snoc ys' y)
    with eq have "hist = xs @ f # ys'" by simp
    with assms(1) show ?thesis unfolding budget_ok_def by blast
  qed
qed

lemma run_snoc: "run (as @ [a]) s = hist_step a (run as s)"
  by (simp add: run_def)

text \<open>
  The events the limiter holds are the part of the history that lies in the window of the last
  request, \<open>lo\<close> being where that window starts.
\<close>

definition tracks :: "'e list \<Rightarrow> 'e list \<Rightarrow> 'e list \<Rightarrow> bool" where
  "tracks reqs hist es \<longleftrightarrow> subseq hist reqs \<and>
     (\<exists>lo. es = filter (\<lambda>x. lo \<le> time x) hist \<and> (\<forall>r \<in> set reqs. lo \<le> time (last reqs) - width))"

lemma tracks_step:
  assumes inv: "inv s" and tr: "tracks reqs hist (events s)" and ok: "budget_ok (limit s) hist"
    and sorted: "sorted (map time (reqs @ [e]))"
  shows "tracks (reqs @ [e]) (hist @ (if fst (step e s) then [e] else [])) (events (snd (step e s))) \<and>
    budget_ok (limit s) (hist @ (if fst (step e s) then [e] else []))"
proof -
  let ?win = "\<lambda>x. time e - width \<le> time x"
  from tr obtain lo where sub: "subseq hist reqs" and es: "events s = filter (\<lambda>x. lo \<le> time x) hist"
    and lo: "\<forall>r \<in> set reqs. lo \<le> time (last reqs) - width"
    unfolding tracks_def by blast
  have le: "time x \<le> time e" if "x \<in> set hist" for x
    using list_emb_set [OF sub that] sorted by (auto simp: sorted_append)
  have "sorted (map time hist)"
    using sub sorted by (auto simp: sorted_append intro: subseq_sorted_map)
  then have srt: "sorted (map time (events s @ [e]))"
    unfolding es using le by (auto simp: sorted_append intro: sorted_filter)
  have "lo \<le> time e - width" if "reqs \<noteq> []"
    using lo sorted that by (auto simp: sorted_append intro: order_trans)
  moreover have "hist = []" if "reqs = []" using sub that by simp
  ultimately have win: "filter ?win (events s) = filter ?win hist"
    unfolding es by (cases "reqs = []") (auto intro!: filter_cong)
  have ev: "events (snd (step e s)) = filter ?win hist @ (if fst (step e s) then [e] else [])"
    using step_events [OF inv srt] win by simp
  have "budget_ok (limit s) (hist @ (if fst (step e s) then [e] else []))"
    using ok step_budget [OF inv srt] ev width_nonneg by (auto intro!: budget_ok_snoc)
  moreover have "subseq (hist @ (if fst (step e s) then [e] else [])) (reqs @ [e])"
    using sub by (intro list_emb_append_mono) auto
  ultimately show ?thesis
    using ev width_nonneg by (auto simp: tracks_def intro!: exI [of _ "time e - width"])
qed

lemma run_tracks:
  assumes "inv s" "events s = []" "sorted (map time (requests as))"
  shows "inv (snd (run as s)) \<and> limit (snd (run as s)) = limit s \<and>
    tracks (requests as) (fst (run as s)) (events (snd (run as s))) \<and>
    budget_ok (limit s) (fst (run as s))"
  using assms(3)
proof (induction as rule: rev_induct)
  case Nil
  then show ?case using assms(1,2) by (simp add: run_def tracks_def budget_ok_def)
next
  case (snoc a as)
  have IH: "inv (snd (run as s)) \<and> limit (snd (run as s)) = limit s \<and>
    tracks (requests as) (fst (run as s)) (events (snd (run as s))) \<and>
    budget_ok (limit s) (fst (run as s))"
    using snoc by (cases a) (auto simp: sorted_append)
  show ?case
  proof (cases a)
    case (Inl e)
    with IH snoc.prems tracks_step [of "snd (run as s)" "requests as" "fst (run as s)" e]
    show ?thesis by (simp add: run_snoc hist_step_def step_keeps)
  next
    case (Inr x)
    with IH show ?thesis by (simp add: run_snoc hist_step_def tick_keeps)
  qed
qed

lemma sum_list_filter_mono:
  "(\<And>x. x \<in> set xs \<Longrightarrow> P x \<Longrightarrow> Q x) \<Longrightarrow>
     sum_list (map weight (filter P xs)) \<le> sum_list (map weight (filter Q xs))"
  by (induction xs) (auto simp: trans_le_add2)

text \<open>The promise: any window of the given width.\<close>

lemma window_bound:
  assumes "inv s" "events s = []" "sorted (map time (requests as))"
  shows "sum_list (map weight (filter (\<lambda>x. t - width \<le> time x \<and> time x \<le> t) (fst (run as s))))
    \<le> limit s"
proof -
  let ?hist = "fst (run as s)" and ?P = "\<lambda>x. t - width \<le> time x \<and> time x \<le> t"
  have ok: "budget_ok (limit s) ?hist" using run_tracks [OF assms] by simp
  show ?thesis
  proof (cases "\<exists>x \<in> set ?hist. ?P x")
    case False
    then have "filter ?P ?hist = []" by (simp add: filter_empty_conv)
    then show ?thesis by simp
  next
    case True
    then obtain xs e ys where split: "?hist = xs @ e # ys" "?P e" "\<forall>y \<in> set ys. \<not> ?P y"
      using split_list_last_prop [of ?hist ?P] by blast
    have "sum_list (map weight (filter ?P ?hist)) = sum_list (map weight (filter ?P (xs @ [e])))"
      using split by (simp add: filter_empty_conv)
    also have "\<dots> \<le> sum_list (map weight (filter (\<lambda>x. time e - width \<le> time x) (xs @ [e])))"
      using split(2) by (intro sum_list_filter_mono) auto
    also have "\<dots> \<le> limit s" using ok split(1) unfolding budget_ok_def by blast
    finally show ?thesis .
  qed
qed

end

end
