(* ===== verification/MCP_Rate_Limit.thy ===== *)
theory MCP_Rate_Limit
  imports Sliding_Window Keyed_Registry
begin

text \<open>
  The principal-keyed rate limiter of \<^verbatim>\<open>infra/mcp_rate_limit.py\<close>: the in-process sliding window,
  the Redis backend's control flow with its fallback, and the dispatch between them.

  The Redis server is not part of the repository: the outcome of each client call (the reply of
  the Lua script, or an exception) is an argument.
\<close>

type_synonym window_key = "string \<times> string"
type_synonym windows = "(window_key, seconds list) dict"
type_synonym verdict = "bool \<times> int option"

definition DEFAULT_LIMIT :: nat where
  "DEFAULT_LIMIT = 60"

definition TOOL_LIMITS :: "(string, nat) dict" where
  "TOOL_LIMITS = [(''ask_channel'', 30), (''trigger_sync'', 5), (''refresh_wiki'', 5)]"

definition WINDOW_SECONDS :: int where
  "WINDOW_SECONDS = 60"

definition tool_limit :: "string \<Rightarrow> nat" where
  "tool_limit tool_name = (case map_of TOOL_LIMITS tool_name of Some l \<Rightarrow> l | None \<Rightarrow> DEFAULT_LIMIT)"

text \<open>
  \<^verbatim>\<open>_windows\<close> is a defaultdict: reading a missing key gives the empty list. Both branches store the
  pruned list under the key before they return.
\<close>

definition window_of :: "windows \<Rightarrow> window_key \<Rightarrow> seconds list" where
  "window_of ws key = (case map_of ws key of Some ts \<Rightarrow> ts | None \<Rightarrow> [])"

definition check_and_record_memory ::
    "string \<Rightarrow> string \<Rightarrow> seconds \<Rightarrow> windows \<Rightarrow> verdict \<times> windows" where
  "check_and_record_memory principal_id tool_name now ws =
     (let limit = tool_limit tool_name;
          window_start = now - of_int WINDOW_SECONDS;
          key = (principal_id, tool_name);
          timestamps = filter (\<lambda>t. t \<ge> window_start) (window_of ws key)
      in if length timestamps \<ge> limit
         then (case timestamps of
                 [] \<Rightarrow> ((False, None), ws)
               | oldest # _ \<Rightarrow>
                   (let retry_after = py_int (oldest + of_int WINDOW_SECONDS - now) + 1
                    in ((False, Some (max retry_after 1)), AList.update key timestamps ws)))
         else ((True, None), AList.update key (timestamps @ [now]) ws))"

text \<open>
  The empty-list branch stands for the IndexError of \<^verbatim>\<open>timestamps[0]\<close>; it needs a limit of zero,
  which no tool has.
\<close>

lemma tool_limit_pos: "0 < tool_limit tool_name"
  by (simp add: tool_limit_def TOOL_LIMITS_def DEFAULT_LIMIT_def)

text \<open>
  The Redis path. \<open>sha\<close> is the cached script hash; the other arguments are what the client calls
  return: the first \<^verbatim>\<open>evalsha\<close>, the re-load of the script, the second \<^verbatim>\<open>evalsha\<close>, and the plain
  \<^verbatim>\<open>eval\<close>; \<^const>\<open>None\<close> is an exception. A reply is the pair the script returns.
\<close>

record redis_replies =
  rr_connected :: bool
  rr_evalsha :: "(int \<times> int) option"
  rr_script_load :: "string option"
  rr_evalsha_again :: "(int \<times> int) option"
  rr_eval :: "(int \<times> int) option"

definition redis_call ::
    "string option \<Rightarrow> redis_replies \<Rightarrow> (int \<times> int) option \<times> string option" where
  "redis_call sha rr =
     (case sha of
        Some s \<Rightarrow>
          (case rr_evalsha rr of
             Some r \<Rightarrow> (Some r, sha)
           | None \<Rightarrow>
               (case rr_script_load rr of
                  None \<Rightarrow> (None, sha)
                | Some s' \<Rightarrow> (rr_evalsha_again rr, Some s')))
      | None \<Rightarrow> (rr_eval rr, sha))"

text \<open>
  \<^verbatim>\<open>_get_redis\<close> runs before the try block, so a client that cannot be built raises out of the
  function: the outcome is then \<^const>\<open>None\<close>.
\<close>

definition check_and_record_redis ::
    "redis_replies \<Rightarrow> string \<Rightarrow> string \<Rightarrow> seconds \<Rightarrow> string option \<times> windows \<Rightarrow>
       (verdict \<times> (string option \<times> windows)) option" where
  "check_and_record_redis rr principal_id tool_name now s =
     (case s of (sha, ws) \<Rightarrow>
        if \<not> rr_connected rr then None
        else case redis_call sha rr of
          (Some (a, retry), sha') \<Rightarrow>
            (let allowed = (a = 1) in
             Some ((allowed, if \<not> allowed then Some retry else None), (sha', ws)))
        | (None, sha') \<Rightarrow>
            (case check_and_record_memory principal_id tool_name now ws of
               (v, ws') \<Rightarrow> Some (v, (sha', ws'))))"

definition check_and_record ::
    "string \<Rightarrow> redis_replies \<Rightarrow> string \<Rightarrow> string \<Rightarrow> seconds \<Rightarrow> string option \<times> windows \<Rightarrow>
       (verdict \<times> (string option \<times> windows)) option" where
  "check_and_record backend rr principal_id tool_name now s =
     (if backend = ''redis'' then check_and_record_redis rr principal_id tool_name now s
      else case check_and_record_memory principal_id tool_name now (snd s) of
             (v, ws') \<Rightarrow> Some (v, (fst s, ws')))"

definition reset_state :: "windows \<Rightarrow> windows" where
  "reset_state ws = []"

section \<open>One key\<close>

text \<open>
  The handler on a single key, over the list the key holds: what the sliding-window contract is
  about. The handler on the dictionary acts on its key as this function and on no other key.
\<close>

definition window_step :: "nat \<Rightarrow> seconds \<Rightarrow> seconds list \<Rightarrow> bool \<times> seconds list" where
  "window_step limit now ts =
     (let ts' = filter (\<lambda>t. now - of_int WINDOW_SECONDS \<le> t) ts
      in if length ts' \<ge> limit then (False, ts') else (True, ts' @ [now]))"

lemma memory_step:
  assumes "check_and_record_memory p tool now ws = ((ok, ra), ws')"
  shows "(ok, window_of ws' (p, tool)) = window_step (tool_limit tool) now (window_of ws (p, tool))"
    and "key \<noteq> (p, tool) \<Longrightarrow> window_of ws' key = window_of ws key"
  using assms tool_limit_pos [of tool]
  by (auto simp: check_and_record_memory_def window_step_def window_of_def Let_def
      split: if_splits list.splits)

interpretation mcp_window: sliding_window
  "\<lambda>t. t" "\<lambda>_. 1" "of_int WINDOW_SECONDS" "\<lambda>_. limit" "\<lambda>ts. ts" "\<lambda>_. True"
  "window_step limit" "\<lambda>(_::unit) ts. ts"
  for limit
proof (unfold_locales, goal_cases)
  case 1
  show ?case by (simp add: WINDOW_SECONDS_def)
next
  case (2 ts t)
  then show ?case by (simp add: window_step_def Let_def)
next
  case (3 ts t)
  then show ?case by (simp add: window_step_def Let_def sum_list_triv split: if_splits)
qed simp_all

section \<open>Properties\<close>

text \<open>The admitted calls of one principal on one tool in a sequence of calls of anyone.\<close>

record mcp_call =
  call_principal :: string
  call_tool :: string
  call_time :: seconds

fun run_memory :: "mcp_call list \<Rightarrow> windows \<Rightarrow> (mcp_call \<times> verdict) list \<times> windows" where
  "run_memory [] ws = ([], ws)"
| "run_memory (c # cs) ws =
     (let (v, ws') = check_and_record_memory (call_principal c) (call_tool c) (call_time c) ws;
          (vs, ws'') = run_memory cs ws'
      in ((c, v) # vs, ws''))"

abbreviation on_key :: "string \<Rightarrow> string \<Rightarrow> mcp_call \<Rightarrow> bool" where
  "on_key p tool c \<equiv> call_principal c = p \<and> call_tool c = tool"

definition admitted_times :: "string \<Rightarrow> string \<Rightarrow> (mcp_call \<times> verdict) list \<Rightarrow> seconds list" where
  "admitted_times p tool vs =
     map (\<lambda>(c, v). call_time c) (filter (\<lambda>(c, v). on_key p tool c \<and> fst v) vs)"

lemma run_memory_key:
  "fold (mcp_window.hist_step (tool_limit tool)) (map (Inl \<circ> call_time) (filter (on_key p tool) cs))
       (hist, window_of ws (p, tool))
     = (hist @ admitted_times p tool (fst (run_memory cs ws)),
        window_of (snd (run_memory cs ws)) (p, tool))"
proof (induction cs arbitrary: ws hist)
  case Nil
  show ?case by (simp add: admitted_times_def)
next
  case (Cons c cs)
  obtain ok ra ws' where
    r: "check_and_record_memory (call_principal c) (call_tool c) (call_time c) ws = ((ok, ra), ws')"
    by (metis prod.exhaust)
  show ?case
  proof (cases "on_key p tool c")
    case True
    then have "window_step (tool_limit tool) (call_time c) (window_of ws (p, tool))
        = (ok, window_of ws' (p, tool))"
      using memory_step(1) [OF r] by simp
    with True show ?thesis
      using Cons.IH [of "hist @ (if ok then [call_time c] else [])" ws']
      by (auto simp: r mcp_window.hist_step_def admitted_times_def case_prod_beta Let_def)
  next
    case False
    then have "window_of ws' (p, tool) = window_of ws (p, tool)"
      using memory_step(2) [OF r] by (metis prod.inject)
    with False show ?thesis
      using Cons.IH [of hist ws']
      by (auto simp: r admitted_times_def case_prod_beta Let_def)
  qed
qed

text \<open>
  Property C8. The in-process limiter never lets a principal exceed a tool's limit: in any sequence
  of calls by any principals on any tools, made in the order of the clock from the empty state,
  every interval of 60 seconds (end points included) contains at most \<^term>\<open>tool_limit tool\<close> admitted
  calls of a principal on a tool.
\<close>

theorem mcp_window_limit:
  assumes "sorted (map call_time cs)"
  shows "length (filter (\<lambda>t. t0 \<le> t \<and> t \<le> t0 + of_int WINDOW_SECONDS)
     (admitted_times p tool (fst (run_memory cs [])))) \<le> tool_limit tool"
proof -
  let ?reqs = "map call_time (filter (on_key p tool) cs)"
  let ?as = "map (Inl \<circ> call_time) (filter (on_key p tool) cs)"
  have "mcp_window.requests ?as = ?reqs"
    by (simp add: mcp_window.requests_def List.map_filter_def comp_def)
  moreover have "sorted ?reqs" using assms by (rule sorted_filter)
  moreover have "fst (mcp_window.run (tool_limit tool) ?as [])
      = admitted_times p tool (fst (run_memory cs []))"
    using run_memory_key [of tool p cs "[]" "[]"]
    by (simp add: mcp_window.run_def window_of_def)
  ultimately show ?thesis
    using mcp_window.window_bound [of "[]" ?as "t0 + of_int WINDOW_SECONDS" "tool_limit tool"]
    by (simp add: sum_list_triv)
qed

theorem mcp_window_limit_witness:
  "let c = (\<lambda>t. \<lparr>call_principal = ''alice'', call_tool = ''trigger_sync'', call_time = t\<rparr>);
       cs = map c [0, 1, 2, 3, 4, 5, 61] in
   sorted (map call_time cs) \<and>
   admitted_times ''alice'' ''trigger_sync'' (fst (run_memory cs [])) = [0, 1, 2, 3, 4, 61] \<and>
   length (filter (\<lambda>t. 1 \<le> t \<and> t \<le> 1 + of_int WINDOW_SECONDS)
     (admitted_times ''alice'' ''trigger_sync'' (fst (run_memory cs [])))) \<le> tool_limit ''trigger_sync''"
proof -
  let ?c = "\<lambda>t. \<lparr>call_principal = ''alice'', call_tool = ''trigger_sync'', call_time = t\<rparr>"
  let ?cs = "map ?c [0, 1, 2, 3, 4, 5, 61]"
  have s: "sorted (map call_time ?cs)" by simp
  have "admitted_times ''alice'' ''trigger_sync'' (fst (run_memory ?cs [])) = [0, 1, 2, 3, 4, 61]"
    by (simp add: admitted_times_def check_and_record_memory_def window_of_def tool_limit_def
        TOOL_LIMITS_def WINDOW_SECONDS_def Let_def py_int_def)
  with s mcp_window_limit [OF s, of 1 "''alice''" "''trigger_sync''"] show ?thesis
    unfolding Let_def by blast
qed

lemma window_step_length:
  "length ts \<le> limit \<Longrightarrow> length (snd (window_step limit now ts)) \<le> limit"
  using length_filter_le [of "\<lambda>t. now - of_int WINDOW_SECONDS \<le> t" ts]
  by (auto simp: window_step_def Let_def simp del: length_filter_le)

lemma run_memory_length:
  "(\<And>p tool. length (window_of ws (p, tool)) \<le> tool_limit tool) \<Longrightarrow>
     length (window_of (snd (run_memory cs ws)) (p, tool)) \<le> tool_limit tool"
proof (induction cs arbitrary: ws)
  case Nil
  then show ?case by simp
next
  case (Cons c cs)
  obtain ok ra ws' where
    r: "check_and_record_memory (call_principal c) (call_tool c) (call_time c) ws = ((ok, ra), ws')"
    by (metis prod.exhaust)
  have "length (window_of ws' (p', tool')) \<le> tool_limit tool'" for p' tool'
  proof (cases "(p', tool') = (call_principal c, call_tool c)")
    case True
    then show ?thesis
      using memory_step(1) [OF r] window_step_length [OF Cons.prems] by (metis prod.inject snd_conv)
  next
    case False
    then show ?thesis using memory_step(2) [OF r] Cons.prems by simp
  qed
  from Cons.IH [OF this] show ?case by (simp add: r case_prod_beta Let_def)
qed

text \<open>
  The retry hint is honest: when, in a reachable state of the in-process limiter, a call
  at time \<open>now\<close> is denied with \<open>retry_after = r\<close>, then \<open>r\<close> is at least one second and the same call
  made at any time from \<open>now + r\<close> on, with no other call by that principal on that tool in
  between, is admitted. The denied call itself is not recorded, and no key ever holds more
  timestamps than the tool's limit.
\<close>

theorem mcp_retry_after_sufficient:
  assumes state: "ws = snd (run_memory cs [])"
    and denied: "check_and_record_memory p tool now ws = ((False, Some r), ws')"
    and later: "now + of_int r \<le> now'"
  shows "1 \<le> r \<and> fst (check_and_record_memory p tool now' ws') = (True, None) \<and>
    length (window_of ws' (p, tool)) \<le> tool_limit tool"
proof -
  let ?ts = "filter (\<lambda>t. now - of_int WINDOW_SECONDS \<le> t) (window_of ws (p, tool))"
  have "length (window_of ws (p, tool)) \<le> tool_limit tool"
    unfolding state by (rule run_memory_length) (simp add: window_of_def)
  then have len: "length ?ts \<le> tool_limit tool"
    by (rule order_trans [OF length_filter_le])
  from denied obtain t0 ts where ts: "?ts = t0 # ts" "length ?ts \<ge> tool_limit tool"
    and r: "r = max (py_int (t0 + of_int WINDOW_SECONDS - now) + 1) 1"
    and ws': "ws' = AList.update (p, tool) ?ts ws"
    by (auto simp: check_and_record_memory_def Let_def split: if_splits list.splits)
  have "t0 + of_int WINDOW_SECONDS - now < of_int r"
    using py_int_gt [of "t0 + of_int WINDOW_SECONDS - now"] by (simp add: r max_def)
  with later have old: "\<not> now' - of_int WINDOW_SECONDS \<le> t0" by simp
  have win: "window_of ws' (p, tool) = t0 # ts" unfolding ts(1) [symmetric] by (simp add: window_of_def ws')
  have "length (filter (\<lambda>t. now' - of_int WINDOW_SECONDS \<le> t) ts) \<le> length ts"
    by (rule length_filter_le)
  also have "\<dots> < tool_limit tool" using len ts(1) by simp
  finally have short: "length (filter (\<lambda>t. now' - of_int WINDOW_SECONDS \<le> t) ts) < tool_limit tool" .
  have "fst (check_and_record_memory p tool now' ws') = (True, None)"
    using old short by (simp add: check_and_record_memory_def Let_def win)
  with win len ts(1) r show ?thesis by simp
qed

theorem mcp_retry_after_sufficient_witness:
  "let c = (\<lambda>t. \<lparr>call_principal = ''bob'', call_tool = ''refresh_wiki'', call_time = t\<rparr>);
       ws = snd (run_memory (map c [0, 1, 2, 3, 4]) []) in
   fst (check_and_record_memory ''bob'' ''refresh_wiki'' 10 ws) = (False, Some 51) \<and>
   fst (check_and_record_memory ''bob'' ''refresh_wiki'' 61
     (snd (check_and_record_memory ''bob'' ''refresh_wiki'' 10 ws))) = (True, None)"
proof -
  let ?c = "\<lambda>t. \<lparr>call_principal = ''bob'', call_tool = ''refresh_wiki'', call_time = t\<rparr>"
  let ?ws = "snd (run_memory (map ?c [0, 1, 2, 3, 4]) [])"
  let ?d = "check_and_record_memory ''bob'' ''refresh_wiki'' 10 ?ws"
  have "fst ?d = (False, Some 51)"
    by (simp add: check_and_record_memory_def window_of_def tool_limit_def
        TOOL_LIMITS_def WINDOW_SECONDS_def Let_def py_int_def)
  moreover from this have "?d = ((False, Some 51), snd ?d)" by (metis prod.collapse)
  from mcp_retry_after_sufficient [OF refl this, of 61]
  have "fst (check_and_record_memory ''bob'' ''refresh_wiki'' 61 (snd ?d)) = (True, None)" by simp
  ultimately show ?thesis by (simp add: Let_def)
qed

text \<open>
  The Redis backend never fails open: a verdict comes either from a reply of the Lua
  script, and then it is an admission exactly when the script answered 1, or, when every attempt to
  run the script raised, from the in-process limiter on the in-process windows.
\<close>

theorem mcp_redis_no_fail_open:
  "check_and_record_redis rr p tool now (sha, ws) = Some ((ok, ra), (sha', ws')) \<Longrightarrow>
   (case fst (redis_call sha rr) of
      Some (a, retry) \<Rightarrow> ws' = ws \<and> (ok \<longleftrightarrow> a = 1) \<and> ra = (if a = 1 then None else Some retry)
    | None \<Rightarrow> check_and_record_memory p tool now ws = ((ok, ra), ws'))"
  by (auto simp: check_and_record_redis_def Let_def split: if_splits prod.splits option.splits)

theorem mcp_redis_no_fail_open_witness:
  "let rr = \<lparr>rr_connected = True, rr_evalsha = None, rr_script_load = None,
             rr_evalsha_again = Some (1, 0), rr_eval = Some (1, 0)\<rparr> in
   check_and_record_redis rr ''eve'' ''ask_channel'' 7 (Some ''sha'', []) =
     Some ((True, None), (Some ''sha'', [((''eve'', ''ask_channel''), [7])])) \<and>
   check_and_record_memory ''eve'' ''ask_channel'' 7 [] =
     ((True, None), [((''eve'', ''ask_channel''), [7])])"
proof -
  let ?rr = "\<lparr>rr_connected = True, rr_evalsha = None, rr_script_load = None,
             rr_evalsha_again = Some (1, 0), rr_eval = Some (1, 0)\<rparr>"
  have "check_and_record_redis ?rr ''eve'' ''ask_channel'' 7 (Some ''sha'', []) =
     Some ((True, None), (Some ''sha'', [((''eve'', ''ask_channel''), [7])]))"
    by (simp add: check_and_record_redis_def redis_call_def check_and_record_memory_def
        window_of_def tool_limit_def TOOL_LIMITS_def Let_def)
  with mcp_redis_no_fail_open [OF this] show ?thesis by (simp add: redis_call_def Let_def)
qed

end
