(* ===== verification/Py_Strings.thy ===== *)
theory Py_Strings
  imports Atlas_Prelude "HOL-Library.Char_ord"
begin

text \<open>
  Python's \<^verbatim>\<open>str\<close> operations on code points below 256, as the modelled modules use them:
  whitespace, \<^verbatim>\<open>strip\<close>, case mapping, \<^verbatim>\<open>find\<close>/\<^verbatim>\<open>rfind\<close>, \<^verbatim>\<open>startswith\<close>/\<^verbatim>\<open>endswith\<close>, \<^verbatim>\<open>in\<close>, \<^verbatim>\<open>split()\<close>,
  and \<^verbatim>\<open>int()\<close> of a string. \<^verbatim>\<open>upper\<close> is modelled on ASCII letters only.
\<close>

section \<open>Characters\<close>

abbreviation ord :: "char \<Rightarrow> nat" where
  "ord c \<equiv> of_char c"

definition py_isspace :: "char \<Rightarrow> bool" where
  "py_isspace c = (let n = ord c in
     9 \<le> n \<and> n \<le> 13 \<or> 28 \<le> n \<and> n \<le> 32 \<or> n = 133 \<or> n = 160)"

definition py_isdigit :: "char \<Rightarrow> bool" where
  "py_isdigit c = (let n = ord c in 48 \<le> n \<and> n \<le> 57)"

definition py_lower_char :: "char \<Rightarrow> char" where
  "py_lower_char c = (let n = ord c in
     if 65 \<le> n \<and> n \<le> 90 \<or> 192 \<le> n \<and> n \<le> 222 \<and> n \<noteq> 215 then char_of (n + 32) else c)"

definition py_upper_char :: "char \<Rightarrow> char" where
  "py_upper_char c = (let n = ord c in if 97 \<le> n \<and> n \<le> 122 then char_of (n - 32) else c)"

section \<open>Strings\<close>

definition py_lower :: "string \<Rightarrow> string" where
  "py_lower s = map py_lower_char s"

definition py_upper :: "string \<Rightarrow> string" where
  "py_upper s = map py_upper_char s"

definition py_lstrip :: "string \<Rightarrow> string" where
  "py_lstrip s = dropWhile py_isspace s"

definition py_rstrip :: "string \<Rightarrow> string" where
  "py_rstrip s = rev (dropWhile py_isspace (rev s))"

definition py_strip :: "string \<Rightarrow> string" where
  "py_strip s = py_rstrip (py_lstrip s)"

definition py_replace_char :: "char \<Rightarrow> char \<Rightarrow> string \<Rightarrow> string" where
  "py_replace_char a b s = map (\<lambda>c. if c = a then b else c) s"

text \<open>\<^verbatim>\<open>s.startswith(p)\<close>, \<^verbatim>\<open>s.endswith(p)\<close>, \<^verbatim>\<open>p in s\<close>.\<close>

definition py_startswith :: "string \<Rightarrow> string \<Rightarrow> bool" where
  "py_startswith s p \<longleftrightarrow> take (length p) s = p"

definition py_endswith :: "string \<Rightarrow> string \<Rightarrow> bool" where
  "py_endswith s p \<longleftrightarrow> length p \<le> length s \<and> drop (length s - length p) s = p"

fun py_in :: "string \<Rightarrow> string \<Rightarrow> bool" where
  "py_in p [] = (p = [])"
| "py_in p (c # cs) = (py_startswith (c # cs) p \<or> py_in p cs)"

text \<open>\<^verbatim>\<open>s.find(c)\<close> and \<^verbatim>\<open>s.rfind(c)\<close> of a single character; \<^const>\<open>None\<close> is \<^verbatim>\<open>-1\<close>.\<close>

fun py_find :: "char \<Rightarrow> string \<Rightarrow> nat option" where
  "py_find a [] = None"
| "py_find a (c # cs) = (if c = a then Some 0 else map_option Suc (py_find a cs))"

fun py_rfind :: "char \<Rightarrow> string \<Rightarrow> nat option" where
  "py_rfind a [] = None"
| "py_rfind a (c # cs) =
     (case py_rfind a cs of Some i \<Rightarrow> Some (Suc i) | None \<Rightarrow> if c = a then Some 0 else None)"

text \<open>\<^verbatim>\<open>s.split()\<close>: the maximal runs of non-whitespace characters.\<close>

fun py_split_ws :: "string \<Rightarrow> string \<Rightarrow> string list" where
  "py_split_ws acc [] = (if acc = [] then [] else [rev acc])"
| "py_split_ws acc (c # cs) =
     (if py_isspace c then (if acc = [] then py_split_ws [] cs else rev acc # py_split_ws [] cs)
      else py_split_ws (c # acc) cs)"

abbreviation py_words :: "string \<Rightarrow> string list" where
  "py_words s \<equiv> py_split_ws [] s"

text \<open>\<^verbatim>\<open>' '.join(ws)\<close>\<close>

fun py_join :: "string \<Rightarrow> string list \<Rightarrow> string" where
  "py_join sep [] = []"
| "py_join sep [w] = w"
| "py_join sep (w # ws) = w @ sep @ py_join sep ws"

text \<open>\<^verbatim>\<open>s.split(c)\<close> of a single character.\<close>

fun py_split_char :: "char \<Rightarrow> string \<Rightarrow> string list" where
  "py_split_char a [] = [[]]"
| "py_split_char a (c # cs) =
     (if c = a then [] # py_split_char a cs
      else case py_split_char a cs of [] \<Rightarrow> [[c]] | w # ws \<Rightarrow> (c # w) # ws)"

text \<open>\<^verbatim>\<open>str(n)\<close> for integers.\<close>

fun nat_digits :: "nat \<Rightarrow> string" where
  "nat_digits n = (if n < 10 then [char_of (48 + n)] else nat_digits (n div 10) @ [char_of (48 + n mod 10)])"

declare nat_digits.simps [simp del]

definition py_str_int :: "int \<Rightarrow> string" where
  "py_str_int i = (if i < 0 then CHR ''-'' # nat_digits (nat (- i)) else nat_digits (nat i))"

text \<open>
  \<^verbatim>\<open>int(s)\<close>: surrounding whitespace, an optional sign, digits with single underscores between
  them. \<^const>\<open>None\<close> is the ValueError.
\<close>

fun digits_value :: "int \<Rightarrow> bool \<Rightarrow> string \<Rightarrow> int option" where
  "digits_value acc after_digit [] = (if after_digit then Some acc else None)"
| "digits_value acc after_digit (c # cs) =
     (if py_isdigit c then digits_value (10 * acc + int (ord c - 48)) True cs
      else if c = CHR ''_'' \<and> after_digit then digits_value acc False cs
      else None)"

definition py_parse_int :: "string \<Rightarrow> int option" where
  "py_parse_int s =
     (case py_strip s of
        [] \<Rightarrow> None
      | c # cs \<Rightarrow>
          if c = CHR ''-'' then map_option uminus (digits_value 0 False cs)
          else if c = CHR ''+'' then digits_value 0 False cs
          else digits_value 0 False (c # cs))"

section \<open>Lemmas\<close>

lemma py_find_Some:
  "py_find a s = Some i \<Longrightarrow> i < length s \<and> s ! i = a \<and> a \<notin> set (take i s)"
  by (induction s arbitrary: i) (auto split: if_splits)

lemma py_find_None [simp]: "py_find a s = None \<longleftrightarrow> a \<notin> set s"
  by (induction s) auto

lemma py_rfind_Some:
  "py_rfind a s = Some i \<Longrightarrow> i < length s \<and> s ! i = a \<and> a \<notin> set (drop (Suc i) s)"
proof (induction s arbitrary: i)
  case (Cons c cs)
  have none: "py_rfind a cs = None \<longleftrightarrow> a \<notin> set cs"
    by (induction cs) (auto split: option.split)
  show ?case using Cons none by (auto split: option.splits if_splits)
qed simp

lemma py_rfind_None [simp]: "py_rfind a s = None \<longleftrightarrow> a \<notin> set s"
  by (induction s) (auto split: option.split)

lemma py_strip_ends:
  "py_strip s = [] \<or> (\<not> py_isspace (hd (py_strip s)) \<and> \<not> py_isspace (last (py_strip s)))"
proof -
  let ?l = "dropWhile py_isspace s"
  have strip: "py_strip s = rev (dropWhile py_isspace (rev ?l))"
    by (simp add: py_strip_def py_rstrip_def py_lstrip_def)
  show ?thesis
  proof (cases "dropWhile py_isspace (rev ?l) = []")
    case True
    then show ?thesis by (simp add: strip)
  next
    case False
    obtain w where w: "rev ?l = w @ dropWhile py_isspace (rev ?l)"
      by (metis takeWhile_dropWhile_id)
    then have l: "?l = py_strip s @ rev w" by (metis rev_append rev_rev_ident strip)
    moreover have ne: "py_strip s \<noteq> []" using False by (simp only: strip) simp
    ultimately have "?l \<noteq> []" "hd ?l = hd (py_strip s)"
      by (metis append_is_Nil_conv, metis hd_append2)
    then have "\<not> py_isspace (hd (py_strip s))" using hd_dropWhile [of py_isspace s] by metis
    moreover have "\<not> py_isspace (last (py_strip s))"
      using hd_dropWhile [OF False] False by (simp add: strip last_rev)
    ultimately show ?thesis by simp
  qed
qed

lemma py_strip_clean:
  "s = [] \<or> (\<not> py_isspace (hd s) \<and> \<not> py_isspace (last s)) \<Longrightarrow> py_strip s = s"
proof (cases s)
  case (Cons c cs)
  assume "s = [] \<or> (\<not> py_isspace (hd s) \<and> \<not> py_isspace (last s))"
  then have "dropWhile py_isspace s = s" "dropWhile py_isspace (rev s) = rev s"
    using Cons by (simp_all only: dropWhile_eq_self_iff hd_rev) auto
  then show ?thesis by (simp add: py_strip_def py_rstrip_def py_lstrip_def)
qed (simp add: py_strip_def py_rstrip_def py_lstrip_def)

lemma py_strip_trailing:
  assumes "py_isspace c" "s \<noteq> []" "\<not> py_isspace (hd s)" "\<not> py_isspace (last s)"
  shows "py_strip (s @ [c]) = s"
proof -
  have "dropWhile py_isspace (s @ [c]) = s @ [c]" using assms(2,3) by (cases s) auto
  moreover have "dropWhile py_isspace (rev s) = rev s" using assms(2,4) by (simp add: dropWhile_eq_self_iff hd_rev)
  ultimately show ?thesis using assms(1) by (simp add: py_strip_def py_lstrip_def py_rstrip_def)
qed

lemma py_find_append: "a \<notin> set xs \<Longrightarrow> py_find a (xs @ a # ys) = Some (length xs)"
  by (induction xs) auto

lemma py_strip_idem [simp]: "py_strip (py_strip s) = py_strip s"
  by (rule py_strip_clean [OF py_strip_ends])

lemma py_startswith_iff: "py_startswith s p \<longleftrightarrow> prefix p s"
  by (metis append_take_drop_id prefix_def py_startswith_def append_eq_conv_conj)

lemma py_endswith_iff: "py_endswith s p \<longleftrightarrow> suffix p s"
  by (metis add_diff_cancel_right' append_eq_conv_conj append_take_drop_id diff_le_self
      length_append py_endswith_def suffix_def suffix_length_le)

lemma split_char_none: "a \<notin> set s \<Longrightarrow> py_split_char a s = [s]"
  by (induction s) auto

lemma split_char_append: "a \<notin> set s \<Longrightarrow> py_split_char a (s @ a # r) = s # py_split_char a r"
  by (induction s) auto

lemma split_char_ne [simp]: "py_split_char a s \<noteq> []"
  by (induction s) (auto split: list.split)

lemma split_char_set: "set s \<subseteq> insert a (\<Union>(set ` set (py_split_char a s)))"
proof (induction s)
  case (Cons c s)
  then show ?case by (cases "py_split_char a s") auto
qed simp

lemma digits_value_append_digit:
  "py_isdigit c \<Longrightarrow> digits_value acc b s = Some v \<Longrightarrow>
     digits_value acc b (s @ [c]) = Some (10 * v + int (ord c - 48))"
  by (induction s arbitrary: acc b) (auto split: if_splits)

lemma digit_char: "d < 10 \<Longrightarrow> py_isdigit (char_of (48 + d)) \<and> ord (char_of (48 + d)) - 48 = d"
  by (simp add: py_isdigit_def)

lemma nat_digits_value: "digits_value 0 False (nat_digits n) = Some (int n)"
proof (induction n rule: nat_digits.induct)
  case (1 n)
  show ?case
  proof (cases "n < 10")
    case True
    then show ?thesis using digit_char [of n] by (subst nat_digits.simps) simp
  next
    case False
    with 1 have "digits_value 0 False (nat_digits (n div 10)) = Some (int (n div 10))" by simp
    from digits_value_append_digit [OF _ this, of "char_of (48 + n mod 10)"]
    moreover have "10 * int (n div 10) + int (n mod 10) = int n" by presburger
    ultimately show ?thesis using False digit_char [of "n mod 10"]
      by (subst nat_digits.simps) simp
  qed
qed

end
