(* ===== verification/LLM_Throttle.thy ===== *)
theory LLM_Throttle
  imports Sliding_Window Keyed_Registry Py_Strings
begin

text \<open>
  The per-provider throttle of \<^verbatim>\<open>services/llm_throttle.py\<close>: sliding-window accounting of calls and
  tokens per minute, the computed wait, the 429 backoff and the bucket registry.

  Each iteration of the acquire loop runs under the bucket's lock and is one atomic attempt
  (\<open>bucket_attempt\<close>); other callers and 429 reports may come between two attempts. Clock readings
  are arguments. The environment variables are an argument \<open>env\<close>. Token counts are natural
  numbers, since the code clamps them to at least one before use.
\<close>

section \<open>Keys and limits\<close>

definition make_bucket_key :: "string \<Rightarrow> string option \<Rightarrow> string" where
  "make_bucket_key provider endpoint_id =
     (let base = py_lower (py_strip (if provider = [] then ''unknown'' else provider))
      in case endpoint_id of
           None \<Rightarrow> base
         | Some e \<Rightarrow> if e = [] then base else base @ '':'' @ e)"

definition THROTTLE_DEFAULTS :: "(string, int \<times> int) dict" where
  "THROTTLE_DEFAULTS =
     [(''gemini'', (60, 500000)), (''openai'', (500, 200000)), (''voyage'', (300, 1000000)),
      (''cohere'', (100, 1000000)), (''mistral'', (60, 500000)), (''jina_ai'', (500, 1000000)),
      (''ollama'', (10000, 10000000))]"

definition FALLBACK_DEFAULT :: "int \<times> int" where
  "FALLBACK_DEFAULT = (60, 1000000)"

definition THROTTLE_WINDOW_SECONDS :: seconds where
  "THROTTLE_WINDOW_SECONDS = 60"

definition BACKOFF_FACTOR :: rat where
  "BACKOFF_FACTOR = 1 / 2"

definition coerce_int :: "string option \<Rightarrow> int \<Rightarrow> int" where
  "coerce_int raw fallback =
     (case raw of
        None \<Rightarrow> fallback
      | Some s \<Rightarrow> if s = [] then fallback
                  else case py_parse_int s of Some n \<Rightarrow> max 1 n | None \<Rightarrow> fallback)"

definition resolve_limits :: "(string \<Rightarrow> string option) \<Rightarrow> string \<Rightarrow> int \<times> int" where
  "resolve_limits env provider_key =
     (let upper = py_replace_char (CHR ''-'') (CHR ''_'') (py_upper provider_key);
          rpm_env = env (''LLM_RPM_OVERRIDE_'' @ upper);
          tpm_env = env (''LLM_TPM_OVERRIDE_'' @ upper);
          (base_rpm, base_tpm) =
            (case map_of THROTTLE_DEFAULTS provider_key of Some l \<Rightarrow> l | None \<Rightarrow> FALLBACK_DEFAULT)
      in (coerce_int rpm_env base_rpm, coerce_int tpm_env base_tpm))"

section \<open>Buckets\<close>

record Bucket =
  bk_provider :: string
  bk_rpm_limit :: nat
  bk_tpm_limit :: nat
  bk_events :: "(seconds \<times> nat) list"
  bk_maxlen :: nat
  bk_cooldown_until :: seconds

definition Bucket_init :: "string \<Rightarrow> int \<Rightarrow> int \<Rightarrow> Bucket" where
  "Bucket_init provider rpm tpm =
     \<lparr>bk_provider = provider, bk_rpm_limit = nat (max 1 rpm), bk_tpm_limit = nat (max 1 tpm),
      bk_events = [], bk_maxlen = max (nat (max 1 rpm) * 10) 200, bk_cooldown_until = 0\<rparr>"

definition effective_limits :: "seconds \<Rightarrow> Bucket \<Rightarrow> nat \<times> nat" where
  "effective_limits now b =
     (if now < bk_cooldown_until b
      then (max 1 (nat (py_int (of_nat (bk_rpm_limit b) * BACKOFF_FACTOR))),
            max 1 (nat (py_int (of_nat (bk_tpm_limit b) * BACKOFF_FACTOR))))
      else (bk_rpm_limit b, bk_tpm_limit b))"

definition Bucket_trim :: "seconds \<Rightarrow> Bucket \<Rightarrow> Bucket" where
  "Bucket_trim now b =
     (let cutoff = now - THROTTLE_WINDOW_SECONDS
      in b\<lparr>bk_events := dropWhile (\<lambda>e. fst e < cutoff) (bk_events b)\<rparr>)"

definition Bucket_used :: "Bucket \<Rightarrow> nat \<times> nat" where
  "Bucket_used b = (length (bk_events b), sum_list (map snd (bk_events b)))"

text \<open>The scan of \<^verbatim>\<open>_compute_wait\<close> for the first event whose expiry leaves room for the request.\<close>

fun tpm_scan :: "(seconds \<times> nat) list \<Rightarrow> int \<Rightarrow> int \<Rightarrow> seconds option" where
  "tpm_scan [] running target = None"
| "tpm_scan ((ts, tokens) # es) running target =
     (let running' = running - int tokens
      in if running' \<le> target then Some ts else tpm_scan es running' target)"

text \<open>\<^const>\<open>None\<close> is the ValueError for a request larger than the whole budget.\<close>

definition compute_wait ::
    "Bucket \<Rightarrow> seconds \<Rightarrow> nat \<Rightarrow> nat \<Rightarrow> nat \<Rightarrow> seconds option" where
  "compute_wait b now est_tokens rpm_limit tpm_limit =
     (case bk_events b of
        [] \<Rightarrow> if est_tokens > tpm_limit then None else Some THROTTLE_WINDOW_SECONDS
      | (oldest, _) # _ \<Rightarrow>
          (let rpm_used = length (bk_events b);
               tpm_used = sum_list (map snd (bk_events b));
               rpm_wait = (if rpm_used + 1 > rpm_limit
                           then (oldest + THROTTLE_WINDOW_SECONDS) - now else 0);
               tpm_wait = (if tpm_used + est_tokens > tpm_limit
                           then case tpm_scan (bk_events b) (int tpm_used)
                                       (int tpm_limit - int est_tokens) of
                                  Some ts \<Rightarrow> (ts + THROTTLE_WINDOW_SECONDS) - now
                                | None \<Rightarrow> THROTTLE_WINDOW_SECONDS
                           else 0)
           in Some (max (max rpm_wait tpm_wait) 0)))"

datatype attempt = Acquired | Sleep seconds | ValueError

text \<open>One iteration of the acquire loop.\<close>

definition bucket_attempt :: "seconds \<Rightarrow> nat \<Rightarrow> Bucket \<Rightarrow> attempt \<times> Bucket" where
  "bucket_attempt now est_tokens b0 =
     (let b = Bucket_trim now b0;
          (rpm_used, tpm_used) = Bucket_used b;
          (rpm_limit, tpm_limit) = effective_limits now b;
          rpm_ok = rpm_used + 1 \<le> rpm_limit;
          tpm_ok = tpm_used + est_tokens \<le> tpm_limit
      in if rpm_ok \<and> tpm_ok
         then (Acquired, b\<lparr>bk_events := deque_append (bk_maxlen b) (bk_events b) (now, est_tokens)\<rparr>)
         else case compute_wait b now est_tokens rpm_limit tpm_limit of
                Some wait_seconds \<Rightarrow> (Sleep wait_seconds, b)
              | None \<Rightarrow> (ValueError, b))"

text \<open>
  The loop of one caller with nobody else using the bucket: the list holds the clock reading of
  each iteration; the empty list means the caller is still asleep (\<^const>\<open>None\<close>).
\<close>

fun acquire_loop :: "nat \<Rightarrow> seconds list \<Rightarrow> Bucket \<Rightarrow> attempt option \<times> Bucket" where
  "acquire_loop est_tokens [] b = (None, b)"
| "acquire_loop est_tokens (now # nows) b =
     (case bucket_attempt now est_tokens b of
        (Sleep w, b') \<Rightarrow> acquire_loop est_tokens nows b'
      | (r, b') \<Rightarrow> (Some r, b'))"

text \<open>Readings that respect \<^verbatim>\<open>asyncio.sleep(max(wait_seconds, 0.01))\<close> between iterations.\<close>

fun paced :: "nat \<Rightarrow> seconds list \<Rightarrow> Bucket \<Rightarrow> bool" where
  "paced est_tokens (now # now' # nows) b =
     (case bucket_attempt now est_tokens b of
        (Sleep w, b') \<Rightarrow> now + max w (1 / 100) \<le> now' \<and> paced est_tokens (now' # nows) b'
      | _ \<Rightarrow> True)"
| "paced est_tokens _ b = True"

section \<open>The throttle\<close>

record LLMThrottle =
  th_buckets :: "(string, Bucket) dict"
  th_blocked_calls :: "(seconds \<times> string) list"
  th_recent_429s :: "(seconds \<times> string) list"
  th_cooldown_seconds :: seconds

definition LLMThrottle_init :: "seconds \<Rightarrow> LLMThrottle" where
  "LLMThrottle_init cooldown =
     \<lparr>th_buckets = [], th_blocked_calls = [], th_recent_429s = [], th_cooldown_seconds = cooldown\<rparr>"

definition fresh_bucket :: "(string \<Rightarrow> string option) \<Rightarrow> string \<Rightarrow> Bucket" where
  "fresh_bucket env key = (case resolve_limits env key of (rpm, tpm) \<Rightarrow> Bucket_init key rpm tpm)"

definition get_or_create_bucket ::
    "(string \<Rightarrow> string option) \<Rightarrow> string \<Rightarrow> LLMThrottle \<Rightarrow> Bucket \<times> LLMThrottle" where
  "get_or_create_bucket env provider_key th =
     (case map_of (th_buckets th) provider_key of
        Some b \<Rightarrow> (b, th)
      | None \<Rightarrow> (let b = fresh_bucket env provider_key
                 in (b, th\<lparr>th_buckets := AList.update provider_key b (th_buckets th)\<rparr>)))"

text \<open>
  \<^verbatim>\<open>acquire\<close> of one caller without interference: the readings of the loop, and the reading taken
  when the call is first found blocked.
\<close>

definition LLMThrottle_acquire ::
    "(string \<Rightarrow> string option) \<Rightarrow> string \<Rightarrow> int \<Rightarrow> string option \<Rightarrow> seconds list \<Rightarrow> seconds \<Rightarrow>
       LLMThrottle \<Rightarrow> attempt option \<times> LLMThrottle" where
  "LLMThrottle_acquire env provider est_tokens endpoint_id nows blocked_at th =
     (let provider_key = make_bucket_key provider endpoint_id;
          est = nat (max 1 est_tokens);
          (b, th1) = get_or_create_bucket env provider_key th;
          (r, b') = acquire_loop est nows b;
          blocked = (case nows of [] \<Rightarrow> False
                     | now # _ \<Rightarrow> (case fst (bucket_attempt now est b) of Sleep _ \<Rightarrow> True | _ \<Rightarrow> False));
          th2 = th1\<lparr>th_buckets := AList.update provider_key b' (th_buckets th1)\<rparr>
      in (r, if blocked
             then th2\<lparr>th_blocked_calls :=
                        deque_append 10000 (th_blocked_calls th2) (blocked_at, provider_key)\<rparr>
             else th2))"

definition report_429 ::
    "(string \<Rightarrow> string option) \<Rightarrow> string \<Rightarrow> string option \<Rightarrow> seconds \<Rightarrow> LLMThrottle \<Rightarrow> LLMThrottle" where
  "report_429 env provider endpoint_id now th =
     (let provider_key = make_bucket_key provider endpoint_id;
          (b, th1) = get_or_create_bucket env provider_key th;
          b' = b\<lparr>bk_cooldown_until := now + th_cooldown_seconds th1\<rparr>
      in th1\<lparr>th_buckets := AList.update provider_key b' (th_buckets th1),
             th_recent_429s := deque_append 1000 (th_recent_429s th1) (now, provider_key)\<rparr>)"

record llm_exception =
  exc_is_RateLimitError :: bool
  exc_status_code :: "int option"
  exc_code :: "int option"
  exc_str :: string

definition is_429_exc :: "llm_exception \<Rightarrow> bool" where
  "is_429_exc exc =
     (if exc_is_RateLimitError exc then True
      else let status_code = (case exc_status_code exc of
                                Some c \<Rightarrow> if c = 0 then exc_code exc else Some c
                              | None \<Rightarrow> exc_code exc)
           in if status_code = Some 429 then True
              else let msg = py_lower (exc_str exc)
                   in py_in ''429'' msg \<or> py_in ''rate limit'' msg \<or> py_in ''rate_limit'' msg
                      \<or> py_in ''rate-limit'' msg)"

text \<open>
  \<^verbatim>\<open>throttled_call\<close>: the wrapped coroutine is an argument, its outcome a value or an exception.
  A ValueError of \<^verbatim>\<open>acquire\<close> leaves before the call; \<^const>\<open>None\<close> is a caller still asleep.
\<close>

datatype 'r call_outcome = Returned 'r | Raised llm_exception | Too_large | Pending

definition throttled_call ::
    "(string \<Rightarrow> string option) \<Rightarrow> string \<Rightarrow> int \<Rightarrow> 'r + llm_exception \<Rightarrow> seconds list \<Rightarrow> seconds \<Rightarrow>
       seconds \<Rightarrow> LLMThrottle \<Rightarrow> 'r call_outcome \<times> LLMThrottle" where
  "throttled_call env provider est_tokens fn nows blocked_at done_at th =
     (case LLMThrottle_acquire env provider est_tokens None nows blocked_at th of
        (Some Acquired, th') \<Rightarrow>
          (case fn of
             Inl r \<Rightarrow> (Returned r, th')
           | Inr exc \<Rightarrow> (Raised exc, if is_429_exc exc then report_429 env provider None done_at th' else th'))
      | (Some _, th') \<Rightarrow> (Too_large, th')
      | (None, th') \<Rightarrow> (Pending, th'))"

record bucket_metrics =
  bm_provider :: string
  bm_rpm_limit :: nat
  bm_tpm_limit :: nat
  bm_rpm_used :: nat
  bm_tpm_used :: nat
  bm_blocked_calls :: nat
  bm_recent_429s :: nat
  bm_in_cooldown :: bool

definition metrics_snapshot :: "seconds \<Rightarrow> LLMThrottle \<Rightarrow> bucket_metrics list \<times> LLMThrottle" where
  "metrics_snapshot now th =
     (let cutoff = now - THROTTLE_WINDOW_SECONDS;
          blocked = dropWhile (\<lambda>e. fst e < cutoff) (th_blocked_calls th);
          r429s = dropWhile (\<lambda>e. fst e < cutoff) (th_recent_429s th);
          buckets = map (\<lambda>(k, b). (k, Bucket_trim now b)) (th_buckets th);
          row = (\<lambda>(k, b).
            \<lparr>bm_provider = k, bm_rpm_limit = bk_rpm_limit b, bm_tpm_limit = bk_tpm_limit b,
             bm_rpm_used = fst (Bucket_used b), bm_tpm_used = snd (Bucket_used b),
             bm_blocked_calls = length (filter (\<lambda>e. snd e = k) blocked),
             bm_recent_429s = length (filter (\<lambda>e. snd e = k) r429s),
             bm_in_cooldown = now < bk_cooldown_until b\<rparr>)
      in (map row buckets,
          th\<lparr>th_buckets := buckets, th_blocked_calls := blocked, th_recent_429s := r429s\<rparr>))"

section \<open>Facts about buckets\<close>

definition bucket_ok :: "Bucket \<Rightarrow> bool" where
  "bucket_ok b \<longleftrightarrow> 1 \<le> bk_rpm_limit b \<and> 1 \<le> bk_tpm_limit b \<and> bk_rpm_limit b \<le> bk_maxlen b"

lemma bucket_ok_init: "bucket_ok (Bucket_init p rpm tpm)"
  by (auto simp: bucket_ok_def Bucket_init_def)

lemma backoff_half: "nat (py_int (of_nat n * BACKOFF_FACTOR)) = n div 2"
proof -
  have "\<lfloor>(of_nat n / of_nat 2 :: rat)\<rfloor> = int (n div 2)" by (rule floor_divide_of_nat_eq)
  then show ?thesis by (simp add: py_int_def BACKOFF_FACTOR_def)
qed

lemma effective_limits_le:
  "bucket_ok b \<Longrightarrow> fst (effective_limits now b) \<le> bk_rpm_limit b \<and>
     snd (effective_limits now b) \<le> bk_tpm_limit b \<and>
     1 \<le> fst (effective_limits now b) \<and> 1 \<le> snd (effective_limits now b)"
  by (auto simp: effective_limits_def backoff_half bucket_ok_def)

lemma effective_limits_mono:
  "bucket_ok b \<Longrightarrow> now \<le> now' \<Longrightarrow> snd (effective_limits now b) \<le> snd (effective_limits now' b)"
  by (auto simp: effective_limits_def backoff_half bucket_ok_def)

lemma effective_limits_trim [simp]: "effective_limits now (Bucket_trim t b) = effective_limits now b"
  by (simp add: effective_limits_def Bucket_trim_def Let_def)

lemma trim_filter:
  "sorted (map fst es) \<Longrightarrow> dropWhile (\<lambda>e. fst e < c) es = filter (\<lambda>e. c \<le> fst e) es"
proof (induction es)
  case (Cons e es)
  show ?case
  proof (cases "fst e < c")
    case True
    with Cons show ?thesis by simp
  next
    case False
    with Cons.prems have "\<forall>x \<in> set es. c \<le> fst x" by (auto intro: order_trans)
    with False show ?thesis by simp
  qed
qed simp

lemma bucket_attempt_config:
  "bk_rpm_limit (snd (bucket_attempt now est b)) = bk_rpm_limit b \<and>
   bk_tpm_limit (snd (bucket_attempt now est b)) = bk_tpm_limit b \<and>
   bk_maxlen (snd (bucket_attempt now est b)) = bk_maxlen b \<and>
   bk_cooldown_until (snd (bucket_attempt now est b)) = bk_cooldown_until b"
  by (simp add: bucket_attempt_def Bucket_trim_def Let_def case_prod_beta split: option.split)

lemma bucket_attempt_ok: "bucket_ok b \<Longrightarrow> bucket_ok (snd (bucket_attempt now est b))"
  using bucket_attempt_config [of now est b] by (simp add: bucket_ok_def)

text \<open>What an attempt does to the events; the deque never overflows, since its bound exceeds the
  call limit.\<close>

lemma bucket_attempt_events:
  assumes "bucket_ok b"
  shows "bk_events (snd (bucket_attempt now est b)) = bk_events (Bucket_trim now b)
      @ (if fst (bucket_attempt now est b) = Acquired then [(now, est)] else [])"
    and "fst (bucket_attempt now est b) = Acquired \<Longrightarrow>
      length (bk_events (Bucket_trim now b)) + 1 \<le> bk_rpm_limit b \<and>
      sum_list (map snd (bk_events (Bucket_trim now b))) + est \<le> bk_tpm_limit b"
proof -
  let ?b = "Bucket_trim now b"
  have maxlen: "bk_maxlen ?b = bk_maxlen b" by (simp add: Bucket_trim_def Let_def)
  have room: "deque_append (bk_maxlen b) (bk_events ?b) x = bk_events ?b @ [x]"
    if "length (bk_events ?b) + 1 \<le> fst (effective_limits now b)" for x
    using that effective_limits_le [OF assms, of now] assms
    by (intro deque_append_room) (simp add: bucket_ok_def)
  show "bk_events (snd (bucket_attempt now est b)) = bk_events ?b
      @ (if fst (bucket_attempt now est b) = Acquired then [(now, est)] else [])"
    by (simp add: bucket_attempt_def Bucket_used_def Let_def case_prod_beta maxlen room
        split: option.split)
  show "length (bk_events ?b) + 1 \<le> bk_rpm_limit b \<and>
      sum_list (map snd (bk_events ?b)) + est \<le> bk_tpm_limit b"
    if "fst (bucket_attempt now est b) = Acquired"
    using that effective_limits_le [OF assms, of now]
    by (auto simp: bucket_attempt_def Bucket_used_def Let_def case_prod_beta
        split: option.splits if_splits)
qed

definition attempt_step :: "seconds \<times> nat \<Rightarrow> Bucket \<Rightarrow> bool \<times> Bucket" where
  "attempt_step e b = (case bucket_attempt (fst e) (snd e) b of (r, b') \<Rightarrow> (r = Acquired, b'))"

definition set_cooldown :: "seconds \<Rightarrow> Bucket \<Rightarrow> Bucket" where
  "set_cooldown until b = b\<lparr>bk_cooldown_until := until\<rparr>"

lemma attempt_step_events:
  assumes "bucket_ok b" "sorted (map fst (bk_events b @ [e]))"
  shows "bk_events (snd (attempt_step e b)) =
      filter (\<lambda>x. fst e - THROTTLE_WINDOW_SECONDS \<le> fst x) (bk_events b)
        @ (if fst (attempt_step e b) then [e] else [])"
  using bucket_attempt_events(1) [OF assms(1), of "fst e" "snd e"] assms(2)
  by (simp add: attempt_step_def case_prod_beta Bucket_trim_def Let_def trim_filter sorted_append)

lemma attempt_step_budget:
  assumes "bucket_ok b" "fst (attempt_step e b)"
  shows "length (bk_events (snd (attempt_step e b))) \<le> bk_rpm_limit b"
    and "sum_list (map snd (bk_events (snd (attempt_step e b)))) \<le> bk_tpm_limit b"
  using bucket_attempt_events [OF assms(1), of "fst e" "snd e"] assms(2)
  by (simp_all add: attempt_step_def case_prod_beta)

lemma attempt_step_keeps:
  "bucket_ok b \<Longrightarrow> bucket_ok (snd (attempt_step e b)) \<and>
     bk_rpm_limit (snd (attempt_step e b)) = bk_rpm_limit b \<and>
     bk_tpm_limit (snd (attempt_step e b)) = bk_tpm_limit b"
  by (simp add: attempt_step_def case_prod_beta bucket_attempt_ok bucket_attempt_config)

lemma set_cooldown_keeps:
  "bucket_ok b \<Longrightarrow> bucket_ok (set_cooldown u b) \<and> bk_rpm_limit (set_cooldown u b) = bk_rpm_limit b \<and>
     bk_tpm_limit (set_cooldown u b) = bk_tpm_limit b \<and> bk_events (set_cooldown u b) = bk_events b"
  by (simp add: set_cooldown_def bucket_ok_def)

interpretation rpm_window: sliding_window
  fst "\<lambda>_. 1" THROTTLE_WINDOW_SECONDS bk_rpm_limit bk_events bucket_ok attempt_step set_cooldown
proof (unfold_locales, goal_cases)
  case 1
  show ?case by (simp add: THROTTLE_WINDOW_SECONDS_def)
next
  case (2 b e)
  then show ?case by (rule attempt_step_events)
next
  case (3 b e)
  then show ?case using attempt_step_budget(1) by (simp add: sum_list_triv)
qed (simp_all add: attempt_step_keeps set_cooldown_keeps)

interpretation tpm_window: sliding_window
  fst snd THROTTLE_WINDOW_SECONDS bk_tpm_limit bk_events bucket_ok attempt_step set_cooldown
proof (unfold_locales, goal_cases)
  case 1
  show ?case by (simp add: THROTTLE_WINDOW_SECONDS_def)
next
  case (2 b e)
  then show ?case by (rule attempt_step_events)
next
  case (3 b e)
  then show ?case using attempt_step_budget(2) by simp
qed (simp_all add: attempt_step_keeps set_cooldown_keeps)

section \<open>Budgets\<close>

text \<open>
  What happens to one bucket: attempts of any number of callers, and 429 reports, which move the
  end of the cooldown. The run returns the admitted calls.
\<close>

datatype bucket_op = Attempt seconds nat | Report_429 seconds

fun run_bucket :: "bucket_op list \<Rightarrow> Bucket \<Rightarrow> (seconds \<times> nat) list \<times> Bucket" where
  "run_bucket [] b = ([], b)"
| "run_bucket (Attempt now est # ops) b =
     (let (r, b') = bucket_attempt now est b; (adm, b'') = run_bucket ops b'
      in (if r = Acquired then (now, est) # adm else adm, b''))"
| "run_bucket (Report_429 until # ops) b = run_bucket ops (set_cooldown until b)"

primrec op_event :: "bucket_op \<Rightarrow> (seconds \<times> nat) + seconds" where
  "op_event (Attempt now est) = Inl (now, est)"
| "op_event (Report_429 until) = Inr until"

definition attempt_times :: "bucket_op list \<Rightarrow> seconds list" where
  "attempt_times ops = List.map_filter
     (\<lambda>op. case op of Attempt now _ \<Rightarrow> Some now | Report_429 _ \<Rightarrow> None) ops"

lemma run_bucket_hist:
  "fold rpm_window.hist_step (map op_event ops) (hist, b)
     = (hist @ fst (run_bucket ops b), snd (run_bucket ops b))"
proof (induction ops arbitrary: hist b)
  case (Cons op ops)
  show ?case
  proof (cases op)
    case (Attempt now est)
    obtain r b' where r: "bucket_attempt now est b = (r, b')" by (cases "bucket_attempt now est b")
    then have "attempt_step (now, est) b = (r = Acquired, b')" by (simp add: attempt_step_def)
    with Cons.IH show ?thesis
      by (simp add: Attempt r rpm_window.hist_step_def case_prod_beta Let_def)
  next
    case (Report_429 until)
    with Cons.IH show ?thesis by (simp add: rpm_window.hist_step_def)
  qed
qed simp

lemma requests_times: "map fst (rpm_window.requests (map op_event ops)) = attempt_times ops"
proof (induction ops)
  case (Cons op ops)
  then show ?case
    by (cases op) (simp_all add: rpm_window.requests_def attempt_times_def List.map_filter_simps)
qed (simp add: rpm_window.requests_def attempt_times_def List.map_filter_simps)

text \<open>
  Property C6. The throttle keeps both provider budgets: whatever callers attempt, in whatever order
  the lock serialises them, and whenever 429s are reported, every interval of 60 seconds contains at
  most \<open>rpm\<close> admitted calls and at most \<open>tpm\<close> admitted tokens (limits below one count as one).
\<close>

theorem throttle_budgets:
  assumes "sorted (attempt_times ops)"
  shows "let adm = filter (\<lambda>e. t0 \<le> fst e \<and> fst e \<le> t0 + THROTTLE_WINDOW_SECONDS)
                     (fst (run_bucket ops (Bucket_init p rpm tpm))) in
    length adm \<le> nat (max 1 rpm) \<and> sum_list (map snd adm) \<le> nat (max 1 tpm)"
proof -
  let ?b = "Bucket_init p rpm tpm" and ?as = "map op_event ops"
  let ?t = "t0 + THROTTLE_WINDOW_SECONDS"
  have run: "fst (rpm_window.run ?as ?b) = fst (run_bucket ops ?b)"
    by (simp add: rpm_window.run_def run_bucket_hist)
  have srt: "sorted (map fst (rpm_window.requests ?as))" using assms by (simp add: requests_times)
  have init: "bucket_ok ?b" "bk_events ?b = []" "bk_rpm_limit ?b = nat (max 1 rpm)"
      "bk_tpm_limit ?b = nat (max 1 tpm)"
    using bucket_ok_init by (simp_all add: Bucket_init_def)
  show ?thesis
    using rpm_window.window_bound [OF init(1,2) srt, of ?t]
      tpm_window.window_bound [OF init(1,2), of ?as ?t] srt init(3,4)
    by (simp add: run sum_list_triv Let_def)
qed

theorem throttle_budgets_witness:
  "let ops = [Attempt 0 3, Attempt 1 3, Report_429 100, Attempt 2 1, Attempt 61 2];
       adm = filter (\<lambda>e. 1 \<le> fst e \<and> fst e \<le> 1 + THROTTLE_WINDOW_SECONDS)
               (fst (run_bucket ops (Bucket_init ''x'' 4 10))) in
   sorted (attempt_times ops) \<and> adm = [(1, 3), (61, 2)] \<and>
   length adm \<le> nat (max 1 4) \<and> sum_list (map snd adm) \<le> nat (max 1 10)"
proof -
  let ?ops = "[Attempt 0 3, Attempt 1 3, Report_429 100, Attempt 2 1, Attempt 61 2]"
  have s: "sorted (attempt_times ?ops)" by (simp add: attempt_times_def List.map_filter_simps)
  have "fst (run_bucket ?ops (Bucket_init ''x'' 4 10)) = [(0, 3), (1, 3), (61, 2)]"
    by (simp add: bucket_attempt_def Bucket_init_def Bucket_trim_def Bucket_used_def
        effective_limits_def py_int_def BACKOFF_FACTOR_def deque_append_def THROTTLE_WINDOW_SECONDS_def
        compute_wait_def set_cooldown_def Let_def)
  with throttle_budgets [OF s, of 1 "''x''" 4 10] s show ?thesis
    by (simp add: THROTTLE_WINDOW_SECONDS_def Let_def)
qed

section \<open>Progress\<close>

lemma tpm_scan_mem: "tpm_scan es running target = Some ts \<Longrightarrow> ts \<in> fst ` set es"
  by (induction es running target rule: tpm_scan.induct) (auto simp: Let_def split: if_splits)

lemma compute_wait_lower:
  assumes "bk_events b = (t0, k) # es" "sorted (map fst (bk_events b))" "t0 \<le> now"
    and "\<not> (length (bk_events b) + 1 \<le> rpm \<and> sum_list (map snd (bk_events b)) + est \<le> tpm)"
  shows "\<exists>w. compute_wait b now est rpm tpm = Some w \<and> t0 + THROTTLE_WINDOW_SECONDS - now \<le> w"
proof -
  have first: "t0 \<le> ts" if "ts \<in> fst ` set (bk_events b)" for ts
    using that assms(1,2) by auto
  show ?thesis
  proof (cases "length (bk_events b) + 1 > rpm")
    case True
    then show ?thesis by (simp add: compute_wait_def assms(1) Let_def max_def)
  next
    case False
    with assms(4) have over: "sum_list (map snd (bk_events b)) + est > tpm" by simp
    show ?thesis
    proof (cases "tpm_scan (bk_events b) (int (sum_list (map snd (bk_events b)))) (int tpm - int est)")
      case None
      with over assms(1,3) show ?thesis
        by (simp add: compute_wait_def Let_def max_def)
    next
      case (Some ts)
      with over assms(1) first [OF tpm_scan_mem [OF Some]] show ?thesis
        by (simp add: compute_wait_def Let_def max_def)
    qed
  qed
qed

text \<open>
  How many more iterations a waiting caller may need: two per event still in the window, one less
  when the oldest event sits exactly on the edge (the trim keeps an event of age 60, so a caller
  that wakes exactly then spins once more).
\<close>

definition wait_rounds :: "seconds \<Rightarrow> Bucket \<Rightarrow> nat" where
  "wait_rounds now b = (case bk_events (Bucket_trim now b) of
     [] \<Rightarrow> 0
   | (t0, k) # es \<Rightarrow> 2 * Suc (length es) - (if t0 + THROTTLE_WINDOW_SECONDS \<le> now then 1 else 0))"

lemma wait_rounds_le: "wait_rounds now b \<le> 2 * length (bk_events b)"
proof -
  have "length (bk_events (Bucket_trim now b)) \<le> length (bk_events b)"
    by (simp add: Bucket_trim_def Let_def length_dropWhile_le)
  then show ?thesis by (auto simp: wait_rounds_def split: list.split)
qed

lemma wait_rounds_decreases:
  assumes ev: "bk_events (Bucket_trim now b) = (t0, k) # es"
    and w: "t0 + THROTTLE_WINDOW_SECONDS - now \<le> w" and later: "now + max w (1 / 100) \<le> now'"
  shows "wait_rounds now' (Bucket_trim now b) < wait_rounds now b"
proof -
  let ?es' = "bk_events (Bucket_trim now' (Bucket_trim now b))"
  have now': "now < now'" "t0 + THROTTLE_WINDOW_SECONDS \<le> now'" using w later by auto
  have es': "?es' = dropWhile (\<lambda>e. fst e < now' - THROTTLE_WINDOW_SECONDS) ((t0, k) # es)"
    using ev by (simp add: Bucket_trim_def Let_def)
  show ?thesis
  proof (cases "t0 < now' - THROTTLE_WINDOW_SECONDS")
    case True
    then have "length ?es' \<le> length es" by (simp add: es' length_dropWhile_le)
    then have "wait_rounds now' (Bucket_trim now b) \<le> 2 * length es"
      by (auto simp: wait_rounds_def split: list.split)
    then show ?thesis by (simp add: wait_rounds_def ev)
  next
    case False
    then have "?es' = (t0, k) # es" by (simp add: es')
    with now' False show ?thesis by (simp add: wait_rounds_def ev)
  qed
qed

lemma blocked_attempt:
  assumes "bucket_ok b" "sorted (map fst (bk_events b))" "\<forall>e \<in> set (bk_events b). fst e \<le> now"
    and "est \<le> snd (effective_limits now b)" and "fst (bucket_attempt now est b) \<noteq> Acquired"
  shows "\<exists>w t0 k es. bucket_attempt now est b = (Sleep w, Bucket_trim now b) \<and>
     bk_events (Bucket_trim now b) = (t0, k) # es \<and> t0 + THROTTLE_WINDOW_SECONDS - now \<le> w"
proof -
  let ?b = "Bucket_trim now b"
  let ?rpm = "fst (effective_limits now b)" and ?tpm = "snd (effective_limits now b)"
  have no: "\<not> (length (bk_events ?b) + 1 \<le> ?rpm \<and> sum_list (map snd (bk_events ?b)) + est \<le> ?tpm)"
    using assms(5) by (auto simp: bucket_attempt_def Bucket_used_def Let_def case_prod_beta)
  then have "bk_events ?b \<noteq> []" using assms(4) effective_limits_le [OF assms(1), of now] by auto
  then obtain t0 k es where ev: "bk_events ?b = (t0, k) # es" by (metis neq_Nil_conv surj_pair)
  have sub: "bk_events ?b = filter (\<lambda>e. now - THROTTLE_WINDOW_SECONDS \<le> fst e) (bk_events b)"
    using assms(2) by (simp add: Bucket_trim_def Let_def trim_filter)
  have srt: "sorted (map fst (bk_events ?b))" using assms(2) sub by (simp add: sorted_filter)
  have "(t0, k) \<in> set (bk_events ?b)" by (simp add: ev)
  then have "(t0, k) \<in> set (bk_events b)" unfolding sub by simp
  then have "t0 \<le> now" using assms(3) by auto
  from compute_wait_lower [OF ev srt this no] obtain w
    where w: "compute_wait ?b now est ?rpm ?tpm = Some w" "t0 + THROTTLE_WINDOW_SECONDS - now \<le> w" by blast
  then have "bucket_attempt now est b = (Sleep w, ?b)"
    using no by (simp add: bucket_attempt_def Bucket_used_def Let_def case_prod_beta)
  with ev w(2) show ?thesis by blast
qed

lemma acquire_loop_acquires:
  assumes "bucket_ok b" "sorted (map fst (bk_events b))" "\<forall>e \<in> set (bk_events b). fst e \<le> now"
    and "est \<le> snd (effective_limits now b)" "paced est (now # nows) b"
    and "wait_rounds now b \<le> length nows"
  shows "fst (acquire_loop est (now # nows) b) = Some Acquired"
  using assms
proof (induction nows arbitrary: now b)
  case Nil
  show ?case
  proof (cases "fst (bucket_attempt now est b) = Acquired")
    case True
    then show ?thesis by (cases "bucket_attempt now est b") simp
  next
    case False
    from blocked_attempt [OF Nil.prems(1-4) this] Nil.prems(6) show ?thesis
      by (auto simp: wait_rounds_def split: if_splits)
  qed
next
  case (Cons now' nows)
  show ?case
  proof (cases "fst (bucket_attempt now est b) = Acquired")
    case True
    then show ?thesis by (cases "bucket_attempt now est b") simp
  next
    case False
    let ?b = "Bucket_trim now b"
    from blocked_attempt [OF Cons.prems(1-4) False] obtain w t0 k es where
      at: "bucket_attempt now est b = (Sleep w, ?b)" and ev: "bk_events ?b = (t0, k) # es"
      and w: "t0 + THROTTLE_WINDOW_SECONDS - now \<le> w" by blast
    from Cons.prems(5) at have pace: "now + max w (1 / 100) \<le> now'" "paced est (now' # nows) ?b" by auto
    have later: "now \<le> now'" using pace(1) by auto
    have ok: "bucket_ok ?b" using Cons.prems(1) by (simp add: bucket_ok_def Bucket_trim_def Let_def)
    have sub: "bk_events ?b = filter (\<lambda>e. now - THROTTLE_WINDOW_SECONDS \<le> fst e) (bk_events b)"
      using Cons.prems(2) by (simp add: Bucket_trim_def Let_def trim_filter)
    have "sorted (map fst (bk_events ?b))" using Cons.prems(2) sub by (simp add: sorted_filter)
    moreover have "\<forall>e \<in> set (bk_events ?b). fst e \<le> now'" using Cons.prems(3) sub later by auto
    moreover have "est \<le> snd (effective_limits now' ?b)"
      using Cons.prems(4) effective_limits_mono [OF Cons.prems(1) later] by simp
    moreover have "wait_rounds now' ?b \<le> length nows"
      using wait_rounds_decreases [OF ev w pace(1)] Cons.prems(6) by simp
    ultimately have "fst (acquire_loop est (now' # nows) ?b) = Some Acquired"
      using Cons.IH ok pace(2) by blast
    then show ?thesis by (simp add: at)
  qed
qed

text \<open>
  Property C7. A caller never waits forever: a request that fits the token budget in force, on a
  bucket nobody else uses, is admitted after at most \<open>2 n + 1\<close> iterations of the acquire loop, where
  \<open>n\<close> is the number of events the bucket holds, provided each sleep lasts at least as long as the
  loop asks for. The loop neither raises nor spins.
\<close>

theorem acquire_terminates:
  assumes "bucket_ok b" "sorted (map fst (bk_events b))" "\<forall>e \<in> set (bk_events b). fst e \<le> now"
    and "est \<le> snd (effective_limits now b)" "paced est (now # nows) b"
    and "2 * length (bk_events b) \<le> length nows"
  shows "fst (acquire_loop est (now # nows) b) = Some Acquired"
proof -
  have "wait_rounds now b \<le> length nows" using wait_rounds_le assms(6) by (rule order_trans)
  with assms(1-5) show ?thesis by (rule acquire_loop_acquires)
qed

definition full_bucket :: Bucket where
  "full_bucket = (Bucket_init ''x'' 1 10)\<lparr>bk_events := [(0, 4)]\<rparr>"

theorem acquire_terminates_witness:
  "fst (acquire_loop 5 [10, 60, 601 / 10] full_bucket) = Some Acquired \<and>
   fst (bucket_attempt 10 5 full_bucket) = Sleep 50"
proof -
  note defs = full_bucket_def Bucket_init_def bucket_attempt_def Bucket_trim_def Bucket_used_def
    effective_limits_def compute_wait_def THROTTLE_WINDOW_SECONDS_def Let_def
  have "paced 5 [10, 60, 601 / 10] full_bucket" by (simp add: defs deque_append_def)
  moreover have "bucket_ok full_bucket" by (simp add: bucket_ok_def full_bucket_def Bucket_init_def)
  moreover have "sorted (map fst (bk_events full_bucket))"
    "\<forall>e \<in> set (bk_events full_bucket). fst e \<le> 10" "5 \<le> snd (effective_limits 10 full_bucket)"
    "2 * length (bk_events full_bucket) \<le> length [60, 601 / 10 :: rat]"
    by (simp_all add: full_bucket_def Bucket_init_def effective_limits_def)
  ultimately have "fst (acquire_loop 5 [10, 60, 601 / 10] full_bucket) = Some Acquired"
    by (intro acquire_terminates)
  then show ?thesis by (simp add: defs)
qed

section \<open>Errors and divergences\<close>

text \<open>
  During a cooldown an idle bucket raises ValueError for every request between half the
  token budget and the whole of it, although the very same request is admitted as soon as the
  cooldown ends: \<^verbatim>\<open>acquire\<close> does not block until the bucket has capacity, as its docstring says, but
  tells the caller to split a request that fits the configured budget.
\<close>

theorem cooldown_rejects_fitting_request:
  assumes "bucket_ok b" "bk_events (Bucket_trim now b) = []" "now < bk_cooldown_until b"
    and "max 1 (bk_tpm_limit b div 2) < est" "est \<le> bk_tpm_limit b"
    and "bk_cooldown_until b \<le> now'" "now \<le> now'"
  shows "fst (bucket_attempt now est b) = ValueError \<and>
    fst (bucket_attempt now' est (snd (bucket_attempt now est b))) = Acquired"
proof -
  let ?b = "Bucket_trim now b"
  have at: "bucket_attempt now est b = (ValueError, ?b)"
    using assms(2-4)
    by (simp add: bucket_attempt_def Bucket_used_def compute_wait_def Let_def case_prod_beta)
      (simp add: effective_limits_def backoff_half)
  have "bk_events (Bucket_trim now' ?b) = []"
    using assms(2) unfolding Bucket_trim_def [of now' ?b] Let_def by simp
  moreover have "effective_limits now' b = (bk_rpm_limit b, bk_tpm_limit b)"
    using assms(6) by (simp add: effective_limits_def)
  ultimately have "fst (bucket_attempt now' est ?b) = Acquired"
    using assms(1,5) by (simp add: bucket_attempt_def Bucket_used_def Let_def bucket_ok_def)
  with at show ?thesis by simp
qed

theorem cooldown_rejects_fitting_request_witness:
  "let b = (Bucket_init ''gemini'' 60 500000)\<lparr>bk_cooldown_until := 60\<rparr> in
   fst (bucket_attempt 10 300000 b) = ValueError \<and>
   fst (bucket_attempt 60 300000 (snd (bucket_attempt 10 300000 b))) = Acquired"
  using cooldown_rejects_fitting_request
    [of "(Bucket_init ''gemini'' 60 500000)\<lparr>bk_cooldown_until := 60\<rparr>" 10 300000 60]
  by (simp add: bucket_ok_def Bucket_init_def Bucket_trim_def Let_def)

text \<open>
  A bucket of an endpoint never gets its provider's default limits: the key carries the
  endpoint id after a colon, the table of defaults has no such key, so without an override every
  endpoint, of every provider, gets the fallback limits of 60 calls and a million tokens.
\<close>

theorem endpoint_limits_are_fallback:
  assumes "endpoint_id \<noteq> []" "\<forall>v. env v = None"
  shows "resolve_limits env (make_bucket_key provider (Some endpoint_id)) = FALLBACK_DEFAULT"
proof -
  have "CHR '':'' \<in> set (make_bucket_key provider (Some endpoint_id))"
    using assms(1) by (simp add: make_bucket_key_def Let_def)
  then have "map_of THROTTLE_DEFAULTS (make_bucket_key provider (Some endpoint_id)) = None"
    by (auto simp: THROTTLE_DEFAULTS_def)
  then show ?thesis using assms(2) by (simp add: resolve_limits_def coerce_int_def Let_def FALLBACK_DEFAULT_def)
qed

theorem endpoint_limits_are_fallback_witness:
  "resolve_limits (\<lambda>_. None) (make_bucket_key ''ollama'' None) = (10000, 10000000) \<and>
   resolve_limits (\<lambda>_. None) (make_bucket_key ''ollama'' (Some ''ep1'')) = FALLBACK_DEFAULT"
proof
  have "make_bucket_key ''ollama'' None = ''ollama''" by code_simp
  then show "resolve_limits (\<lambda>_. None) (make_bucket_key ''ollama'' None) = (10000, 10000000)"
    by (simp add: resolve_limits_def THROTTLE_DEFAULTS_def coerce_int_def Let_def)
  show "resolve_limits (\<lambda>_. None) (make_bucket_key ''ollama'' (Some ''ep1'')) = FALLBACK_DEFAULT"
    by (rule endpoint_limits_are_fallback) simp_all
qed

section \<open>Independent buckets\<close>

interpretation bucket_registry: keyed_registry
  "\<lambda>th. map_of (th_buckets th)"
  "\<lambda>k th. snd (get_or_create_bucket env k th)"
  "\<lambda>k b th. th\<lparr>th_buckets := AList.update k b (th_buckets th)\<rparr>"
  "fresh_bucket env"
  for env
  by unfold_locales (simp_all add: get_or_create_bucket_def Let_def split: option.split)

text \<open>
  A 429 reported for one bucket key changes neither the limits nor the cooldown nor the
  window of any other bucket, and puts exactly its own bucket into cooldown until
  \<open>now + cooldown_seconds\<close>; a second report moves that end, it does not add to it.
\<close>

theorem report_429_local:
  assumes "key = make_bucket_key provider endpoint_id"
  shows "(k \<noteq> key \<longrightarrow> map_of (th_buckets (report_429 env provider endpoint_id now th)) k
            = map_of (th_buckets th) k) \<and>
    map_of (th_buckets (report_429 env provider endpoint_id now th)) key =
      Some ((fst (get_or_create_bucket env key th))\<lparr>bk_cooldown_until := now + th_cooldown_seconds th\<rparr>)"
  using bucket_registry.ensure_other [of key k env th] assms
  by (auto simp: report_429_def get_or_create_bucket_def Let_def split: option.splits)

theorem report_429_local_witness:
  "let th = LLMThrottle_init 60 in
   make_bucket_key ''gemini'' None = ''gemini'' \<and>
   map_of (th_buckets (report_429 (\<lambda>_. None) ''gemini'' None 5 th)) ''openai'' = None"
proof -
  have k: "''gemini'' = make_bucket_key ''gemini'' None" by code_simp
  show ?thesis
    using report_429_local [OF k, of "''openai''" "\<lambda>_. None" 5 "LLMThrottle_init 60"] k
    by (simp add: LLMThrottle_init_def Let_def)
qed

end
