(* ===== verification/Adaptive_Batcher.thy ===== *)
theory Adaptive_Batcher
  imports Py_Strings "HOL-Library.Multiset"
begin

text \<open>
  The token-aware batcher of \<^verbatim>\<open>services/adaptive_batcher.py\<close>: the token estimates, the timestamp
  and thread-reply tests, and the split of a channel's messages into batches.

  A message is a dictionary with optional keys; the record below has the keys the batcher reads.
  \<open>float_of\<close> and \<open>iso_of\<close> stand for \<^verbatim>\<open>float(...)\<close> and \<^verbatim>\<open>datetime.fromisoformat(...).timestamp()\<close> on
  strings (\<^const>\<open>None\<close> when they raise); every theorem holds for all choices of them.
\<close>

section \<open>Messages\<close>

text \<open>What a timestamp or identifier key may hold.\<close>

datatype py_value = VNone | VNum rat | VStr string | VDatetime rat

definition py_truthy :: "py_value \<Rightarrow> bool" where
  "py_truthy v = (case v of VNone \<Rightarrow> False | VNum n \<Rightarrow> n \<noteq> 0 | VStr s \<Rightarrow> s \<noteq> [] | VDatetime _ \<Rightarrow> True)"

definition py_or :: "py_value \<Rightarrow> py_value \<Rightarrow> py_value" where
  "py_or a b = (if py_truthy a then a else b)"

record message =
  msg_text :: "string option"
  msg_content :: "string option"
  msg_thread_context :: "string option"
  msg_source_link_titles :: "string option list"
  msg_source_link_descriptions :: "string option list"
  msg_raw_links :: "(string option \<times> string option) list"
  msg_ts :: py_value
  msg_timestamp :: py_value
  msg_thread_ts :: py_value
  msg_thread_id :: py_value
  msg_message_id :: py_value

definition or_empty :: "string option \<Rightarrow> string" where
  "or_empty s = (case s of None \<Rightarrow> [] | Some t \<Rightarrow> t)"

definition AVG_TOKENS_PER_FACT :: int where
  "AVG_TOKENS_PER_FACT = 180"

definition AVG_TOKENS_PER_ENTITY :: int where
  "AVG_TOKENS_PER_ENTITY = 144"

definition EXPECTED_ENTITIES_PER_MESSAGE :: int where
  "EXPECTED_ENTITIES_PER_MESSAGE = 1"

definition estimate_message_output_tokens :: "message \<Rightarrow> int \<Rightarrow> int" where
  "estimate_message_output_tokens msg max_facts_per_message =
     (let fact_tokens = max_facts_per_message * AVG_TOKENS_PER_FACT;
          entity_tokens = EXPECTED_ENTITIES_PER_MESSAGE * AVG_TOKENS_PER_ENTITY
      in fact_tokens + entity_tokens + 20)"

definition estimate_message_tokens :: "message \<Rightarrow> int" where
  "estimate_message_tokens msg =
     (let text = or_empty (msg_text msg);
          body = (if text = [] then or_empty (msg_content msg) else text);
          total_chars = length body + length (or_empty (msg_thread_context msg))
            + sum_list (map (length \<circ> or_empty) (msg_source_link_titles msg))
            + sum_list (map (length \<circ> or_empty) (msg_source_link_descriptions msg))
            + sum_list (map (\<lambda>(t, d). length (or_empty t) + length (or_empty d)) (msg_raw_links msg))
      in max (int total_chars div 3) 50)"

definition get_message_timestamp ::
    "(string \<Rightarrow> rat option) \<Rightarrow> (string \<Rightarrow> rat option) \<Rightarrow> message \<Rightarrow> rat" where
  "get_message_timestamp float_of iso_of msg =
     (case py_or (msg_ts msg) (msg_timestamp msg) of
        VNum n \<Rightarrow> n
      | VStr s \<Rightarrow>
          if s = [] then 0
          else (case float_of (takeWhile (\<lambda>c. c \<noteq> CHR ''.'') s) of
                  Some t \<Rightarrow> t
                | None \<Rightarrow> (case iso_of s of Some t \<Rightarrow> t | None \<Rightarrow> 0))
      | VDatetime t \<Rightarrow> t
      | VNone \<Rightarrow> 0)"

definition is_thread_reply :: "message \<Rightarrow> bool" where
  "is_thread_reply msg =
     (let thread_id = py_or (msg_thread_ts msg) (msg_thread_id msg);
          msg_id = py_or (msg_ts msg) (msg_message_id msg)
      in py_truthy thread_id \<and> thread_id \<noteq> msg_id)"

section \<open>Batches\<close>

text \<open>The loop that builds thread groups; the accumulator is \<^verbatim>\<open>current_group\<close>.\<close>

fun thread_groups :: "message list \<Rightarrow> message list \<Rightarrow> message list list" where
  "thread_groups current_group [] = (if current_group = [] then [] else [current_group])"
| "thread_groups current_group (msg # msgs) =
     (if is_thread_reply msg then thread_groups (current_group @ [msg]) msgs
      else if current_group = [] then thread_groups [msg] msgs
      else current_group # thread_groups [msg] msgs)"

record batch_limits =
  max_tokens :: int
  max_output_tokens :: "int option"
  max_facts_per_message :: int
  max_messages :: "nat option"

definition group_input :: "message list \<Rightarrow> int" where
  "group_input g = sum_list (map estimate_message_tokens g)"

definition group_output :: "batch_limits \<Rightarrow> message list \<Rightarrow> int" where
  "group_output L g =
     (case max_output_tokens L of
        None \<Rightarrow> 0
      | Some _ \<Rightarrow> sum_list (map (\<lambda>m. estimate_message_output_tokens m (max_facts_per_message L)) g))"

definition oversized :: "batch_limits \<Rightarrow> message list \<Rightarrow> bool" where
  "oversized L g \<longleftrightarrow> group_input g \<ge> max_tokens L \<or>
     (case max_output_tokens L of None \<Rightarrow> False | Some m \<Rightarrow> group_output L g \<ge> m)"

text \<open>The accumulation loop: \<^verbatim>\<open>current_batch\<close>, \<^verbatim>\<open>current_tokens\<close>, \<^verbatim>\<open>current_output_tokens\<close>.\<close>

fun pack_groups :: "batch_limits \<Rightarrow> message list \<Rightarrow> int \<Rightarrow> int \<Rightarrow> message list list \<Rightarrow> message list list" where
  "pack_groups L current_batch current_tokens current_output [] =
     (if current_batch = [] then [] else [current_batch])"
| "pack_groups L current_batch current_tokens current_output (grp # groups) =
     (if oversized L grp
      then (if current_batch = [] then [] else [current_batch]) @ grp # pack_groups L [] 0 0 groups
      else
        let capped = (case max_messages L of
                        None \<Rightarrow> False
                      | Some m \<Rightarrow> length current_batch + length grp > m \<and> current_batch \<noteq> []);
            (out1, batch1, tokens1, output1) =
              (if capped then ([current_batch], [], 0, 0)
               else ([], current_batch, current_tokens, current_output));
            overflow = (tokens1 + group_input grp > max_tokens L \<or>
                        (case max_output_tokens L of
                           None \<Rightarrow> False | Some m \<Rightarrow> output1 + group_output L grp > m)) \<and> batch1 \<noteq> [];
            (out2, batch2, tokens2, output2) =
              (if overflow then ([batch1], [], 0, 0) else ([], batch1, tokens1, output1))
        in out1 @ out2 @ pack_groups L (batch2 @ grp) (tokens2 + group_input grp)
             (output2 + group_output L grp) groups)"

definition token_aware_batches ::
    "(string \<Rightarrow> rat option) \<Rightarrow> (string \<Rightarrow> rat option) \<Rightarrow> batch_limits \<Rightarrow> message list \<Rightarrow> message list list" where
  "token_aware_batches float_of iso_of L messages =
     (if messages = [] then []
      else pack_groups L [] 0 0
             (thread_groups [] (sort_key (get_message_timestamp float_of iso_of) messages)))"

section \<open>Lemmas\<close>

lemma concat_thread_groups: "concat (thread_groups cur msgs) = cur @ msgs"
  by (induction cur msgs rule: thread_groups.induct) auto

lemma thread_groups_nonempty: "g \<in> set (thread_groups cur msgs) \<Longrightarrow> g \<noteq> []"
  by (induction cur msgs rule: thread_groups.induct) (auto split: if_splits)

lemma estimate_tokens_pos: "50 \<le> estimate_message_tokens m"
  by (simp add: estimate_message_tokens_def Let_def)

text \<open>
  A batch made of the groups \<open>gs\<close> is within the limits when it holds one group only, or when
  prompt tokens, projected output and message count all stay within their budgets. A single
  group under the size check is below both token budgets anyway.
\<close>

definition within_limits :: "batch_limits \<Rightarrow> message list list \<Rightarrow> bool" where
  "within_limits L gs \<longleftrightarrow>
     (\<exists>g. gs = [g] \<and> oversized L g) \<or>
     (group_input (concat gs) \<le> max_tokens L \<and>
      (case max_output_tokens L of None \<Rightarrow> True | Some m \<Rightarrow> group_output L (concat gs) \<le> m) \<and>
      (case max_messages L of None \<Rightarrow> True | Some m \<Rightarrow> length (concat gs) \<le> m \<or> (\<exists>g. gs = [g])))"

lemma group_input_append [simp]: "group_input (xs @ ys) = group_input xs + group_input ys"
  by (simp add: group_input_def)

lemma group_output_append [simp]: "group_output L (xs @ ys) = group_output L xs + group_output L ys"
  by (simp add: group_output_def split: option.split)

lemma group_empty [simp]: "group_input [] = 0" "group_output L [] = 0"
  by (simp_all add: group_input_def group_output_def split: option.split)

lemma within_single: "\<not> oversized L g \<Longrightarrow> within_limits L [g]"
  by (auto simp: within_limits_def oversized_def split: option.splits)

text \<open>The two ways the loop treats a group that is not oversized.\<close>

definition must_close :: "batch_limits \<Rightarrow> message list \<Rightarrow> message list \<Rightarrow> bool" where
  "must_close L batch g \<longleftrightarrow> batch \<noteq> [] \<and>
     ((case max_messages L of None \<Rightarrow> False | Some m \<Rightarrow> length batch + length g > m) \<or>
      group_input batch + group_input g > max_tokens L \<or>
      (case max_output_tokens L of None \<Rightarrow> False | Some m \<Rightarrow> group_output L batch + group_output L g > m))"

abbreviation pack_from :: "batch_limits \<Rightarrow> message list \<Rightarrow> message list list \<Rightarrow> message list list" where
  "pack_from L batch groups \<equiv> pack_groups L batch (group_input batch) (group_output L batch) groups"

lemma pack_close:
  "\<not> oversized L g \<Longrightarrow> must_close L batch g \<Longrightarrow>
     pack_from L batch (g # groups) = batch # pack_from L g groups"
  by (auto simp: must_close_def Let_def split: option.splits)

lemma pack_keep:
  "\<not> oversized L g \<Longrightarrow> \<not> must_close L batch g \<Longrightarrow>
     pack_from L batch (g # groups) = pack_from L (batch @ g) groups"
  by (auto simp: must_close_def Let_def split: option.splits)

lemma within_limits_snoc:
  "\<not> oversized L g \<Longrightarrow> \<not> must_close L (concat gs) g \<Longrightarrow> concat gs = [] \<longleftrightarrow> gs = [] \<Longrightarrow>
     within_limits L (gs @ [g])"
  using within_single [of L g]
  by (cases "gs = []") (auto simp: within_limits_def must_close_def split: option.splits)

definition partitioned :: "batch_limits \<Rightarrow> message list list \<Rightarrow> message list list \<Rightarrow> bool" where
  "partitioned L batches groups \<longleftrightarrow> (\<exists>gss. batches = map concat gss \<and> concat gss = groups \<and>
     (\<forall>gs \<in> set gss. gs \<noteq> [] \<and> within_limits L gs))"

lemma partitioned_Cons:
  assumes "gs \<noteq> []" "within_limits L gs" "partitioned L batches groups"
  shows "partitioned L (concat gs # batches) (gs @ groups)"
proof -
  from assms(3) obtain gss where "batches = map concat gss" "concat gss = groups"
      "\<forall>gs \<in> set gss. gs \<noteq> [] \<and> within_limits L gs"
    unfolding partitioned_def by blast
  then show ?thesis using assms(1,2) unfolding partitioned_def
    by (intro exI [of _ "gs # gss"]) simp
qed

lemma pack_groups_partition:
  assumes "\<forall>g \<in> set (gs @ groups). g \<noteq> []" "gs \<noteq> [] \<Longrightarrow> within_limits L gs"
  shows "partitioned L (pack_from L (concat gs) groups) (gs @ groups)"
  using assms
proof (induction groups arbitrary: gs)
  case Nil
  have ne: "concat gs = [] \<longleftrightarrow> gs = []" using Nil.prems(1) by (cases gs) auto
  have nil: "partitioned L [] []" by (simp add: partitioned_def)
  show ?case
    using Nil.prems(2) partitioned_Cons [OF _ _ nil] nil ne by (cases "gs = []") auto
next
  case (Cons g groups)
  have ne: "concat gs = [] \<longleftrightarrow> gs = []" using Cons.prems(1) by (cases gs) auto
  consider (big) "oversized L g"
    | (close) "\<not> oversized L g" "must_close L (concat gs) g"
    | (keep) "\<not> oversized L g" "\<not> must_close L (concat gs) g" by blast
  then show ?case
  proof cases
    case big
    have "partitioned L (pack_from L (concat []) groups) ([] @ groups)"
      using Cons.prems(1) by (intro Cons.IH) auto
    then have "partitioned L (concat [g] # pack_groups L [] 0 0 groups) ([g] @ groups)"
      using big by (intro partitioned_Cons) (auto simp: within_limits_def)
    then show ?thesis using big ne Cons.prems(2) partitioned_Cons [of gs L] by (cases "gs = []") auto
  next
    case close
    have "partitioned L (pack_from L (concat [g]) groups) ([g] @ groups)"
      using Cons.prems(1) within_single [OF close(1)] by (intro Cons.IH) auto
    moreover have "gs \<noteq> []" using close(2) by (auto simp: must_close_def)
    ultimately show ?thesis
      using Cons.prems(2) partitioned_Cons [of gs L] by (simp only: pack_close [OF close]) auto
  next
    case keep
    have "partitioned L (pack_from L (concat (gs @ [g])) groups) ((gs @ [g]) @ groups)"
      using Cons.prems(1) within_limits_snoc [OF keep ne] by (intro Cons.IH) auto
    then show ?thesis by (simp only: pack_keep [OF keep]) simp
  qed
qed

lemma batches_partition:
  "partitioned L (token_aware_batches f i L ms)
     (thread_groups [] (sort_key (get_message_timestamp f i) ms))"
proof (cases "ms = []")
  case True
  then show ?thesis by (simp add: token_aware_batches_def partitioned_def)
next
  case False
  let ?G = "thread_groups [] (sort_key (get_message_timestamp f i) ms)"
  have "\<forall>g \<in> set ([] @ ?G). g \<noteq> []" using thread_groups_nonempty by auto
  from pack_groups_partition [OF this, of L] show ?thesis
    using False by (simp add: token_aware_batches_def)
qed

lemma token_batches_concat:
  "concat (token_aware_batches float_of iso_of L ms) = sort_key (get_message_timestamp float_of iso_of) ms"
proof -
  let ?G = "thread_groups [] (sort_key (get_message_timestamp float_of iso_of) ms)"
  obtain gss where gss: "token_aware_batches float_of iso_of L ms = map concat gss" "concat gss = ?G"
    using batches_partition [of L float_of iso_of ms] unfolding partitioned_def by blast
  have "concat (map concat gss) = concat ?G" by (simp flip: gss(2) add: concat_map_concat)
  then show ?thesis by (simp add: gss(1) concat_thread_groups)
qed

lemma token_batches_mset: "mset (concat (token_aware_batches float_of iso_of L ms)) = mset ms"
  by (simp add: token_batches_concat)

section \<open>Properties\<close>

text \<open>
  Property C9. No message is lost, duplicated or reordered: the batches one after another are the
  messages sorted by timestamp (stably), so every message is in exactly one batch, and no batch is
  empty.
\<close>

theorem batches_complete:
  "concat (token_aware_batches float_of iso_of L ms) = sort_key (get_message_timestamp float_of iso_of) ms \<and>
   mset (concat (token_aware_batches float_of iso_of L ms)) = mset ms \<and>
   [] \<notin> set (token_aware_batches float_of iso_of L ms)"
proof -
  let ?G = "thread_groups [] (sort_key (get_message_timestamp float_of iso_of) ms)"
  obtain gss where gss: "token_aware_batches float_of iso_of L ms = map concat gss" "concat gss = ?G"
      "\<forall>gs \<in> set gss. gs \<noteq> [] \<and> within_limits L gs"
    using batches_partition [of L float_of iso_of ms] unfolding partitioned_def by blast
  have "concat gs \<noteq> []" if "gs \<in> set gss" for gs
  proof -
    have "set gs \<subseteq> set ?G" using that by (auto simp flip: gss(2))
    moreover have "gs \<noteq> []" using gss(3) that by blast
    ultimately show ?thesis using thread_groups_nonempty by (cases gs) fastforce+
  qed
  then have "[] \<notin> set (token_aware_batches float_of iso_of L ms)" by (fastforce simp: gss(1))
  with token_batches_concat token_batches_mset show ?thesis by blast
qed

text \<open>
  Property C10. Every batch is a run of whole consecutive groups and respects the budgets: unless it
  is a single group that is oversized on its own, its estimated prompt tokens and projected output
  are within the limits, and it exceeds the message cap only if it is a single group.
\<close>

theorem batches_within_limits:
  "\<exists>gss. token_aware_batches float_of iso_of L ms = map concat gss \<and>
     concat gss = thread_groups [] (sort_key (get_message_timestamp float_of iso_of) ms) \<and>
     (\<forall>gs \<in> set gss. gs \<noteq> [] \<and>
        ((\<exists>g. gs = [g] \<and> oversized L g) \<or>
         (group_input (concat gs) \<le> max_tokens L \<and>
          (case max_output_tokens L of None \<Rightarrow> True | Some m \<Rightarrow> group_output L (concat gs) \<le> m) \<and>
          (case max_messages L of None \<Rightarrow> True | Some m \<Rightarrow> length (concat gs) \<le> m \<or> (\<exists>g. gs = [g])))))"
  using batches_partition [of L float_of iso_of ms]
  unfolding partitioned_def within_limits_def by blast

definition plain_message :: "rat \<Rightarrow> rat \<Rightarrow> message" where
  "plain_message ts thread =
     \<lparr>msg_text = Some ''hello'', msg_content = None, msg_thread_context = None,
      msg_source_link_titles = [], msg_source_link_descriptions = [], msg_raw_links = [],
      msg_ts = VNum ts, msg_timestamp = VNone,
      msg_thread_ts = (if thread = 0 then VNone else VNum thread), msg_thread_id = VNone,
      msg_message_id = VNone\<rparr>"

theorem batches_within_limits_witness:
  "let L = \<lparr>max_tokens = 120, max_output_tokens = None, max_facts_per_message = 2, max_messages = Some 2\<rparr>;
       ms = [plain_message 1 0, plain_message 2 0, plain_message 3 0] in
   token_aware_batches (\<lambda>_. None) (\<lambda>_. None) L ms
     = [[plain_message 1 0, plain_message 2 0], [plain_message 3 0]] \<and>
   (\<exists>gss. token_aware_batches (\<lambda>_. None) (\<lambda>_. None) L ms = map concat gss)"
proof -
  let ?L = "\<lparr>max_tokens = 120, max_output_tokens = None, max_facts_per_message = 2, max_messages = Some 2\<rparr>"
  let ?ms = "[plain_message 1 0, plain_message 2 0, plain_message 3 0]"
  have "token_aware_batches (\<lambda>_. None) (\<lambda>_. None) ?L ?ms
     = [[plain_message 1 0, plain_message 2 0], [plain_message 3 0]]"
    by (simp add: token_aware_batches_def plain_message_def get_message_timestamp_def py_or_def
        py_truthy_def is_thread_reply_def oversized_def group_input_def group_output_def
        estimate_message_tokens_def or_empty_def Let_def)
  moreover have "\<exists>gss. token_aware_batches (\<lambda>_. None) (\<lambda>_. None) ?L ?ms = map concat gss"
    using batches_within_limits [of "\<lambda>_. None" "\<lambda>_. None" ?L ?ms] by blast
  ultimately show ?thesis by (simp only: Let_def simp_thms)
qed

text \<open>
  Threads that overlap in time are split: the grouping loop appends a reply to the group
  of whatever top-level message precedes it in time, not to its own parent. With two threads
  started at 1 and 2 and a reply to the first at 3, under a budget that fits two messages, the
  reply is batched with the second thread and its parent is alone, although the docstring promises
  that a parent and its replies are kept together.
\<close>

theorem overlapping_threads_are_split:
  "let L = \<lparr>max_tokens = 120, max_output_tokens = None, max_facts_per_message = 2, max_messages = None\<rparr>;
       parent1 = plain_message 1 0; parent2 = plain_message 2 0; reply1 = plain_message 3 1 in
   is_thread_reply reply1 \<and> msg_thread_ts reply1 = msg_ts parent1 \<and>
   token_aware_batches (\<lambda>_. None) (\<lambda>_. None) L [parent1, parent2, reply1]
     = [[parent1], [parent2, reply1]]"
  by (simp add: token_aware_batches_def plain_message_def get_message_timestamp_def py_or_def
        py_truthy_def is_thread_reply_def oversized_def group_input_def group_output_def
        estimate_message_tokens_def or_empty_def Let_def)

end
