(* ===== verification/Py_Json.thy ===== *)
theory Py_Json
  imports Py_Strings "HOL-Library.List_Lexorder"
begin

text \<open>
  Python's \<^verbatim>\<open>json.loads\<close> and \<^verbatim>\<open>json.dumps\<close> on the values and texts the modelled modules exchange with
  language models and stores. \<^verbatim>\<open>json.loads\<close> is the strict decoder: RFC 8259 plus \<^verbatim>\<open>NaN\<close>, \<^verbatim>\<open>Infinity\<close>
  and \<^verbatim>\<open>-Infinity\<close>, no control characters in strings, the last of two equal keys wins; \<^const>\<open>None\<close> is
  \<^verbatim>\<open>JSONDecodeError\<close>. A float is kept as its literal text. Strings hold code points below 256, so a
  text with a \<^verbatim>\<open>\u\<close> escape above \<^verbatim>\<open>00ff\<close> denotes a value outside the model and is read as
  \<^const>\<open>None\<close>. The recursion limit and the limit on the digits of an int are not modelled.
\<close>

datatype json =
    JNull | JBool bool | JInt int | JFloat string | JStr string
  | JList "json list" | JObj "(string \<times> json) list"

abbreviation dquote :: char where
  "dquote \<equiv> CHR 0x22"

abbreviation bslash :: char where
  "bslash \<equiv> CHR 0x5C"

section \<open>Decoding\<close>

definition json_space :: "char \<Rightarrow> bool" where
  "json_space c \<longleftrightarrow> c = CHR '' '' \<or> c = CHR 0x09 \<or> c = CHR 0x0A \<or> c = CHR 0x0D"

abbreviation json_ws :: "string \<Rightarrow> string" where
  "json_ws s \<equiv> dropWhile json_space s"

definition hex_value :: "char \<Rightarrow> nat option" where
  "hex_value c = (let n = ord c in
     if 48 \<le> n \<and> n \<le> 57 then Some (n - 48)
     else if 97 \<le> n \<and> n \<le> 102 then Some (n - 87)
     else if 65 \<le> n \<and> n \<le> 70 then Some (n - 55)
     else None)"

definition hex4_value :: "char \<Rightarrow> char \<Rightarrow> char \<Rightarrow> char \<Rightarrow> nat option" where
  "hex4_value a b c d =
     (case (hex_value a, hex_value b, hex_value c, hex_value d) of
        (Some i, Some j, Some k, Some l) \<Rightarrow> Some (4096 * i + 256 * j + 16 * k + l)
      | _ \<Rightarrow> None)"

definition unescape :: "char \<Rightarrow> char option" where
  "unescape c =
     (if c = dquote \<or> c = bslash \<or> c = CHR ''/'' then Some c
      else if c = CHR ''b'' then Some (CHR 0x08) else if c = CHR ''f'' then Some (CHR 0x0C)
      else if c = CHR ''n'' then Some (CHR 0x0A) else if c = CHR ''r'' then Some (CHR 0x0D)
      else if c = CHR ''t'' then Some (CHR 0x09) else None)"

text \<open>The rest of a string literal after its opening quote: its contents and the text after it.\<close>

fun json_string :: "string \<Rightarrow> (string \<times> string) option" where
  "json_string [] = None"
| "json_string (c # r) =
     (if c = dquote then Some ([], r)
      else if c = bslash then
        (case r of
           [] \<Rightarrow> None
         | e # r' \<Rightarrow>
             if e = CHR ''u'' then
               (case r' of
                  h1 # h2 # h3 # h4 # r'' \<Rightarrow>
                    (case hex4_value h1 h2 h3 h4 of
                       Some n \<Rightarrow>
                         if n < 256 then map_option (apfst (Cons (char_of n))) (json_string r'') else None
                     | None \<Rightarrow> None)
                | _ \<Rightarrow> None)
             else (case unescape e of
                     Some d \<Rightarrow> map_option (apfst (Cons d)) (json_string r')
                   | None \<Rightarrow> None))
      else if ord c < 32 then None
      else map_option (apfst (Cons c)) (json_string r))"

declare json_string.simps(2) [simp del]

definition dec_value :: "string \<Rightarrow> int" where
  "dec_value ds = foldl (\<lambda>a c. 10 * a + int (ord c - 48)) 0 ds"

text \<open>The number scanner \<^verbatim>\<open>(-?(?:0|[1-9]\d*))(\.\d+)?([eE][-+]?\d+)?\<close>, greedy.\<close>

definition num_int :: "string \<Rightarrow> string" where
  "num_int s = (case s of [] \<Rightarrow> [] | c # r \<Rightarrow> if c = CHR ''0'' then [c] else takeWhile py_isdigit s)"

definition num_frac :: "string \<Rightarrow> string" where
  "num_frac s =
     (case s of
        [] \<Rightarrow> []
      | c # r \<Rightarrow> if c = CHR ''.'' \<and> takeWhile py_isdigit r \<noteq> [] then c # takeWhile py_isdigit r else [])"

definition num_exp :: "string \<Rightarrow> string" where
  "num_exp s =
     (case s of
        [] \<Rightarrow> []
      | c # r \<Rightarrow>
          if c = CHR ''e'' \<or> c = CHR ''E'' then
            (let sg = (case r of [] \<Rightarrow> [] | d # _ \<Rightarrow> if d = CHR ''+'' \<or> d = CHR ''-'' then [d] else []);
                 ds = takeWhile py_isdigit (drop (length sg) r)
             in if ds = [] then [] else c # sg @ ds)
          else [])"

definition num_parts :: "string \<Rightarrow> string \<times> string \<times> string \<times> string" where
  "num_parts s =
     (let i = num_int s; s2 = drop (length i) s;
          f = num_frac s2; s3 = drop (length f) s2;
          e = num_exp s3
      in (i, f, e, drop (length e) s3))"

definition json_number :: "string \<Rightarrow> (json \<times> string) option" where
  "json_number s =
     (let neg = (case s of [] \<Rightarrow> False | c # _ \<Rightarrow> c = CHR ''-'')
      in case num_parts (if neg then tl s else s) of (i, f, e, r) \<Rightarrow>
           if i = [] then None
           else if f = [] \<and> e = [] then Some (JInt (if neg then - dec_value i else dec_value i), r)
           else Some (JFloat ((if neg then [CHR ''-''] else []) @ i @ f @ e), r))"

text \<open>The constants, tried before numbers.\<close>

definition json_constants :: "(string \<times> json) list" where
  "json_constants =
     [(''null'', JNull), (''true'', JBool True), (''false'', JBool False),
      (''NaN'', JFloat ''nan''), (''Infinity'', JFloat ''inf''), (''-Infinity'', JFloat ''-inf'')]"

definition json_scalar :: "string \<Rightarrow> (json \<times> string) option" where
  "json_scalar s =
     (case find (\<lambda>(w, v). py_startswith s w) json_constants of
        Some (w, v) \<Rightarrow> Some (v, drop (length w) s)
      | None \<Rightarrow> json_number s)"

text \<open>Values, array elements and object members. The first argument is fuel.\<close>

fun json_value :: "nat \<Rightarrow> string \<Rightarrow> (json \<times> string) option"
  and json_elems :: "nat \<Rightarrow> json list \<Rightarrow> string \<Rightarrow> (json \<times> string) option"
  and json_members :: "nat \<Rightarrow> (string \<times> json) list \<Rightarrow> string \<Rightarrow> (json \<times> string) option" where
  "json_value 0 s = None"
| "json_value (Suc n) s =
     (case s of
        [] \<Rightarrow> None
      | c # cs \<Rightarrow>
          if c = dquote then map_option (apfst JStr) (json_string cs)
          else if c = CHR ''{'' then
            (case json_ws cs of
               [] \<Rightarrow> None
             | d # r \<Rightarrow> if d = CHR ''}'' then Some (JObj [], r) else json_members n [] (d # r))
          else if c = CHR ''['' then
            (case json_ws cs of
               [] \<Rightarrow> None
             | d # r \<Rightarrow> if d = CHR '']'' then Some (JList [], r) else json_elems n [] (d # r))
          else json_scalar s)"
| "json_elems 0 acc s = None"
| "json_elems (Suc n) acc s =
     (case json_value n s of
        None \<Rightarrow> None
      | Some (v, r) \<Rightarrow>
          (case json_ws r of
             [] \<Rightarrow> None
           | d # r' \<Rightarrow>
               if d = CHR '']'' then Some (JList (acc @ [v]), r')
               else if d = CHR '','' then json_elems n (acc @ [v]) (json_ws r')
               else None))"
| "json_members 0 acc s = None"
| "json_members (Suc n) acc s =
     (case s of
        [] \<Rightarrow> None
      | q # cs \<Rightarrow>
          if q \<noteq> dquote then None
          else case json_string cs of
            None \<Rightarrow> None
          | Some (k, r) \<Rightarrow>
              (case json_ws r of
                 [] \<Rightarrow> None
               | d # r1 \<Rightarrow>
                   if d \<noteq> CHR '':'' then None
                   else case json_value n (json_ws r1) of
                     None \<Rightarrow> None
                   | Some (v, r2) \<Rightarrow>
                       (case json_ws r2 of
                          [] \<Rightarrow> None
                        | e # r3 \<Rightarrow>
                            if e = CHR ''}'' then Some (JObj (AList.update k v acc), r3)
                            else if e = CHR '','' then json_members n (AList.update k v acc) (json_ws r3)
                            else None)))"

declare json_value.simps(2) [simp del] json_elems.simps(2) [simp del] json_members.simps(2) [simp del]

definition json_loads :: "string \<Rightarrow> json option" where
  "json_loads s =
     (case json_value (2 * length s + 1) (json_ws s) of
        Some (v, r) \<Rightarrow> if json_ws r = [] then Some v else None
      | None \<Rightarrow> None)"

section \<open>Encoding\<close>

definition hex_digit :: "nat \<Rightarrow> char" where
  "hex_digit n = (if n < 10 then char_of (48 + n) else char_of (87 + n))"

definition escape_char :: "char \<Rightarrow> string" where
  "escape_char c =
     (if c = dquote then [bslash, dquote] else if c = bslash then [bslash, bslash]
      else if c = CHR 0x0A then [bslash, CHR ''n''] else if c = CHR 0x0D then [bslash, CHR ''r'']
      else if c = CHR 0x09 then [bslash, CHR ''t''] else if c = CHR 0x0C then [bslash, CHR ''f'']
      else if c = CHR 0x08 then [bslash, CHR ''b'']
      else if 32 \<le> ord c \<and> ord c \<le> 126 then [c]
      else [bslash, CHR ''u'', CHR ''0'', CHR ''0'', hex_digit (ord c div 16), hex_digit (ord c mod 16)])"

definition quote_string :: "string \<Rightarrow> string" where
  "quote_string s = dquote # concat (map escape_char s) @ [dquote]"

definition float_text :: "string \<Rightarrow> string" where
  "float_text s = (if s = ''nan'' then ''NaN'' else if s = ''inf'' then ''Infinity''
     else if s = ''-inf'' then ''-Infinity'' else s)"

text \<open>\<^verbatim>\<open>json.dumps(v, sort_keys=sk, separators=(isep, ksep))\<close>.\<close>

fun json_dumps :: "bool \<Rightarrow> string \<Rightarrow> string \<Rightarrow> json \<Rightarrow> string" where
  "json_dumps sk isep ksep JNull = ''null''"
| "json_dumps sk isep ksep (JBool b) = (if b then ''true'' else ''false'')"
| "json_dumps sk isep ksep (JInt i) = py_str_int i"
| "json_dumps sk isep ksep (JFloat f) = float_text f"
| "json_dumps sk isep ksep (JStr s) = quote_string s"
| "json_dumps sk isep ksep (JList vs) =
     CHR ''['' # py_join isep (map (json_dumps sk isep ksep) vs) @ '']''"
| "json_dumps sk isep ksep (JObj kvs) =
     (let ms = map (\<lambda>(k, v). (k, json_dumps sk isep ksep v)) kvs
      in CHR ''{'' # py_join isep (map (\<lambda>(k, t). quote_string k @ ksep @ t) (if sk then sort_key fst ms else ms))
           @ ''}'')"

section \<open>Truth values and dictionary access\<close>

text \<open>\<^verbatim>\<open>bool(v)\<close>, \<^verbatim>\<open>d.get(k)\<close> and \<^verbatim>\<open>x or y\<close>.\<close>

fun json_truthy :: "json \<Rightarrow> bool" where
  "json_truthy JNull = False"
| "json_truthy (JBool b) = b"
| "json_truthy (JInt i) = (i \<noteq> 0)"
| "json_truthy (JFloat f) =
     (\<exists>c \<in> set (takeWhile (\<lambda>c. c \<noteq> CHR ''e'' \<and> c \<noteq> CHR ''E'') f). c \<notin> {CHR ''0'', CHR ''.'', CHR ''-''})"
| "json_truthy (JStr s) = (s \<noteq> [])"
| "json_truthy (JList vs) = (vs \<noteq> [])"
| "json_truthy (JObj kvs) = (kvs \<noteq> [])"

definition json_get :: "(string \<times> json) list \<Rightarrow> string \<Rightarrow> json" where
  "json_get d k = (case map_of d k of Some v \<Rightarrow> v | None \<Rightarrow> JNull)"

definition json_or :: "json \<Rightarrow> json \<Rightarrow> json" where
  "json_or a b = (if json_truthy a then a else b)"

lemma json_examples:
  "json_loads (''{'' @ quote_string ''a'' @ '' : [1, -2.5e3 ,null,true, {}, []] }'')
     = Some (JObj [(''a'', JList [JInt 1, JFloat ''-2.5e3'', JNull, JBool True, JObj [], JList []])])"
  "json_loads ''[1,]'' = None" "json_loads ''01'' = None" "json_loads ''1.'' = None" "json_loads ''[1'' = None"
  "json_dumps True '','' '':'' (JObj [(''b'', JInt 10), (''a'', JList [JStr [CHR 0xE9], JBool False])])
     = ''{'' @ quote_string ''a'' @ '':['' @ [dquote, bslash] @ ''u00e9'' @ [dquote] @ '',false],'' @ quote_string ''b'' @ '':10}''"
  by code_simp+

section \<open>Values that survive a round trip\<close>

definition float_ok :: "string \<Rightarrow> bool" where
  "float_ok f \<longleftrightarrow> f \<in> {''nan'', ''inf'', ''-inf''} \<or> json_number f = Some (JFloat f, [])"

fun json_ok :: "json \<Rightarrow> bool" where
  "json_ok (JFloat f) = float_ok f"
| "json_ok (JList vs) = list_all json_ok vs"
| "json_ok (JObj kvs) = (distinct (map fst kvs) \<and> list_all (\<lambda>(k, v). json_ok v) kvs)"
| "json_ok _ = True"

text \<open>A text that a scalar cannot run into.\<close>

definition json_stop :: "string \<Rightarrow> bool" where
  "json_stop s \<longleftrightarrow> s = [] \<or> json_space (hd s) \<or> hd s = CHR '','' \<or> hd s = CHR '']'' \<or> hd s = CHR ''}''"

section \<open>Strings\<close>

lemma hex_value_digit: "n < 16 \<Longrightarrow> hex_value (hex_digit n) = Some n"
  by (auto simp: hex_value_def hex_digit_def Let_def)

lemma escape_char_decodes:
  "json_string (escape_char c @ t) = map_option (apfst (Cons c)) (json_string t)"
proof -
  have lt: "(of_char c :: nat) < 256" by (rule nat_of_char_less_256)
  then have "ord c div 16 < 16" using less_mult_imp_div_less [of "ord c" 16 16] by simp
  then have "hex4_value CHR ''0'' CHR ''0'' (hex_digit (ord c div 16)) (hex_digit (ord c mod 16)) = Some (ord c)"
    using hex_value_digit [of "ord c div 16"] hex_value_digit [of "ord c mod 16"] lt
    by (simp add: hex4_value_def hex_value_def [of "CHR ''0''"])
  then show ?thesis using lt
    by (auto simp: escape_char_def json_string.simps(2) unescape_def)
qed

lemma quote_string_decodes:
  "json_string (concat (map escape_char s) @ dquote # rest) = Some (s, rest)"
  by (induction s) (simp_all add: escape_char_decodes json_string.simps(2))

section \<open>Numbers\<close>

lemma json_stop_not_digit: "json_stop (c # r) \<Longrightarrow> \<not> py_isdigit c"
  by (auto simp: json_stop_def json_space_def py_isdigit_def)

lemma takeWhile_digits_stop:
  "json_stop rest \<Longrightarrow> takeWhile py_isdigit (xs @ rest) = takeWhile py_isdigit xs"
  using json_stop_not_digit by (induction xs; cases rest) auto

lemma num_int_stop: "json_stop rest \<Longrightarrow> num_int (s @ rest) = num_int s"
  using json_stop_not_digit takeWhile_digits_stop [of rest s]
  by (cases s; cases rest) (auto simp: num_int_def json_stop_def json_space_def)

lemma num_frac_stop: "json_stop rest \<Longrightarrow> num_frac (s @ rest) = num_frac s"
proof (cases s)
  case Nil
  assume "json_stop rest"
  then show ?thesis using Nil by (cases rest) (auto simp: num_frac_def json_stop_def json_space_def)
qed (simp add: num_frac_def takeWhile_digits_stop)

lemma num_exp_stop: "json_stop rest \<Longrightarrow> num_exp (s @ rest) = num_exp s"
proof (cases s)
  case Nil
  assume "json_stop rest"
  then show ?thesis using Nil by (cases rest) (auto simp: num_exp_def json_stop_def json_space_def)
next
  case (Cons c r)
  assume stop: "json_stop rest"
  show ?thesis
  proof (cases r)
    case Nil
    have "takeWhile py_isdigit rest = []" "takeWhile py_isdigit (drop (Suc 0) []) = []"
      using takeWhile_digits_stop [OF stop, of "[]"] by simp_all
    then show ?thesis using Cons Nil stop
      by (cases rest) (auto simp: num_exp_def json_stop_def json_space_def)
  next
    case (Cons d r')
    then show ?thesis using \<open>s = c # r\<close> takeWhile_digits_stop [OF stop, of "d # r'"] takeWhile_digits_stop [OF stop, of r']
      by (auto simp: num_exp_def Let_def)
  qed
qed

lemma num_parts_length:
  "length (num_int s) \<le> length s" "length (num_frac s) \<le> length s" "length (num_exp s) \<le> length s"
proof -
  show "length (num_int s) \<le> length s" "length (num_frac s) \<le> length s"
    by (auto simp: num_int_def num_frac_def length_takeWhile_le split: list.splits)
  show "length (num_exp s) \<le> length s"
  proof (cases s)
    case (Cons c r)
    have "length (takeWhile py_isdigit xs) \<le> length xs" for xs by (rule length_takeWhile_le)
    from this [of r] this [of "drop (Suc 0) r"] show ?thesis using Cons
      by (auto simp: num_exp_def Let_def split: list.splits)
  qed (simp add: num_exp_def)
qed

lemma num_parts_stop:
  assumes "num_parts s = (i, f, e, r)" "json_stop rest"
  shows "num_parts (s @ rest) = (i, f, e, r @ rest)"
proof -
  have "drop (length (num_int s)) (s @ rest) = drop (length (num_int s)) s @ rest" for s
    using num_parts_length(1) by simp
  moreover have "drop (length (num_frac s)) (s @ rest) = drop (length (num_frac s)) s @ rest" for s
    using num_parts_length(2) by simp
  moreover have "drop (length (num_exp s)) (s @ rest) = drop (length (num_exp s)) s @ rest" for s
    using num_parts_length(3) by simp
  moreover have "i = num_int s" "f = num_frac (drop (length (num_int s)) s)"
      "e = num_exp (drop (length (num_frac (drop (length (num_int s)) s))) (drop (length (num_int s)) s))"
      "r = drop (length e) (drop (length (num_frac (drop (length (num_int s)) s))) (drop (length (num_int s)) s))"
    using assms(1) by (auto simp: num_parts_def Let_def add.assoc)
  ultimately show ?thesis
    by (simp only: num_parts_def Let_def num_int_stop [OF assms(2)] num_frac_stop [OF assms(2)]
        num_exp_stop [OF assms(2)])
qed

lemma json_number_extend:
  assumes "json_number s = Some (v, r)" "json_stop rest"
  shows "json_number (s @ rest) = Some (v, r @ rest)"
proof -
  have "s \<noteq> []" using assms(1) by (auto simp: json_number_def num_parts_def num_int_def)
  then obtain c cs where s: "s = c # cs" by (cases s) auto
  let ?s = "if c = CHR ''-'' then cs else s"
  obtain i f e r' where parts: "num_parts ?s = (i, f, e, r')" by (cases "num_parts ?s") auto
  from num_parts_stop [OF this assms(2)]
  have "num_parts (if c = CHR ''-'' then cs @ rest else s @ rest) = (i, f, e, r' @ rest)"
    by (simp split: if_splits)
  then show ?thesis using assms(1) parts
    by (auto simp: s json_number_def split: if_splits)
qed

lemma json_number_head:
  assumes "json_number s = Some (v, r)"
  shows "\<exists>c cs. s = c # cs \<and> (py_isdigit c \<or> c = CHR ''-'' \<and> (\<exists>d ds. cs = d # ds \<and> py_isdigit d))"
proof -
  have digit: "\<exists>c cs. t = c # cs \<and> py_isdigit c" if "num_int t \<noteq> []" for t
    using that by (cases t) (auto simp: num_int_def py_isdigit_def split: if_splits)
  then show ?thesis using assms
    by (cases s) (fastforce simp: json_number_def num_parts_def Let_def split: if_splits)+
qed

lemma json_scalar_number: "json_number s = Some (v, r) \<Longrightarrow> json_scalar s = Some (v, r)"
  using json_number_head [of s v r]
  by (auto simp: json_scalar_def json_constants_def py_startswith_def py_isdigit_def)

lemma dec_value_snoc: "dec_value (xs @ [c]) = 10 * dec_value xs + int (ord c - 48)"
  by (simp add: dec_value_def)

lemma nat_digits_shape:
  "nat_digits n \<noteq> [] \<and> (\<forall>c \<in> set (nat_digits n). py_isdigit c) \<and> dec_value (nat_digits n) = int n \<and>
     (hd (nat_digits n) = CHR ''0'' \<longrightarrow> n = 0)"
proof (induction n rule: nat_digits.induct)
  case (1 n)
  show ?case
  proof (cases "n < 10")
    case True
    have "n = 0" if "char_of (48 + n) = CHR ''0''"
    proof -
      have "ord (char_of (48 + n)) = 48" by (simp only: that) simp
      then show ?thesis using True by (simp only: of_char_of) simp
    qed
    with True show ?thesis using digit_char [of n]
      by (simp add: nat_digits.simps [of n] dec_value_def)
  next
    case False
    have "10 * int (n div 10) + int (n mod 10) = int n" by presburger
    with False 1 show ?thesis using digit_char [of "n mod 10"]
      by (auto simp: nat_digits.simps [of n] dec_value_snoc)
  qed
qed

lemma json_number_int: "json_number (py_str_int i) = Some (JInt i, [])"
proof -
  have int: "num_int (nat_digits n) = nat_digits n" for n
  proof (cases "n = 0")
    case True
    have "nat_digits 0 = ''0''" by code_simp
    with True show ?thesis by (simp add: num_int_def)
  next
    case False
    with nat_digits_shape [of n] show ?thesis
      by (cases "nat_digits n") (auto simp: num_int_def takeWhile_eq_all_conv)
  qed
  have pos: "\<exists>c cs. nat_digits n = c # cs \<and> c \<noteq> CHR ''-''" for n
    using nat_digits_shape [of n] by (cases "nat_digits n") (auto simp: py_isdigit_def)
  show ?thesis
  proof (cases "i < 0")
    case True
    then show ?thesis using int [of "nat (- i)"] nat_digits_shape [of "nat (- i)"]
      by (simp add: json_number_def num_parts_def py_str_int_def num_frac_def num_exp_def)
  next
    case False
    obtain c cs where "nat_digits (nat i) = c # cs" "c \<noteq> CHR ''-''" using pos by blast
    with False show ?thesis using int [of "nat i"] nat_digits_shape [of "nat i"]
      by (simp add: json_number_def num_parts_def py_str_int_def num_frac_def num_exp_def)
  qed
qed

lemma float_decodes: "float_ok f \<Longrightarrow> json_stop rest \<Longrightarrow> json_scalar (float_text f @ rest) = Some (JFloat f, rest)"
proof -
  assume ok: "float_ok f" and stop: "json_stop rest"
  show ?thesis
  proof (cases "f \<in> {''nan'', ''inf'', ''-inf''}")
    case True
    then show ?thesis
      by (auto simp: float_text_def json_scalar_def json_constants_def py_startswith_def)
  next
    case False
    with ok have "json_number f = Some (JFloat f, [])" by (simp add: float_ok_def)
    from json_scalar_number [OF json_number_extend [OF this stop]] False show ?thesis
      by (auto simp: float_text_def)
  qed
qed

section \<open>Decoding what was encoded\<close>

text \<open>Separators the encoder is called with: a comma or a colon, then optional blanks.\<close>

definition sep_ok :: "char \<Rightarrow> string \<Rightarrow> bool" where
  "sep_ok c sep \<longleftrightarrow> (\<exists>ws. sep = c # ws \<and> list_all json_space ws)"

lemma json_ws_blanks: "list_all json_space ws \<Longrightarrow> json_ws (ws @ t) = json_ws t"
  by (induction ws) auto

lemma json_string_shape: "quote_string k @ t = dquote # concat (map escape_char k) @ dquote # t"
  by (simp add: quote_string_def)

lemma json_ws_head: "s \<noteq> [] \<Longrightarrow> \<not> json_space (hd s) \<Longrightarrow> json_ws s = s"
  by (cases s) auto

lemma dumps_head: "json_ok v \<Longrightarrow> \<exists>c cs. json_dumps sk isep ksep v = c # cs \<and> \<not> json_space c \<and> c \<noteq> CHR '']''"
proof (cases v)
  case (JInt i)
  then show ?thesis using json_number_head [OF json_number_int [of i]]
    by (auto simp: json_space_def py_isdigit_def)
next
  case (JFloat f)
  assume "json_ok v"
  then consider "f \<in> {''nan'', ''inf'', ''-inf''}" | "json_number f = Some (JFloat f, [])"
    using JFloat by (auto simp: float_ok_def)
  then show ?thesis
  proof cases
    case 1
    then show ?thesis using JFloat by (auto simp: float_text_def json_space_def)
  next
    case 2
    from json_number_head [OF 2] show ?thesis using JFloat
      by (auto simp: float_text_def json_space_def py_isdigit_def)
  qed
qed (auto simp: json_space_def quote_string_def Let_def)

definition decodes :: "string \<Rightarrow> json \<Rightarrow> bool" where
  "decodes t v \<longleftrightarrow> (\<forall>n rest. 2 * length t \<le> n \<longrightarrow> json_stop rest \<longrightarrow> json_value n (t @ rest) = Some (v, rest))"

lemma decodes_length: "decodes t v \<Longrightarrow> t \<noteq> []"
  by (force simp: decodes_def json_stop_def dest: spec [of _ 0])

lemma scalar_decodes:
  assumes "t = c # cs" "c \<noteq> dquote" "c \<noteq> CHR ''{''" "c \<noteq> CHR ''[''"
    and "\<And>rest. json_stop rest \<Longrightarrow> json_scalar (t @ rest) = Some (v, rest)"
  shows "decodes t v"
  unfolding decodes_def
proof (intro allI impI)
  fix n rest
  assume "2 * length t \<le> n" "json_stop rest"
  then obtain m where "n = Suc m" using assms(1) by (cases n) auto
  then show "json_value n (t @ rest) = Some (v, rest)"
    using assms(5) [OF \<open>json_stop rest\<close>] assms(1-4) by (simp add: json_value.simps(2))
qed

lemma json_stop_close [simp]: "json_stop (CHR '']'' # r)" "json_stop (CHR ''}'' # r)" "json_stop (CHR '','' # r)"
  by (simp_all add: json_stop_def)

lemma elems_decode:
  assumes "sep_ok (CHR '','') isep" "\<forall>v \<in> set vs. decodes (d v) v \<and> (\<exists>c cs. d v = c # cs \<and> \<not> json_space c)"
    and "vs \<noteq> []" "2 * length (py_join isep (map d vs)) < n"
  shows "json_elems n acc (py_join isep (map d vs) @ CHR '']'' # rest) = Some (JList (acc @ vs), rest)"
  using assms(3,2,4)
proof (induction vs arbitrary: n acc rule: list_nonempty_induct)
  case (single v)
  then obtain m where "n = Suc m" "2 * length (d v) \<le> m" by (cases n) auto
  with single show ?case by (simp add: json_elems.simps(2) decodes_def json_space_def)
next
  case (cons v vs)
  obtain ws where ws: "isep = CHR '','' # ws" "list_all json_space ws" using assms(1) by (auto simp: sep_ok_def)
  let ?t = "py_join isep (map d vs)"
  have join: "py_join isep (d v # map d vs) = d v @ isep @ ?t" using cons.hyps by (cases vs) auto
  from cons.prems join obtain m where m: "n = Suc m" "2 * length (d v) \<le> m" "2 * length ?t < m"
    by (cases n) (auto simp: ws(1))
  obtain w vs' where "vs = w # vs'" using cons.hyps by (cases vs) auto
  then have "json_ws (?t @ CHR '']'' # rest) = ?t @ CHR '']'' # rest"
    using cons.prems(1) by (cases vs') auto
  moreover have "json_value m (d v @ CHR '','' # ws @ ?t @ CHR '']'' # rest)
      = Some (v, CHR '','' # ws @ ?t @ CHR '']'' # rest)"
    using cons.prems(1) m(2) by (simp add: decodes_def)
  moreover have "json_elems m (acc @ [v]) (?t @ CHR '']'' # rest) = Some (JList ((acc @ [v]) @ vs), rest)"
    using cons.prems(1) m(3) by (intro cons.IH) auto
  ultimately show ?case
    using join by (simp add: m(1) ws(1) json_elems.simps(2) json_ws_blanks [OF ws(2)] json_space_def)
qed

lemma member_decodes:
  assumes "sep_ok (CHR '':'') ksep" "decodes t v" "\<exists>c cs. t = c # cs \<and> \<not> json_space c"
    and "2 * length t \<le> m" "json_stop rest"
  shows "json_members (Suc m) acc (quote_string k @ ksep @ t @ rest) =
     (case json_ws rest of
        [] \<Rightarrow> None
      | e # r3 \<Rightarrow>
          if e = CHR ''}'' then Some (JObj (AList.update k v acc), r3)
          else if e = CHR '','' then json_members m (AList.update k v acc) (json_ws r3)
          else None)"
proof -
  obtain ws where ws: "ksep = CHR '':'' # ws" "list_all json_space ws" using assms(1) by (auto simp: sep_ok_def)
  have "json_ws (t @ rest) = t @ rest" using assms(3) by auto
  moreover have "json_value m (t @ rest) = Some (v, rest)" using assms(2,4,5) by (simp add: decodes_def)
  ultimately show ?thesis
    by (simp add: json_members.simps(2) json_string_shape quote_string_decodes ws(1)
        json_ws_blanks [OF ws(2)] json_space_def)
qed

lemma members_decode:
  assumes mem_def: "\<And>kv. mem kv = quote_string (fst kv) @ ksep @ d (snd kv)"
    and seps: "sep_ok (CHR '','') isep" "sep_ok (CHR '':'') ksep"
    and "kvs \<noteq> []"
    and "\<forall>kv \<in> set kvs. decodes (d (snd kv)) (snd kv) \<and> (\<exists>c cs. d (snd kv) = c # cs \<and> \<not> json_space c)"
    and "2 * length (py_join isep (map mem kvs)) < n" "distinct (map fst (acc @ kvs))"
  shows "json_members n acc (py_join isep (map mem kvs) @ CHR ''}'' # rest) = Some (JObj (acc @ kvs), rest)"
  using assms(4-7)
proof (induction kvs arbitrary: n acc rule: list_nonempty_induct)
  case (single kv)
  then obtain m where m: "n = Suc m" "2 * length (d (snd kv)) \<le> m" by (cases n) (auto simp: mem_def)
  from single show ?case
    using member_decodes [OF seps(2) _ _ m(2), of "snd kv" "CHR ''}'' # rest" acc "fst kv"]
    by (simp add: mem_def m(1) json_space_def dict_update_new)
next
  case (cons kv kvs)
  obtain ws where ws: "isep = CHR '','' # ws" "list_all json_space ws" using seps(1) by (auto simp: sep_ok_def)
  let ?t = "py_join isep (map mem kvs)"
  have join: "py_join isep (mem kv # map mem kvs) = mem kv @ isep @ ?t" using cons.hyps by (cases kvs) auto
  with cons.prems(2) obtain m where m: "n = Suc m" "2 * length (d (snd kv)) \<le> m" "2 * length ?t < m"
    by (cases n) (auto simp: ws(1) mem_def [of kv])
  obtain w kvs' where "kvs = w # kvs'" using cons.hyps by (cases kvs) auto
  then have blank: "json_ws (?t @ CHR ''}'' # rest) = ?t @ CHR ''}'' # rest"
    by (cases kvs') (auto simp: mem_def [of w] quote_string_def json_space_def)
  have upd: "AList.update (fst kv) (snd kv) acc = acc @ [kv]"
    using cons.prems(3) by (simp add: dict_update_new)
  have "json_members m (acc @ [kv]) (?t @ CHR ''}'' # rest) = Some (JObj ((acc @ [kv]) @ kvs), rest)"
    using cons.prems m(3) by (intro cons.IH) auto
  then show ?case
    using member_decodes [OF seps(2) _ _ m(2), of "snd kv" "isep @ ?t @ CHR ''}'' # rest" acc "fst kv"]
      join cons.prems(1) blank upd
    by (simp add: m(1) ws(1) mem_def [of kv] json_space_def json_ws_blanks [OF ws(2)])
qed

lemma decodesI:
  assumes "t \<noteq> []" "\<And>m rest. 2 * length t \<le> Suc m \<Longrightarrow> json_value (Suc m) (t @ rest) = Some (v, rest)"
  shows "decodes t v"
  unfolding decodes_def
proof (intro allI impI)
  fix n rest
  assume "2 * length t \<le> n"
  with assms show "json_value n (t @ rest) = Some (v, rest)" by (cases n) auto
qed

lemma list_decodes:
  assumes "sep_ok (CHR '','') isep" "\<forall>v \<in> set vs. decodes (d v) v \<and> (\<exists>c cs. d v = c # cs \<and> \<not> json_space c \<and> c \<noteq> CHR '']'')"
  shows "decodes (CHR ''['' # py_join isep (map d vs) @ '']'') (JList vs)"
proof (rule decodesI)
  fix m rest
  assume m: "2 * length (CHR ''['' # py_join isep (map d vs) @ '']'') \<le> Suc m"
  let ?t = "py_join isep (map d vs) @ CHR '']'' # rest"
  show "json_value (Suc m) ((CHR ''['' # py_join isep (map d vs) @ '']'') @ rest) = Some (JList vs, rest)"
  proof (cases vs)
    case Nil
    then show ?thesis by (simp add: json_value.simps(2) json_space_def)
  next
    case (Cons w vs')
    then obtain c cs where "?t = c # cs" "\<not> json_space c" "c \<noteq> CHR '']''"
      using assms(2) by (cases vs') auto
    moreover have "json_elems m [] ?t = Some (JList ([] @ vs), rest)"
      using assms m Cons by (intro elems_decode) auto
    ultimately show ?thesis by (simp add: json_value.simps(2))
  qed
qed simp

lemma object_decodes:
  assumes "sep_ok (CHR '','') isep" "sep_ok (CHR '':'') ksep" "distinct (map fst kvs)"
    and "\<forall>kv \<in> set kvs. decodes (d (snd kv)) (snd kv) \<and> (\<exists>c cs. d (snd kv) = c # cs \<and> \<not> json_space c)"
    and mem: "\<And>kv. mem kv = quote_string (fst kv) @ ksep @ d (snd kv)"
  shows "decodes (CHR ''{'' # py_join isep (map mem kvs) @ ''}'') (JObj kvs)"
proof (rule decodesI)
  fix m rest
  assume m: "2 * length (CHR ''{'' # py_join isep (map mem kvs) @ ''}'') \<le> Suc m"
  let ?t = "py_join isep (map mem kvs) @ CHR ''}'' # rest"
  show "json_value (Suc m) ((CHR ''{'' # py_join isep (map mem kvs) @ ''}'') @ rest) = Some (JObj kvs, rest)"
  proof (cases kvs)
    case Nil
    then show ?thesis by (simp add: json_value.simps(2) json_space_def)
  next
    case (Cons w kvs')
    then obtain cs where "?t = dquote # cs"
      by (cases kvs') (auto simp: mem [of w] quote_string_def)
    moreover have "2 * length (py_join isep (map mem kvs)) < m" using m by simp
    with Cons assms(3) have "json_members m [] ?t = Some (JObj ([] @ kvs), rest)"
      using members_decode [OF mem assms(1,2) _ assms(4)] by simp
    ultimately show ?thesis by (simp add: json_value.simps(2) json_space_def)
  qed
qed simp

theorem dumps_decodes:
  assumes "sep_ok (CHR '','') isep" "sep_ok (CHR '':'') ksep"
  shows "json_ok v \<Longrightarrow> decodes (json_dumps False isep ksep v) v"
proof (induction v)
  case (JInt i)
  obtain c cs where t: "py_str_int i = c # cs" "py_isdigit c \<or> c = CHR ''-''"
    using json_number_head [OF json_number_int [of i]] by blast
  have "json_scalar (py_str_int i @ rest) = Some (JInt i, rest)" if "json_stop rest" for rest
    using json_scalar_number [OF json_number_extend [OF json_number_int that]] by simp
  then show ?case using t by (auto intro!: scalar_decodes simp: py_isdigit_def)
next
  case (JFloat f)
  then have ok: "float_ok f" by simp
  obtain c cs where t: "float_text f = c # cs" using dumps_head [OF JFloat] by auto
  have "c \<noteq> dquote \<and> c \<noteq> CHR ''{'' \<and> c \<noteq> CHR ''[''"
    using ok t json_number_head [of f "JFloat f" "[]"]
    by (auto simp: float_ok_def float_text_def py_isdigit_def split: if_splits)
  with t show ?case using float_decodes [OF ok] by (auto intro!: scalar_decodes)
next
  case (JStr s)
  show ?case
    by (rule decodesI) (simp_all add: quote_string_def json_value.simps(2) quote_string_decodes)
next
  case (JList vs)
  then show ?case using dumps_head
    by (simp, intro list_decodes [OF assms(1)]) (auto simp: list_all_iff)
next
  case (JObj kvs)
  let ?d = "json_dumps False isep ksep"
  have "\<forall>kv \<in> set kvs. decodes (?d (snd kv)) (snd kv) \<and> (\<exists>c cs. ?d (snd kv) = c # cs \<and> \<not> json_space c)"
    using JObj dumps_head by (fastforce simp: list_all_iff)
  from object_decodes [OF assms _ this] JObj.prems show ?case
    by (simp add: comp_def case_prod_unfold)
qed (auto intro!: scalar_decodes simp: json_scalar_def json_constants_def py_startswith_def)

theorem loads_dumps:
  assumes "sep_ok (CHR '','') isep" "sep_ok (CHR '':'') ksep" "json_ok v"
  shows "json_loads (json_dumps False isep ksep v) = Some v"
proof -
  let ?t = "json_dumps False isep ksep v"
  obtain c cs where "?t = c # cs" "\<not> json_space c" using dumps_head [OF assms(3)] by blast
  then have "json_ws ?t = ?t" by simp
  moreover have "json_value (2 * length ?t + 1) (?t @ []) = Some (v, [])"
    using dumps_decodes [OF assms] by (simp add: decodes_def json_stop_def del: append_Nil2)
  ultimately show ?thesis by (simp add: json_loads_def)
qed

section \<open>The fuel is enough\<close>

lemma json_ws_length: "length (json_ws s) \<le> length s"
  by (rule length_dropWhile_le)

lemma json_string_shrinks: "json_string s = Some (x, r) \<Longrightarrow> length r < length s"
proof (induction s arbitrary: x r rule: json_string.induct)
  case (2 c s)
  show ?case using 2
    by (fastforce simp: json_string.simps(2) apfst_def map_prod_def split: if_splits list.splits option.splits)
qed simp

lemma json_scalar_shrinks: "json_scalar s = Some (v, r) \<Longrightarrow> length r \<le> length s"
  by (auto simp: json_scalar_def json_number_def num_parts_def Let_def split: option.splits if_splits prod.splits)

lemma json_value_shrinks:
  "json_value n s = Some (v, r) \<Longrightarrow> length r \<le> length s"
  "json_elems n vs s = Some (v, r) \<Longrightarrow> length r \<le> length s"
  "json_members n kvs s = Some (v, r) \<Longrightarrow> length r \<le> length s"
proof (induction n s and n vs s and n kvs s arbitrary: v r and v r and v r
    rule: json_value_json_elems_json_members.induct)
  case (2 n s)
  show ?case
  proof (cases s)
    case (Cons c cs)
    have "length (json_ws cs) \<le> length cs" by (rule json_ws_length)
    then show ?thesis using 2 Cons json_string_shrinks [of cs] json_scalar_shrinks [of s]
      by (fastforce simp: json_value.simps(2) split: if_splits list.splits)
  qed (use 2 in \<open>simp add: json_value.simps(2)\<close>)
next
  case (4 n acc s)
  then obtain w r1 where w: "json_value n s = Some (w, r1)" by (auto simp: json_elems.simps(2) split: option.splits)
  then obtain d r2 where d: "json_ws r1 = d # r2" using 4(3) by (auto simp: json_elems.simps(2) split: list.splits)
  have "length r1 \<le> length s" "length (json_ws r1) \<le> length r1" "length (json_ws r2) \<le> length r2"
    using 4(1) [OF w] json_ws_length by auto
  then show ?case using 4(2) [OF w refl d] 4(3) w d by (auto simp: json_elems.simps(2) split: if_splits)
next
  case (6 n acc s)
  then obtain cs k r1 where k: "s = dquote # cs" "json_string cs = Some (k, r1)"
    by (auto simp: json_members.simps(2) split: list.splits if_splits option.splits)
  then obtain r2 where r2: "json_ws r1 = CHR '':'' # r2"
    using 6(3) by (auto simp: json_members.simps(2) split: list.splits if_splits)
  then obtain w r3 where w: "json_value n (json_ws r2) = Some (w, r3)"
    using 6(3) k by (auto simp: json_members.simps(2) split: option.splits)
  then obtain d r4 where d: "json_ws r3 = d # r4"
    using 6(3) k r2 by (auto simp: json_members.simps(2) split: list.splits)
  have "length r1 < length s" "Suc (length r2) \<le> length r1" "length r3 \<le> length (json_ws r2)"
      "Suc (length r4) \<le> length r3" "length (json_ws r2) \<le> length r2" "length (json_ws r4) \<le> length r4"
    using json_string_shrinks [OF k(2)] k(1) json_ws_length [of r1] json_ws_length [of r2] json_ws_length [of r3]
      json_ws_length [of r4] r2 d 6(1) [OF k(1) _ k(2) refl r2 _ w] by auto
  moreover have "d = CHR ''}'' \<and> r = r4 \<or> json_members n (AList.update k w acc) (json_ws r4) = Some (v, r) \<and> d = CHR '',''"
    using 6(3) k r2 w d by (auto simp: json_members.simps(2) split: if_splits)
  ultimately show ?case using 6(2) [OF k(1) _ k(2) refl r2 _ w refl d, of v r] by auto
qed simp_all

lemma json_fuel_step:
  "(\<forall>s. 2 * length s + 1 \<le> n \<longrightarrow> json_value (Suc n) s = json_value n s) \<and>
   (\<forall>acc s. 2 * length s + 2 \<le> n \<longrightarrow> json_elems (Suc n) acc s = json_elems n acc s) \<and>
   (\<forall>acc s. 2 * length s + 2 \<le> n \<longrightarrow> json_members (Suc n) acc s = json_members n acc s)"
proof (induction n)
  case (Suc n)
  have value_eq: "json_value (Suc n) s = json_value n s" if "2 * length s + 1 \<le> n" for s
    using Suc that by blast
  have elems_eq: "json_elems (Suc n) acc s = json_elems n acc s" if "2 * length s + 2 \<le> n" for acc s
    using Suc that by blast
  have members_eq: "json_members (Suc n) acc s = json_members n acc s" if "2 * length s + 2 \<le> n" for acc s
    using Suc that by blast
  have "json_value (Suc (Suc n)) s = json_value (Suc n) s" if "2 * length s + 1 \<le> Suc n" for s
  proof (cases s)
    case (Cons c cs)
    then have "length (json_ws cs) < length s" using json_ws_length [of cs] by simp
    with Cons that show ?thesis
      by (cases "json_ws cs") (simp_all add: json_value.simps(2) elems_eq members_eq del: dropWhile_eq_Nil_conv)
  qed (simp add: json_value.simps(2))
  moreover have "json_elems (Suc (Suc n)) acc s = json_elems (Suc n) acc s" if "2 * length s + 2 \<le> Suc n" for acc s
  proof (cases "json_value n s")
    case (Some vr)
    obtain v r where vr: "vr = (v, r)" by (cases vr)
    show ?thesis
    proof (cases "json_ws r")
      case (Cons d r')
      then have "2 * length (json_ws r') + 2 \<le> n"
        using json_value_shrinks(1) [OF Some [unfolded vr]] json_ws_length [of r] json_ws_length [of r'] that
        by simp
      with Cons Some that show ?thesis by (simp add: vr json_elems.simps(2) [of "Suc n" acc s] json_elems.simps(2) [of n acc s] value_eq elems_eq)
    qed (use Some that in \<open>simp add: vr json_elems.simps(2) value_eq del: dropWhile_eq_Nil_conv\<close>)
  qed (use that in \<open>simp add: json_elems.simps(2) value_eq\<close>)
  moreover have "json_members (Suc (Suc n)) acc s = json_members (Suc n) acc s" if "2 * length s + 2 \<le> Suc n" for acc s
  proof -
    have sub: "2 * length (json_ws r1) + 3 \<le> n" if "s = q # cs" "json_string cs = Some (k, r)" "json_ws r = d # r1" for q cs k r d r1
      using json_string_shrinks [OF that(2)] json_ws_length [of r] json_ws_length [of r1] that
        \<open>2 * length s + 2 \<le> Suc n\<close> by simp
    have "2 * length (json_ws r3) + 2 \<le> n"
      if "s = q # cs" "json_string cs = Some (k, r)" "json_ws r = d # r1" "json_value n (json_ws r1) = Some (v, r2)"
        "json_ws r2 = e # r3" for q cs k r d r1 v r2 e r3
      using sub [OF that(1-3)] json_value_shrinks(1) [OF that(4)] json_ws_length [of r2] json_ws_length [of r3] that(5)
      by simp
    then have rest: "json_members (Suc n) acc' (json_ws r3) = json_members n acc' (json_ws r3)"
      if "s = q # cs" "json_string cs = Some kr" "kr = (k, r)" "json_ws r = d # r1"
        "json_value n (json_ws r1) = Some vr" "vr = (v, r2)" "json_ws r2 = e # r3" for q cs kr k r d r1 vr v r2 e r3 acc'
      using that by (intro members_eq) blast
    have val: "json_value (Suc n) (json_ws r1) = json_value n (json_ws r1)"
      if "s = q # cs" "json_string cs = Some kr" "kr = (k, r)" "json_ws r = d # r1" for q cs kr k r d r1
      using sub [of q cs k r d r1] that by (intro value_eq) simp
    show ?thesis
      unfolding json_members.simps(2) [of "Suc n" acc s] json_members.simps(2) [of n acc s]
      by (intro list.case_cong option.case_cong prod.case_cong if_cong refl; (erule (3) val | erule (6) rest))
  qed
  ultimately show ?case by blast
qed simp

theorem json_value_fuel_enough: "2 * length s + 1 \<le> n \<Longrightarrow> json_value n s = json_value (2 * length s + 1) s"
proof (induction n rule: dec_induct)
  case (step n)
  then show ?case using json_fuel_step [of n] by auto
qed simp

end
