(* ===== verification/Structure_Heuristic.thy ===== *)
theory Structure_Heuristic
  imports Py_Json
begin

text \<open>
  Candidate folders from cheap signals, \<^verbatim>\<open>wiki/structure/heuristic.py\<close>: three pairwise signals and a
  union-find with path halving. \<^verbatim>\<open>find\<close> is a loop on a mutable dictionary that could run forever on
  a cyclic one; it is a partial function, and its termination on the dictionaries the code builds
  is proved. A signal description is kept as data (\<open>signal\<close>), its rendering as text is left out.
\<close>

section \<open>Model\<close>

text \<open>A cluster dictionary; \<^const>\<open>None\<close> is an absent key.\<close>

record cluster_entry =
  cl_id :: "string option"
  cl_slug :: "string option"
  cl_title :: "string option"
  cl_key_entities :: "json list option"
  cl_depth :: "int option"
  cl_fact_count :: "int option"
  cl_member_count :: "int option"

datatype signal = Shared_prefix string | Entity_overlap rat | Cross_cited nat

record HeuristicGroup =
  hg_cluster_ids :: "string set"
  hg_signals :: "(string, signal list) dict"

definition PREFIX_MIN_WORDS :: nat where
  "PREFIX_MIN_WORDS = 2"

definition ENTITY_JACCARD_THRESHOLD :: rat where
  "ENTITY_JACCARD_THRESHOLD = 4 / 10"

definition CO_CITATION_THRESHOLD :: nat where
  "CO_CITATION_THRESHOLD = 5"

definition word_count :: "string \<Rightarrow> nat" where
  "word_count s = length (filter (\<lambda>w. w \<noteq> []) (py_words s))"

fun common_words :: "string list \<Rightarrow> string list \<Rightarrow> string list" where
  "common_words (x # wa) (y # wb) = (if py_lower x = py_lower y then x # common_words wa wb else [])"
| "common_words _ _ = []"

definition common_word_prefix :: "string \<Rightarrow> string \<Rightarrow> string" where
  "common_word_prefix a b = py_join '' '' (common_words (py_words a) (py_words b))"

definition entity_name :: "json \<Rightarrow> string list" where
  "entity_name e =
     (case e of
        JStr s \<Rightarrow> if py_strip s \<noteq> [] then [py_lower (py_strip s)] else []
      | JObj d \<Rightarrow>
          (case json_or (json_or (json_get d ''name'') (json_get d ''entity_name'')) (JStr []) of
             JStr s \<Rightarrow> if py_strip s \<noteq> [] then [py_lower (py_strip s)] else []
           | _ \<Rightarrow> [])
      | _ \<Rightarrow> [])"

definition entity_names :: "json list option \<Rightarrow> string set" where
  "entity_names entities = (case entities of None \<Rightarrow> {} | Some es \<Rightarrow> set (concat (map entity_name es)))"

definition entity_jaccard :: "json list option \<Rightarrow> json list option \<Rightarrow> rat" where
  "entity_jaccard a b =
     (let sa = entity_names a; sb = entity_names b in
      if sa = {} \<or> sb = {} then 0
      else if sa \<union> sb = {} then 0
      else of_nat (card (sa \<inter> sb)) / of_nat (card (sa \<union> sb)))"

text \<open>The nested functions \<^verbatim>\<open>find\<close> and \<^verbatim>\<open>union\<close>: the dictionary \<^verbatim>\<open>parent\<close> is passed along.\<close>

partial_function (option) uf_find :: "(string, string) dict \<Rightarrow> string \<Rightarrow> (string \<times> (string, string) dict) option" where
  "uf_find parent x =
     (case map_of parent x of
        None \<Rightarrow> None
      | Some px \<Rightarrow>
          if px = x then Some (x, parent)
          else case map_of parent px of
                 None \<Rightarrow> None
               | Some ppx \<Rightarrow> uf_find (AList.update x ppx parent) ppx)"

declare uf_find.simps [code]

definition uf_union :: "(string, string) dict \<Rightarrow> string \<Rightarrow> string \<Rightarrow> (string, string) dict option" where
  "uf_union parent a b =
     (case uf_find parent a of
        None \<Rightarrow> None
      | Some (ra, p1) \<Rightarrow>
          (case uf_find p1 b of
             None \<Rightarrow> None
           | Some (rb, p2) \<Rightarrow> Some (if ra \<noteq> rb then AList.update rb ra p2 else p2)))"

definition clusters_by_id :: "cluster_entry list \<Rightarrow> (string, cluster_entry) dict" where
  "clusters_by_id clusters =
     fold (\<lambda>c d. case cl_id c of Some i \<Rightarrow> AList.update i c d | None \<Rightarrow> d) clusters []"

definition co_citations :: "(string \<times> string) list \<Rightarrow> (string set, nat) dict" where
  "co_citations fact_graph =
     fold (\<lambda>(src, dst) d.
        if src = dst then d
        else AList.update {src, dst} ((case map_of d {src, dst} of Some n \<Rightarrow> n | None \<Rightarrow> 0) + 1) d) fact_graph []"

definition pair_signals ::
    "(string set, nat) dict \<Rightarrow> string \<Rightarrow> string \<Rightarrow> cluster_entry \<Rightarrow> cluster_entry \<Rightarrow> (string, signal list) dict" where
  "pair_signals co_count a_id b_id a b =
     (let prefix = common_word_prefix (case cl_title a of Some t \<Rightarrow> t | None \<Rightarrow> []) (case cl_title b of Some t \<Rightarrow> t | None \<Rightarrow> []);
          jacc = entity_jaccard (cl_key_entities a) (cl_key_entities b);
          cocnt = (case map_of co_count {a_id, b_id} of Some n \<Rightarrow> n | None \<Rightarrow> 0)
      in (if word_count prefix \<ge> PREFIX_MIN_WORDS then [(''prefix'', [Shared_prefix prefix])] else [])
         @ (if jacc \<ge> ENTITY_JACCARD_THRESHOLD then [(''entity'', [Entity_overlap jacc])] else [])
         @ (if cocnt \<ge> CO_CITATION_THRESHOLD then [(''co_citation'', [Cross_cited cocnt])] else []))"

fun id_pairs :: "string list \<Rightarrow> (string \<times> string) list" where
  "id_pairs [] = []"
| "id_pairs (i # is) = map (\<lambda>j. (i, j)) is @ id_pairs is"

text \<open>The pair loop. The signals of a pair are an argument; a pair without one changes nothing.\<close>

fun join_pairs ::
    "(string \<Rightarrow> string \<Rightarrow> (string, signal list) dict) \<Rightarrow> (string \<times> string) list \<Rightarrow>
     (string, string) dict \<times> (string set, (string, signal list) dict) dict \<Rightarrow>
     ((string, string) dict \<times> (string set, (string, signal list) dict) dict) option" where
  "join_pairs sig [] st = Some st"
| "join_pairs sig ((a, b) # pairs) (parent, ps) =
     (if sig a b \<noteq> [] then
        (case uf_union parent a b of
           None \<Rightarrow> None
         | Some parent' \<Rightarrow> join_pairs sig pairs (parent', AList.update {a, b} (sig a b) ps))
      else join_pairs sig pairs (parent, ps))"

fun collect_members ::
    "string list \<Rightarrow> (string, string) dict \<Rightarrow> (string, string set) dict \<Rightarrow> (string, string set) dict option" where
  "collect_members [] parent acc = Some acc"
| "collect_members (cid # ids) parent acc =
     (case uf_find parent cid of
        None \<Rightarrow> None
      | Some (r, parent') \<Rightarrow>
          collect_members ids parent'
            (AList.update r (insert cid (case map_of acc r of Some m \<Rightarrow> m | None \<Rightarrow> {})) acc))"

definition merge_signals :: "(string, signal list) dict \<Rightarrow> (string, signal list) dict \<Rightarrow> (string, signal list) dict" where
  "merge_signals agg sigs =
     fold (\<lambda>(kind, descs) d. AList.update kind ((case map_of d kind of Some ds \<Rightarrow> ds | None \<Rightarrow> []) @ descs) d) sigs agg"

definition make_group :: "(string set, (string, signal list) dict) dict \<Rightarrow> string set \<Rightarrow> HeuristicGroup" where
  "make_group ps members =
     \<lparr>hg_cluster_ids = members,
      hg_signals = fold (\<lambda>(pair, sigs) agg. if pair \<subseteq> members then merge_signals agg sigs else agg) ps []\<rparr>"

definition cluster_signals ::
    "cluster_entry list \<Rightarrow> (string \<times> string) list \<Rightarrow> string \<Rightarrow> string \<Rightarrow> (string, signal list) dict" where
  "cluster_signals clusters fact_graph a b =
     (case (map_of (clusters_by_id clusters) a, map_of (clusters_by_id clusters) b) of
        (Some ca, Some cb) \<Rightarrow> pair_signals (co_citations fact_graph) a b ca cb
      | _ \<Rightarrow> [])"

definition HeuristicCandidates_compute ::
    "cluster_entry list \<Rightarrow> (string \<times> string) list \<Rightarrow> HeuristicGroup list option" where
  "HeuristicCandidates_compute clusters fact_graph =
     (if clusters = [] then Some []
      else let ids = sort (map fst (clusters_by_id clusters)) in
        case join_pairs (cluster_signals clusters fact_graph) (id_pairs ids) (map (\<lambda>i. (i, i)) ids, []) of
          None \<Rightarrow> None
        | Some (parent, ps) \<Rightarrow>
            (case collect_members ids parent [] of
               None \<Rightarrow> None
             | Some members_by_root \<Rightarrow>
                 Some (map (make_group ps)
                   (filter (\<lambda>m. \<not> card m < 2)
                     (map (\<lambda>r. the (map_of members_by_root r)) (sort (map fst members_by_root)))))))"

section \<open>Forests\<close>

text \<open>\<open>leads p n x r\<close>: following \<open>n\<close> parent links from \<open>x\<close> ends at the root \<open>r\<close>.\<close>

fun leads :: "(string \<rightharpoonup> string) \<Rightarrow> nat \<Rightarrow> string \<Rightarrow> string \<Rightarrow> bool" where
  "leads p 0 x r \<longleftrightarrow> p x = Some x \<and> x = r"
| "leads p (Suc n) x r \<longleftrightarrow> (\<exists>y. p x = Some y \<and> y \<noteq> x \<and> leads p n y r)"

definition has_root :: "(string \<rightharpoonup> string) \<Rightarrow> string \<Rightarrow> string \<Rightarrow> bool" where
  "has_root p x r \<longleftrightarrow> (\<exists>n. leads p n x r)"

definition forest :: "(string \<rightharpoonup> string) \<Rightarrow> bool" where
  "forest p \<longleftrightarrow> (\<forall>x \<in> dom p. \<exists>r. has_root p x r)"

lemma leads_unique: "leads p n x r \<Longrightarrow> leads p m x s \<Longrightarrow> n = m \<and> r = s"
proof (induction n arbitrary: x m)
  case 0
  then show ?case by (cases m) auto
next
  case (Suc n)
  then obtain m' where "m = Suc m'" by (cases m) auto
  with Suc show ?case by fastforce
qed

lemma leads_step: "p x = Some y \<Longrightarrow> y \<noteq> x \<Longrightarrow> leads p n y r \<Longrightarrow> leads p (Suc n) x r"
  by auto

lemma leads_root: "leads p n x r \<Longrightarrow> p r = Some r"
  by (induction n arbitrary: x) auto

lemma has_root_fun: "has_root p x r \<Longrightarrow> has_root p x s \<Longrightarrow> r = s"
  using leads_unique by (auto simp: has_root_def)

lemma has_root_dom: "has_root p x r \<Longrightarrow> x \<in> dom p"
proof -
  assume "has_root p x r"
  then obtain n where "leads p n x r" unfolding has_root_def by blast
  then show "x \<in> dom p" by (cases n) auto
qed

lemma has_root_self: "p r = Some r \<Longrightarrow> has_root p r r"
  unfolding has_root_def by (rule exI [of _ 0]) simp

text \<open>Path halving keeps every root and makes no path longer.\<close>

lemma leads_halve:
  assumes "p x = Some y" "y \<noteq> x" "p y = Some z"
  shows "leads p n w r \<Longrightarrow> \<exists>m \<le> n. leads (p(x \<mapsto> z)) m w r"
proof (induction n arbitrary: w rule: less_induct)
  case (less n)
  show ?case
  proof (cases n)
    case 0
    with less.prems assms have "leads (p(x \<mapsto> z)) 0 w r" by auto
    with 0 show ?thesis by blast
  next
    case (Suc k)
    then obtain v where v: "p w = Some v" "v \<noteq> w" "leads p k v r" using less.prems by auto
    show ?thesis
    proof (cases "w = x")
      case False
      from less.IH [OF _ v(3)] Suc obtain m where "m \<le> k" "leads (p(x \<mapsto> z)) m v r" by blast
      moreover have "(p(x \<mapsto> z)) w = Some v" using v(1) False by simp
      ultimately show ?thesis using v(2) Suc leads_step by (metis Suc_le_mono)
    next
      case True
      then have vy: "v = y" using v assms by simp
      show ?thesis
      proof (cases k)
        case 0
        with v vy assms True have "leads (p(x \<mapsto> z)) (Suc 0) w r" by auto
        with Suc show ?thesis by blast
      next
        case (Suc j)
        then have z: "leads p j z r" "z \<noteq> y" using v(3) vy assms(3) by auto
        have "z \<noteq> x"
          using leads_unique [OF z(1), of n r] less.prems True Suc \<open>n = Suc k\<close> by auto
        moreover have "j < n" using Suc \<open>n = Suc k\<close> by simp
        from less.IH [OF this z(1)] obtain m where "m \<le> j" "leads (p(x \<mapsto> z)) m z r" by blast
        moreover have "(p(x \<mapsto> z)) x = Some z" by simp
        ultimately have "leads (p(x \<mapsto> z)) (Suc m) x r" by (intro leads_step)
        moreover have "Suc m \<le> n" using \<open>m \<le> j\<close> \<open>n = Suc k\<close> Suc by simp
        ultimately show ?thesis using True by blast
      qed
    qed
  qed
qed

lemma has_root_halve:
  assumes "p x = Some y" "y \<noteq> x" "p y = Some z" "has_root p w r"
  shows "has_root (p(x \<mapsto> z)) w r"
  using leads_halve [OF assms(1-3)] assms(4) unfolding has_root_def by blast

text \<open>Hanging one root under another moves its whole tree.\<close>

lemma leads_link:
  assumes "p ra = Some ra" "p rb = Some rb" "ra \<noteq> rb"
  shows "leads p n x r \<Longrightarrow> has_root (p(rb \<mapsto> ra)) x (if r = rb then ra else r)"
proof (induction n arbitrary: x)
  case 0
  show ?case
  proof (cases "x = rb")
    case True
    have "leads (p(rb \<mapsto> ra)) (Suc 0) rb ra" using assms by simp
    with 0 True show ?thesis unfolding has_root_def by (metis leads.simps(1))
  next
    case False
    with 0 show ?thesis by (auto intro: has_root_self)
  qed
next
  case (Suc n)
  then obtain y where y: "p x = Some y" "y \<noteq> x" "leads p n y r" by auto
  with assms have "x \<noteq> rb" by auto
  from Suc.IH [OF y(3)] obtain m where m: "leads (p(rb \<mapsto> ra)) m y (if r = rb then ra else r)"
    unfolding has_root_def by blast
  have "(p(rb \<mapsto> ra)) x = Some y" using y \<open>x \<noteq> rb\<close> by simp
  from leads_step [OF this y(2) m] have "leads (p(rb \<mapsto> ra)) (Suc m) x (if r = rb then ra else r)" .
  then show ?case unfolding has_root_def by blast
qed

section \<open>Find and union\<close>

text \<open>Two dictionaries with the same keys and the same roots.\<close>

definition same_roots :: "(string, string) dict \<Rightarrow> (string, string) dict \<Rightarrow> bool" where
  "same_roots p q \<longleftrightarrow> dom (map_of q) = dom (map_of p) \<and>
     (\<forall>x r. has_root (map_of p) x r \<longrightarrow> has_root (map_of q) x r)"

lemma same_roots_refl: "same_roots p p"
  by (simp add: same_roots_def)

lemma same_roots_trans: "same_roots p q \<Longrightarrow> same_roots q t \<Longrightarrow> same_roots p t"
  by (simp add: same_roots_def)

lemma uf_find_terminates:
  "leads (map_of p) n x r \<Longrightarrow> \<exists>q. uf_find p x = Some (r, q) \<and> same_roots p q"
proof (induction n arbitrary: p x rule: less_induct)
  case (less n)
  show ?case
  proof (cases n)
    case 0
    with less.prems show ?thesis by (subst uf_find.simps) (auto simp: same_roots_refl)
  next
    case (Suc k)
    then obtain y where y: "map_of p x = Some y" "y \<noteq> x" "leads (map_of p) k y r" using less.prems by auto
    then obtain z where z: "map_of p y = Some z" by (cases k) auto
    let ?p = "AList.update x z p"
    have halved: "same_roots p ?p"
      using y(1) has_root_halve [OF y(1,2) z] by (auto simp: same_roots_def)
    have "leads (map_of p) (k - 1) z r" using y(3) z by (cases k) auto
    then obtain m where "m \<le> k - 1" "leads (map_of ?p) m z r"
      using leads_halve [OF y(1,2) z] by fastforce
    moreover from this(1) Suc have "m < n" by simp
    ultimately obtain q where "uf_find ?p z = Some (r, q)" "same_roots ?p q" using less.IH by blast
    then show ?thesis using y z same_roots_trans [OF halved] by (subst uf_find.simps) auto
  qed
qed

lemma uf_find_root:
  "has_root (map_of p) x r \<Longrightarrow> \<exists>q. uf_find p x = Some (r, q) \<and> same_roots p q"
  using uf_find_terminates by (auto simp: has_root_def)

lemma uf_union_roots:
  assumes "has_root (map_of p) a ra" "has_root (map_of p) b rb"
  shows "\<exists>q. uf_union p a b = Some q \<and> dom (map_of q) = dom (map_of p) \<and>
     (\<forall>x r. has_root (map_of p) x r \<longrightarrow> has_root (map_of q) x (if r = rb then ra else r))"
proof -
  obtain p1 where p1: "uf_find p a = Some (ra, p1)" "same_roots p p1" using uf_find_root assms(1) by blast
  then have "has_root (map_of p1) b rb" using assms(2) by (simp add: same_roots_def)
  then obtain p2 where p2: "uf_find p1 b = Some (rb, p2)" "same_roots p1 p2" using uf_find_root by blast
  from same_roots_trans [OF p1(2) p2(2)] have s: "same_roots p p2" .
  then have roots: "map_of p2 ra = Some ra" "map_of p2 rb = Some rb"
    using assms leads_root unfolding same_roots_def has_root_def by blast+
  show ?thesis
  proof (cases "ra = rb")
    case True
    with s p1 p2 show ?thesis by (auto simp: uf_union_def same_roots_def)
  next
    case False
    have "has_root (map_of (AList.update rb ra p2)) x (if r = rb then ra else r)" if "has_root (map_of p) x r" for x r
    proof -
      from that s obtain n where "leads (map_of p2) n x r" unfolding same_roots_def has_root_def by blast
      from leads_link [OF roots False this] show ?thesis by simp
    qed
    moreover have "dom (map_of (AList.update rb ra p2)) = dom (map_of p)"
      using s roots by (auto simp: same_roots_def)
    ultimately show ?thesis using False p1 p2 by (simp add: uf_union_def)
  qed
qed

section \<open>Groups are the connected components\<close>

text \<open>Clusters linked by a chain of pairs that share a signal.\<close>

definition linked :: "(string \<times> string) set \<Rightarrow> string \<Rightarrow> string \<Rightarrow> bool" where
  "linked E x y \<longleftrightarrow> (x, y) \<in> (E \<union> E\<inverse>)\<^sup>*"

lemma linked_refl: "linked E x x"
  by (simp add: linked_def)

lemma linked_trans: "linked E x y \<Longrightarrow> linked E y z \<Longrightarrow> linked E x z"
  by (simp add: linked_def)

lemma linked_sym: "linked E x y \<Longrightarrow> linked E y x"
proof -
  have "sym ((E \<union> E\<inverse>)\<^sup>*)" by (intro sym_rtrancl) (auto simp: sym_def)
  then show "linked E x y \<Longrightarrow> linked E y x" by (auto simp: linked_def dest: symD)
qed

lemma linked_mono: "linked E x y \<Longrightarrow> E \<subseteq> F \<Longrightarrow> linked F x y"
  unfolding linked_def using rtrancl_mono [of "E \<union> E\<inverse>" "F \<union> F\<inverse>"] by blast

lemma linked_edge: "(x, y) \<in> E \<Longrightarrow> linked E x y"
  by (auto simp: linked_def)

text \<open>
  The invariant of the pair loop for the joined pairs \<open>E\<close>: \<open>parent\<close> is a forest on the ids, a root is
  linked to its members, and joined pairs have a common root.
\<close>

definition uf_inv :: "string set \<Rightarrow> (string \<times> string) set \<Rightarrow> (string, string) dict \<Rightarrow> bool" where
  "uf_inv V E p \<longleftrightarrow> dom (map_of p) = V \<and> forest (map_of p) \<and>
     (\<forall>x r. has_root (map_of p) x r \<longrightarrow> linked E x r) \<and>
     (\<forall>(a, b) \<in> E. \<exists>r. has_root (map_of p) a r \<and> has_root (map_of p) b r)"

lemma uf_inv_root: "uf_inv V E p \<Longrightarrow> x \<in> V \<Longrightarrow> \<exists>r. has_root (map_of p) x r"
  unfolding uf_inv_def forest_def by blast

lemma uf_inv_init: "uf_inv (set ids) {} (map (\<lambda>i. (i, i)) ids)"
proof -
  let ?p = "map_of (map (\<lambda>i. (i, i)) ids)"
  have dom: "dom ?p = set ids" by (force simp: dom_map_of_conv_image_fst)
  have p: "?p x = Some y \<Longrightarrow> y = x" for x y by (auto dest: map_of_SomeD)
  have root: "r = x" if hr: "has_root ?p x r" for x r
  proof -
    obtain n where "leads ?p n x r" using hr unfolding has_root_def by blast
    then show ?thesis using p by (cases n) auto
  qed
  have "has_root ?p x x" if x: "x \<in> set ids" for x
  proof -
    obtain y where "?p x = Some y" using x dom by blast
    with p [OF this] show ?thesis by (intro has_root_self) simp
  qed
  moreover have "linked {} x r" if "has_root ?p x r" for x r using root [OF that] linked_refl by simp
  ultimately show ?thesis unfolding uf_inv_def forest_def dom by blast
qed

lemma uf_inv_union:
  assumes inv: "uf_inv V E p" and "a \<in> V" "b \<in> V"
  shows "\<exists>q. uf_union p a b = Some q \<and> uf_inv V (insert (a, b) E) q"
proof -
  obtain ra rb where ra: "has_root (map_of p) a ra" "has_root (map_of p) b rb"
    using uf_inv_root [OF inv] assms(2,3) by blast
  from uf_union_roots [OF this] obtain q where q: "uf_union p a b = Some q" "dom (map_of q) = V"
    and roots: "\<And>x r. has_root (map_of p) x r \<Longrightarrow> has_root (map_of q) x (if r = rb then ra else r)"
    using inv by (auto simp: uf_inv_def)
  let ?E = "insert (a, b) E"
  have up: "linked ?E x r" if "has_root (map_of p) x r" for x r
    using inv that linked_mono [of E _ _ ?E] by (auto simp: uf_inv_def)
  have ab: "linked ?E rb ra"
    using up [OF ra(1)] up [OF ra(2)] linked_edge [of a b ?E] linked_sym linked_trans by (metis insertI1)
  have "linked ?E x r'" if r': "has_root (map_of q) x r'" for x r'
  proof -
    have "x \<in> V" using has_root_dom [OF r'] q(2) by simp
    then obtain r where r: "has_root (map_of p) x r" using uf_inv_root [OF inv] by blast
    from has_root_fun [OF r' roots [OF r]] up [OF r] ab show ?thesis
      by (auto intro: linked_trans split: if_splits)
  qed
  moreover have "forest (map_of q)"
    unfolding forest_def q(2) using uf_inv_root [OF inv] roots by blast
  moreover have "\<exists>r. has_root (map_of q) c r \<and> has_root (map_of q) d r" if "(c, d) \<in> ?E" for c d
  proof (cases "(c, d) = (a, b)")
    case True
    with roots [OF ra(1)] roots [OF ra(2)] show ?thesis by (auto split: if_splits)
  next
    case False
    then obtain r where "has_root (map_of p) c r" "has_root (map_of p) d r"
      using inv \<open>(c, d) \<in> ?E\<close> by (auto simp: uf_inv_def)
    with roots show ?thesis by blast
  qed
  ultimately show ?thesis using q unfolding uf_inv_def by blast
qed

lemma uf_inv_same_root:
  assumes inv: "uf_inv V E p" and "has_root (map_of p) x r" "has_root (map_of p) y s" "E \<subseteq> V \<times> V"
  shows "r = s \<longleftrightarrow> linked E x y"
proof
  assume "r = s"
  with assms show "linked E x y"
    unfolding uf_inv_def using linked_trans linked_sym by blast
next
  assume "linked E x y"
  then have "(x, y) \<in> (E \<union> E\<inverse>)\<^sup>*" by (simp add: linked_def)
  then have "has_root (map_of p) y r"
  proof (induction rule: rtrancl_induct)
    case (step u v)
    then obtain t where "has_root (map_of p) u t" "has_root (map_of p) v t" using inv by (auto simp: uf_inv_def)
    with step.IH show ?case using has_root_fun by blast
  qed (use assms(2) in simp)
  with assms(3) show "r = s" using has_root_fun by blast
qed

definition joined :: "(string \<Rightarrow> string \<Rightarrow> (string, signal list) dict) \<Rightarrow> (string \<times> string) list \<Rightarrow> (string \<times> string) set" where
  "joined sig pairs = {(a, b) \<in> set pairs. sig a b \<noteq> []}"

lemma join_pairs_inv:
  assumes "uf_inv V E p" "set pairs \<subseteq> V \<times> V"
  shows "\<exists>q ps'. join_pairs sig pairs (p, ps) = Some (q, ps') \<and> uf_inv V (E \<union> joined sig pairs) q"
  using assms
proof (induction pairs arbitrary: E p ps)
  case Nil
  then show ?case by (simp add: joined_def)
next
  case (Cons ab pairs)
  obtain a b where ab: "ab = (a, b)" by (cases ab)
  show ?case
  proof (cases "sig a b = []")
    case True
    then have "joined sig (ab # pairs) = joined sig pairs" by (auto simp: joined_def ab)
    with Cons True show ?thesis by (simp add: ab)
  next
    case False
    then have eq: "E \<union> joined sig (ab # pairs) = insert (a, b) E \<union> joined sig pairs" by (auto simp: joined_def ab)
    from Cons.prems ab uf_inv_union [OF Cons.prems(1), of a b]
    obtain p' where "uf_union p a b = Some p'" "uf_inv V (insert (a, b) E) p'" by auto
    with Cons.IH [of "insert (a, b) E" p'] Cons.prems(2) False show ?thesis unfolding eq by (simp add: ab)
  qed
qed

definition members_at :: "(string, string set) dict \<Rightarrow> string \<Rightarrow> string set" where
  "members_at d r = (case map_of d r of Some m \<Rightarrow> m | None \<Rightarrow> {})"

lemma members_at_update: "members_at (AList.update k m d) r = (if r = k then m else members_at d r)"
  by (simp add: members_at_def)

lemma collect_members_roots:
  assumes "\<forall>x \<in> set ids. has_root (map_of p) x (rt x)" "dict_ok acc"
  shows "\<exists>res. collect_members ids p acc = Some res \<and> dict_ok res \<and>
     dom (map_of res) = dom (map_of acc) \<union> rt ` set ids \<and>
     (\<forall>r. members_at res r = members_at acc r \<union> {x \<in> set ids. rt x = r})"
  using assms
proof (induction ids arbitrary: p acc)
  case (Cons x ids)
  obtain q where q: "uf_find p x = Some (rt x, q)" "same_roots p q"
    using uf_find_root [of p x "rt x"] Cons.prems(1) by auto
  let ?acc = "AList.update (rt x) (insert x (members_at acc (rt x))) acc"
  have "\<forall>y \<in> set ids. has_root (map_of q) y (rt y)" using Cons.prems(1) q(2) by (simp add: same_roots_def)
  from Cons.IH [OF this dict_ok_update [OF Cons.prems(2)]]
  obtain res where res: "collect_members ids q ?acc = Some res" "dict_ok res"
    "dom (map_of res) = dom (map_of ?acc) \<union> rt ` set ids"
    "\<And>r. members_at res r = members_at ?acc r \<union> {x \<in> set ids. rt x = r}"
    by blast
  have "members_at res r = members_at acc r \<union> {y \<in> set (x # ids). rt y = r}" for r
    by (auto simp: res(4) members_at_update split: if_splits)
  moreover have "collect_members (x # ids) p acc = Some res" using res(1) q(1) by (simp add: members_at_def)
  ultimately show ?case using res(2,3) by auto
qed simp

lemma id_pairs_sorted:
  "sorted ids \<Longrightarrow> distinct ids \<Longrightarrow> set (id_pairs ids) = {(a, b). a \<in> set ids \<and> b \<in> set ids \<and> a < b}"
  by (induction ids) (auto simp: order_less_le)

definition cluster_ids :: "cluster_entry list \<Rightarrow> string set" where
  "cluster_ids clusters = {i. \<exists>c \<in> set clusters. cl_id c = Some i}"

lemma clusters_by_id_ids: "set (map fst (clusters_by_id clusters)) = cluster_ids clusters" "dict_ok (clusters_by_id clusters)"
proof -
  let ?f = "\<lambda>c d. case cl_id c of Some i \<Rightarrow> AList.update i c d | None \<Rightarrow> d"
  have keys: "set (map fst (fold ?f cs d)) = set (map fst d) \<union> cluster_ids cs" for cs d
  proof (induction cs arbitrary: d)
    case (Cons c cs)
    have "cluster_ids (c # cs) = (case cl_id c of Some i \<Rightarrow> {i} | None \<Rightarrow> {}) \<union> cluster_ids cs"
      by (auto simp: cluster_ids_def split: option.split)
    with Cons show ?case by (auto simp: dict_keys_update simp del: set_map split: option.split)
  qed (simp add: cluster_ids_def)
  have "dict_ok d \<Longrightarrow> dict_ok (fold ?f cs d)" for cs d
    by (induction cs arbitrary: d) (simp_all add: dict_ok_update split: option.split)
  from this [of "[]" clusters] keys [of clusters "[]"]
  show "set (map fst (clusters_by_id clusters)) = cluster_ids clusters" "dict_ok (clusters_by_id clusters)"
    by (simp_all add: clusters_by_id_def)
qed

text \<open>The pairs of clusters that share a signal, and the cluster ids linked to a given one.\<close>

definition signal_pairs :: "cluster_entry list \<Rightarrow> (string \<times> string) list \<Rightarrow> (string \<times> string) set" where
  "signal_pairs clusters fact_graph =
     {(a, b). a \<in> cluster_ids clusters \<and> b \<in> cluster_ids clusters \<and> a < b \<and>
        cluster_signals clusters fact_graph a b \<noteq> []}"

definition component :: "cluster_entry list \<Rightarrow> (string \<times> string) list \<Rightarrow> string \<Rightarrow> string set" where
  "component clusters fact_graph x =
     {y \<in> cluster_ids clusters. linked (signal_pairs clusters fact_graph) x y}"

lemma compute_unfold:
  assumes "clusters \<noteq> []"
  obtains ps and rt :: "string \<Rightarrow> string" and res where
    "HeuristicCandidates_compute clusters fact_graph = Some (map (make_group ps)
       (filter (\<lambda>m. \<not> card m < 2) (map (\<lambda>r. the (map_of res r)) (sort (map fst res)))))"
    "dict_ok res" "dom (map_of res) = rt ` cluster_ids clusters"
    "\<And>x. x \<in> cluster_ids clusters \<Longrightarrow> map_of res (rt x) = Some (component clusters fact_graph x)"
    "\<And>x y. x \<in> cluster_ids clusters \<Longrightarrow> y \<in> component clusters fact_graph x \<Longrightarrow> rt y = rt x"
proof -
  let ?ids = "sort (map fst (clusters_by_id clusters))" and ?V = "cluster_ids clusters"
  let ?sig = "cluster_signals clusters fact_graph" and ?E = "signal_pairs clusters fact_graph"
  have ids: "set ?ids = ?V" "distinct ?ids" using clusters_by_id_ids [of clusters] by simp_all
  have pairs: "set (id_pairs ?ids) = {(a, b). a \<in> ?V \<and> b \<in> ?V \<and> a < b}"
    using id_pairs_sorted [of ?ids] ids by simp
  have E: "joined ?sig (id_pairs ?ids) = ?E" unfolding joined_def pairs signal_pairs_def by auto
  have "uf_inv ?V {} (map (\<lambda>i. (i, i)) ?ids)" using uf_inv_init [of ?ids] ids(1) by simp
  from join_pairs_inv [OF this, of "id_pairs ?ids" ?sig "[]"] pairs E
  obtain p ps where p: "join_pairs ?sig (id_pairs ?ids) (map (\<lambda>i. (i, i)) ?ids, []) = Some (p, ps)"
    "uf_inv ?V ?E p" by auto
  obtain rt where rt: "\<forall>x \<in> ?V. has_root (map_of p) x (rt x)" using uf_inv_root [OF p(2)] by metis
  with ids(1) have "\<forall>x \<in> set ?ids. has_root (map_of p) x (rt x)" by blast
  from collect_members_roots [OF this, of "[]"] obtain res where res: "collect_members ?ids p [] = Some res" "dict_ok res"
    "dom (map_of res) = rt ` ?V" "\<And>r. members_at res r = {x \<in> ?V. rt x = r}"
    unfolding ids(1) by (auto simp: members_at_def)
  have "?E \<subseteq> ?V \<times> ?V" by (auto simp: signal_pairs_def)
  then have same: "rt y = rt x \<longleftrightarrow> linked ?E x y" if "x \<in> ?V" "y \<in> ?V" for x y
    using uf_inv_same_root [OF p(2)] rt that by metis
  have "map_of res (rt x) = Some (component clusters fact_graph x)" if x: "x \<in> ?V" for x
  proof -
    obtain m where m: "map_of res (rt x) = Some m" using x res(3) by blast
    then have "m = {y \<in> ?V. rt y = rt x}" using res(4) [of "rt x"] by (simp add: members_at_def)
    with m same [OF x] show ?thesis by (auto simp: component_def)
  qed
  then show thesis using assms p(1) res(1,2,3)
    by (intro that [of ps res rt]) (simp_all add: HeuristicCandidates_compute_def same component_def)
qed

lemma compute_total: "\<exists>groups. HeuristicCandidates_compute clusters fact_graph = Some groups"
proof (cases "clusters = []")
  case True
  then show ?thesis by (simp add: HeuristicCandidates_compute_def)
next
  case False
  show ?thesis by (rule compute_unfold [OF False, of fact_graph]) blast
qed

text \<open>
  Property C13. The candidate computation always terminates, and its groups are exactly the
  connected components, with at least two members, of the graph that joins two clusters when they
  share a signal (a common title prefix, overlapping entities or co-citations); no component is
  listed twice.
\<close>

theorem heuristic_groups_are_components:
  "\<exists>groups. HeuristicCandidates_compute clusters fact_graph = Some groups \<and>
     set (map hg_cluster_ids groups) = {C. \<exists>x \<in> cluster_ids clusters. C = component clusters fact_graph x \<and> 2 \<le> card C} \<and>
     distinct (map hg_cluster_ids groups)"
proof (cases "clusters = []")
  case True
  then show ?thesis by (simp add: HeuristicCandidates_compute_def cluster_ids_def)
next
  case False
  let ?C = "component clusters fact_graph" and ?V = "cluster_ids clusters"
  show ?thesis
  proof (rule compute_unfold [OF False, of fact_graph])
    fix ps and rt :: "string \<Rightarrow> string" and res
    assume c: "HeuristicCandidates_compute clusters fact_graph = Some (map (make_group ps)
         (filter (\<lambda>m. \<not> card m < 2) (map (\<lambda>r. the (map_of res r)) (sort (map fst res)))))"
      "dict_ok res" "dom (map_of res) = rt ` ?V" "\<And>x. x \<in> ?V \<Longrightarrow> map_of res (rt x) = Some (?C x)"
      "\<And>x y. x \<in> ?V \<Longrightarrow> y \<in> ?C x \<Longrightarrow> rt y = rt x"
    have keys: "set (sort (map fst res)) = rt ` ?V" using c(3) by (simp add: dom_map_of_conv_image_fst)
    have groups: "map hg_cluster_ids (map (make_group ps) ms) = ms" for ms
      by (simp add: make_group_def comp_def)
    have self: "x \<in> ?C x" if "x \<in> ?V" for x using that by (simp add: component_def linked_refl)
    have "inj_on (\<lambda>r. the (map_of res r)) (rt ` ?V)"
    proof (rule inj_onI)
      fix r s
      assume "r \<in> rt ` ?V" "s \<in> rt ` ?V" "the (map_of res r) = the (map_of res s)"
      then obtain x y where xy: "x \<in> ?V" "r = rt x" "y \<in> ?V" "s = rt y" "?C x = ?C y" using c(4) by auto
      then show "r = s" using self [of y] c(5) [of x y] by simp
    qed
    then have "distinct (map (\<lambda>r. the (map_of res r)) (sort (map fst res)))"
      unfolding distinct_map keys using c(2) by simp
    then have "distinct (filter (\<lambda>m. \<not> card m < 2) (map (\<lambda>r. the (map_of res r)) (sort (map fst res))))" (is "distinct ?ms")
      by (rule distinct_filter)
    moreover have "set (map (\<lambda>r. the (map_of res r)) (sort (map fst res))) = ?C ` ?V"
      unfolding set_map keys image_image using c(4) by auto
    then have "set ?ms = {C. \<exists>x \<in> ?V. C = ?C x \<and> 2 \<le> card C}" unfolding set_filter by auto
    ultimately show ?thesis
      by (intro exI [of _ "map (make_group ps) ?ms"]) (simp only: c(1) groups simp_thms)
  qed
qed

definition bare_cluster :: "string \<Rightarrow> cluster_entry" where
  "bare_cluster i = \<lparr>cl_id = Some i, cl_slug = None, cl_title = None, cl_key_entities = None,
     cl_depth = None, cl_fact_count = None, cl_member_count = None\<rparr>"

text \<open>
  The groups come in the order of their union-find roots, which is not the order of
  their least cluster id: clusters 1 to 5 with co-citations 1-5, 4-5 and 2-3 give the group of 2
  before the group of 1.
\<close>

theorem heuristic_order_by_root:
  "map_option (map hg_cluster_ids) (HeuristicCandidates_compute (map bare_cluster [''1'', ''2'', ''3'', ''4'', ''5''])
     (replicate 5 (''1'', ''5'') @ replicate 5 (''4'', ''5'') @ replicate 5 (''2'', ''3'')))
   = Some [{''2'', ''3''}, {''1'', ''4'', ''5''}]"
  by code_simp

end
