(* ===== verification/Structure_Validator.thy ===== *)
theory Structure_Validator
  imports Atlas_Prelude
begin

text \<open>
  The determinism repair of \<^verbatim>\<open>wiki/structure/validator.py\<close>: placement of every cluster, slug
  uniqueness, the cycle check and the depth cap of a planned folder structure. A raise is a value
  of \<open>plan_reason\<close>, named after the stable reason code; the human-readable detail is left out.
\<close>

section \<open>Model\<close>

record PlannedFolder =
  pf_slug :: string
  pf_title :: string
  pf_child_slugs :: "string list"
  pf_rationale :: string

datatype plan_reason =
    Folder_slug_missing | Folder_slug_duplicate | Slug_collision | Cluster_duplicate
  | Cluster_orphan | Cluster_unknown | Cycle_detected | Depth_exceeded

primrec reason_code :: "plan_reason \<Rightarrow> string" where
  "reason_code Folder_slug_missing = ''folder_slug_missing''"
| "reason_code Folder_slug_duplicate = ''folder_slug_duplicate''"
| "reason_code Slug_collision = ''slug_collision''"
| "reason_code Cluster_duplicate = ''cluster_duplicate''"
| "reason_code Cluster_orphan = ''cluster_orphan''"
| "reason_code Cluster_unknown = ''cluster_unknown''"
| "reason_code Cycle_detected = ''cycle_detected''"
| "reason_code Depth_exceeded = ''depth_exceeded''"

definition MAX_DEPTH :: nat where
  "MAX_DEPTH = 4"

text \<open>
  Pass 1. Only the keys of \<^verbatim>\<open>placed\<close> matter to the control flow (the values go into messages), so
  it is the list of the slugs placed so far, in order.
\<close>

fun place_slugs :: "string list \<Rightarrow> string list \<Rightarrow> plan_reason + string list" where
  "place_slugs [] placed = Inr placed"
| "place_slugs (child # children) placed =
     (if child \<in> set placed then Inl Cluster_duplicate else place_slugs children (placed @ [child]))"

fun place_folders ::
    "string set \<Rightarrow> PlannedFolder list \<Rightarrow> string list \<times> string list \<Rightarrow> plan_reason + (string list \<times> string list)" where
  "place_folders expected [] (folder_slugs, placed) = Inr (folder_slugs, placed)"
| "place_folders expected (f # fs) (folder_slugs, placed) =
     (if pf_slug f = [] then Inl Folder_slug_missing
      else if pf_slug f \<in> set folder_slugs then Inl Folder_slug_duplicate
      else if pf_slug f \<in> expected then Inl Slug_collision
      else case place_slugs (pf_child_slugs f) placed of
             Inl e \<Rightarrow> Inl e
           | Inr placed' \<Rightarrow> place_folders expected fs (folder_slugs @ [pf_slug f], placed'))"

text \<open>Passes 3 and 4 work on the dictionary from folder slug to child slugs.\<close>

type_synonym folder_children = "(string, string list) dict"

definition folder_children_of :: "PlannedFolder list \<Rightarrow> folder_children" where
  "folder_children_of folders = fold (\<lambda>f d. AList.update (pf_slug f) (pf_child_slugs f) d) folders []"

definition children_of :: "folder_children \<Rightarrow> string \<Rightarrow> string list" where
  "children_of fc node = (case map_of fc node of Some cs \<Rightarrow> cs | None \<Rightarrow> [])"

definition is_folder :: "folder_children \<Rightarrow> string \<Rightarrow> bool" where
  "is_folder fc c \<longleftrightarrow> c \<in> set (map fst fc)"

lemma children_of_folder: "children_of fc node \<noteq> [] \<Longrightarrow> is_folder fc node"
  by (auto simp: children_of_def is_folder_def split: option.splits dest: map_of_SomeD)
    (force dest: map_of_SomeD)

text \<open>\<^verbatim>\<open>_walk\<close>: the depth of the subtree under a folder, or the cycle error.\<close>

function (sequential) walk :: "folder_children \<Rightarrow> string \<Rightarrow> string list \<Rightarrow> plan_reason + nat"
  and walk_children :: "folder_children \<Rightarrow> string list \<Rightarrow> string list \<Rightarrow> nat \<Rightarrow> plan_reason + nat" where
  "walk fc node ancestors =
     (if node \<in> set ancestors then Inl Cycle_detected
      else if children_of fc node = [] then Inr 1
      else case walk_children fc (ancestors @ [node]) (children_of fc node) 0 of
             Inl e \<Rightarrow> Inl e
           | Inr max_child \<Rightarrow> Inr (1 + max_child))"
| "walk_children fc path [] max_child = Inr max_child"
| "walk_children fc path (c # cs) max_child =
     (if is_folder fc c
      then case walk fc c path of
             Inl e \<Rightarrow> Inl e
           | Inr d \<Rightarrow> walk_children fc path cs (if d > max_child then d else max_child)
      else walk_children fc path cs max_child)"
  by pat_completeness auto
termination
proof (relation "measures
    [\<lambda>x. case x of Inl (fc, node, anc) \<Rightarrow> card (set (map fst fc) - set anc)
                 | Inr (fc, path, cs, m) \<Rightarrow> card (set (map fst fc) - set path),
     \<lambda>x. case x of Inl _ \<Rightarrow> 0 | Inr (fc, path, cs, m) \<Rightarrow> Suc (length cs)]", goal_cases)
  case (2 fc node anc)
  then have "node \<in> set (map fst fc) - set anc"
    using children_of_folder by (auto simp: is_folder_def)
  then have "card (set (map fst fc) - set (anc @ [node])) < card (set (map fst fc) - set anc)"
    by (intro psubset_card_mono) auto
  then show ?case by simp
qed auto

declare walk.simps [simp del]

text \<open>
  \<^verbatim>\<open>_collect_reachable\<close>: the recursion with the shared \<^verbatim>\<open>visited\<close> set, as a loop over the stack of
  pending calls.
\<close>

function collect_reachable :: "folder_children \<Rightarrow> string list \<Rightarrow> string list \<Rightarrow> string list" where
  "collect_reachable fc [] visited = visited"
| "collect_reachable fc (node # pending) visited =
     (if node \<in> set visited then collect_reachable fc pending visited
      else collect_reachable fc (filter (is_folder fc) (children_of fc node) @ pending) (visited @ [node]))"
  by pat_completeness auto
termination
proof (relation "measures
    [\<lambda>(fc, pending, visited). card (set (map fst fc) - set visited), \<lambda>(fc, pending, visited). length pending]",
    goal_cases)
  case (3 fc node pending visited)
  show ?case
  proof (cases "is_folder fc node")
    case True
    then have "card (set (map fst fc) - set (visited @ [node])) < card (set (map fst fc) - set visited)"
      using 3 by (intro psubset_card_mono) (auto simp: is_folder_def)
    then show ?thesis by simp
  next
    case False
    then have "children_of fc node = []" using children_of_folder by blast
    moreover have "card (set (map fst fc) - set (visited @ [node])) \<le> card (set (map fst fc) - set visited)"
      by (intro card_mono) auto
    ultimately show ?thesis by auto
  qed
qed auto

declare collect_reachable.simps [simp del]

definition referenced_as_child :: "folder_children \<Rightarrow> string list" where
  "referenced_as_child fc = concat (map snd fc)"

definition folder_roots :: "folder_children \<Rightarrow> string list" where
  "folder_roots fc = filter (\<lambda>s. s \<notin> set (referenced_as_child fc)) (map fst fc)"

text \<open>The depth pass over the roots, then the cycle sweep over the folders it did not visit.\<close>

fun depth_pass :: "folder_children \<Rightarrow> string list \<Rightarrow> nat \<Rightarrow> plan_reason + nat" where
  "depth_pass fc [] max_depth = Inr max_depth"
| "depth_pass fc (r # roots) max_depth =
     (case walk fc r [] of
        Inl e \<Rightarrow> Inl e
      | Inr d \<Rightarrow> depth_pass fc roots (if d + 1 > max_depth then d + 1 else max_depth))"

fun cycle_sweep :: "folder_children \<Rightarrow> string list \<Rightarrow> plan_reason + unit" where
  "cycle_sweep fc [] = Inr ()"
| "cycle_sweep fc (slug # slugs) =
     (case walk fc slug [] of Inl e \<Rightarrow> Inl e | Inr _ \<Rightarrow> cycle_sweep fc slugs)"

definition validate_plan :: "PlannedFolder list \<Rightarrow> string list \<Rightarrow> string set \<Rightarrow> plan_reason option" where
  "validate_plan folders leaves expected =
     (case place_folders expected folders ([], []) of
        Inl e \<Rightarrow> Some e
      | Inr (folder_slugs, placed1) \<Rightarrow>
     (case place_slugs leaves placed1 of
        Inl e \<Rightarrow> Some e
      | Inr placed \<Rightarrow>
          if \<not> expected \<subseteq> set placed then Some Cluster_orphan
          else if \<not> set placed \<subseteq> expected \<union> set folder_slugs then Some Cluster_unknown
          else
            let fc = folder_children_of folders; roots = folder_roots fc in
            case depth_pass fc roots 1 of
              Inl e \<Rightarrow> Some e
            | Inr max_depth \<Rightarrow>
                let visited = fold (\<lambda>r. collect_reachable fc [r]) roots [] in
                case cycle_sweep fc (filter (\<lambda>s. s \<notin> set visited) (map fst fc)) of
                  Inl e \<Rightarrow> Some e
                | Inr _ \<Rightarrow> if max_depth > MAX_DEPTH then Some Depth_exceeded else None))"

section \<open>Specification\<close>

text \<open>Chains of folders, each a child of the one before.\<close>

definition folder_edge :: "folder_children \<Rightarrow> string \<Rightarrow> string \<Rightarrow> bool" where
  "folder_edge fc f c \<longleftrightarrow> c \<in> set (children_of fc f) \<and> is_folder fc c"

fun folder_path :: "folder_children \<Rightarrow> string list \<Rightarrow> bool" where
  "folder_path fc [] = False"
| "folder_path fc [n] = is_folder fc n"
| "folder_path fc (n # m # p) = (folder_edge fc n m \<and> folder_path fc (m # p))"

definition placed_slugs :: "PlannedFolder list \<Rightarrow> string list \<Rightarrow> string list" where
  "placed_slugs folders leaves = concat (map pf_child_slugs folders) @ leaves"

definition placement_ok :: "PlannedFolder list \<Rightarrow> string list \<Rightarrow> string set \<Rightarrow> bool" where
  "placement_ok folders leaves expected \<longleftrightarrow>
     [] \<notin> set (map pf_slug folders) \<and> distinct (map pf_slug folders) \<and>
     set (map pf_slug folders) \<inter> expected = {} \<and>
     distinct (placed_slugs folders leaves) \<and> expected \<subseteq> set (placed_slugs folders leaves) \<and>
     set (placed_slugs folders leaves) \<subseteq> expected \<union> set (map pf_slug folders)"

definition has_cycle :: "folder_children \<Rightarrow> bool" where
  "has_cycle fc \<longleftrightarrow> (\<exists>n ys. folder_path fc (n # ys @ [n]))"

section \<open>Placement\<close>

lemma place_slugs_Inr:
  "place_slugs xs placed = Inr placed' \<longleftrightarrow>
     distinct xs \<and> set xs \<inter> set placed = {} \<and> placed' = placed @ xs"
  by (induction xs arbitrary: placed) auto

lemma place_folders_Inr:
  "place_folders expected fs (ss, pl) = Inr (ss', pl') \<longleftrightarrow>
     [] \<notin> set (map pf_slug fs) \<and> distinct (map pf_slug fs) \<and>
     set (map pf_slug fs) \<inter> set ss = {} \<and> set (map pf_slug fs) \<inter> expected = {} \<and>
     distinct (concat (map pf_child_slugs fs)) \<and> set (concat (map pf_child_slugs fs)) \<inter> set pl = {} \<and>
     ss' = ss @ map pf_slug fs \<and> pl' = pl @ concat (map pf_child_slugs fs)"
proof (induction fs arbitrary: ss pl)
  case (Cons f fs)
  show ?case
  proof (cases "place_slugs (pf_child_slugs f) pl")
    case (Inl e)
    then have "\<not> (distinct (pf_child_slugs f) \<and> set (pf_child_slugs f) \<inter> set pl = {})"
      using place_slugs_Inr by (metis sum.distinct(1))
    with Inl show ?thesis by auto
  next
    case (Inr pl1)
    then have "distinct (pf_child_slugs f)" "set (pf_child_slugs f) \<inter> set pl = {}"
        "pl1 = pl @ pf_child_slugs f"
      by (simp_all add: place_slugs_Inr)
    with Inr show ?thesis by (auto simp: Cons.IH)
  qed
qed auto

lemma placement_checks:
  "(\<exists>ss pl. place_folders expected folders ([], []) = Inr (ss, pl) \<and>
      (\<exists>placed. place_slugs leaves pl = Inr placed \<and> expected \<subseteq> set placed \<and>
         set placed \<subseteq> expected \<union> set ss))
   \<longleftrightarrow> placement_ok folders leaves expected"
  by (auto simp: place_folders_Inr place_slugs_Inr placement_ok_def placed_slugs_def)

section \<open>Paths\<close>

lemma folder_edge_source: "folder_edge fc n m \<Longrightarrow> is_folder fc n"
  unfolding folder_edge_def by (rule children_of_folder) auto

lemma folder_path_append:
  "folder_path fc (xs @ n # ys) \<longleftrightarrow> folder_path fc (xs @ [n]) \<and> folder_path fc (n # ys)"
proof (induction xs)
  case Nil
  show ?case by (cases ys) (auto dest: folder_edge_source)
next
  case (Cons x xs)
  then show ?case by (cases xs) auto
qed

lemma folder_path_prefix: "folder_path fc (xs @ n # ys) \<Longrightarrow> folder_path fc (xs @ [n])"
  and folder_path_suffix: "folder_path fc (xs @ n # ys) \<Longrightarrow> folder_path fc (n # ys)"
  using folder_path_append by blast+

lemma folder_path_is_folder: "folder_path fc p \<Longrightarrow> n \<in> set p \<Longrightarrow> is_folder fc n"
proof (induction fc p rule: folder_path.induct)
  case (3 fc a m p)
  then show ?case by (auto dest: folder_edge_source)
qed auto

lemma no_cycle_distinct: "folder_path fc p \<Longrightarrow> \<not> has_cycle fc \<Longrightarrow> distinct p"
proof (rule ccontr)
  assume path: "folder_path fc p" and acyclic: "\<not> has_cycle fc" and "\<not> distinct p"
  then obtain xs ys zs n where "p = xs @ [n] @ ys @ [n] @ zs" using not_distinct_decomp by blast
  then have "folder_path fc (xs @ n # (ys @ n # zs))" using path by simp
  then have "folder_path fc ((n # ys) @ n # zs)" by (auto dest: folder_path_suffix)
  then have "folder_path fc ((n # ys) @ [n])" by (rule folder_path_prefix)
  with acyclic show False by (auto simp: has_cycle_def)
qed

lemma cycle_pumps: "has_cycle fc \<Longrightarrow> \<exists>n p. folder_path fc (n # p @ [n]) \<and> k \<le> length p"
proof (induction k)
  case 0
  then show ?case by (auto simp: has_cycle_def)
next
  case (Suc k)
  then obtain n p where p: "folder_path fc (n # p @ [n])" "k \<le> length p" by blast
  then have "folder_path fc ((n # p) @ n # (p @ [n]))"
    using folder_path_append [of fc "n # p" n "p @ [n]"] by simp
  then show ?case using p(2) by (intro exI [of _ n] exI [of _ "p @ n # p"]) simp
qed

lemma bounded_no_cycle: "(\<And>p. folder_path fc p \<Longrightarrow> length p \<le> b) \<Longrightarrow> \<not> has_cycle fc"
  using cycle_pumps [of fc b] by fastforce

section \<open>Walks\<close>

lemma walk_children_Inr:
  "walk_children fc path cs m = Inr r \<Longrightarrow>
     m \<le> r \<and> (\<forall>c \<in> set cs. is_folder fc c \<longrightarrow> (\<exists>d \<le> r. walk fc c path = Inr d)) \<and>
     (r = m \<or> (\<exists>c \<in> set cs. is_folder fc c \<and> walk fc c path = Inr r))"
proof (induction cs arbitrary: m)
  case (Cons c cs)
  show ?case
  proof (cases "is_folder fc c")
    case True
    then obtain d where d: "walk fc c path = Inr d" "walk_children fc path cs (max d m) = Inr r"
      using Cons.prems by (auto simp: max_def split: sum.splits if_splits)
    from Cons.IH [OF d(2)] d(1) True show ?thesis by (auto simp: max_def split: if_splits)
  next
    case False
    with Cons show ?thesis by auto
  qed
qed simp

lemma walk_children_Inl:
  "walk_children fc path cs m = Inl e \<Longrightarrow> \<exists>c \<in> set cs. is_folder fc c \<and> walk fc c path = Inl e"
  by (induction cs arbitrary: m) (auto split: if_splits sum.splits)

lemma walk_bounds_paths:
  "folder_path fc (n # p) \<Longrightarrow> walk fc n anc = Inr d \<Longrightarrow> length (n # p) \<le> d"
proof (induction p arbitrary: n anc d)
  case Nil
  then show ?case by (auto simp: walk.simps [of fc n] split: if_splits sum.splits)
next
  case (Cons m p)
  then have m: "m \<in> set (children_of fc n)" "is_folder fc m" by (auto simp: folder_edge_def)
  then obtain mx where mx: "walk_children fc (anc @ [n]) (children_of fc n) 0 = Inr mx" "d = 1 + mx"
    using Cons.prems(2) by (auto simp: walk.simps [of fc n] split: if_splits sum.splits)
  from walk_children_Inr [OF mx(1)] m obtain d' where "d' \<le> mx" "walk fc m (anc @ [n]) = Inr d'"
    by blast
  with Cons.IH [of m "anc @ [n]" d'] Cons.prems(1) mx(2) show ?case by simp
qed

lemma walk_depth_attained:
  "walk fc n anc = Inr d \<Longrightarrow> is_folder fc n \<Longrightarrow> \<exists>p. folder_path fc (n # p) \<and> length (n # p) = d"
proof (induction d arbitrary: n anc)
  case 0
  then show ?case by (auto simp: walk.simps [of fc n] split: if_splits sum.splits)
next
  case (Suc d)
  then have "children_of fc n = [] \<and> d = 0 \<or> walk_children fc (anc @ [n]) (children_of fc n) 0 = Inr d"
    by (auto simp: walk.simps [of fc n] split: if_splits sum.splits)
  then consider "d = 0" | c where "c \<in> set (children_of fc n)" "is_folder fc c" "walk fc c (anc @ [n]) = Inr d"
    using walk_children_Inr by blast
  then show ?case
  proof cases
    case 1
    then show ?thesis using Suc.prems by (intro exI [of _ "[]"]) simp
  next
    case 2
    from Suc.IH [OF 2(3,2)] obtain p where "folder_path fc (c # p)" "length (c # p) = d" by blast
    with 2 show ?thesis by (intro exI [of _ "c # p"]) (simp add: folder_edge_def)
  qed
qed

lemma walk_error_cycle:
  "folder_path fc (anc @ [n]) \<longrightarrow> walk fc n anc = Inl e \<longrightarrow> has_cycle fc"
  "path \<noteq> [] \<longrightarrow> folder_path fc path \<longrightarrow> set cs \<subseteq> set (children_of fc (last path)) \<longrightarrow>
     walk_children fc path cs m = Inl e \<longrightarrow> has_cycle fc"
proof (induction fc n anc and fc path cs m rule: walk_walk_children.induct)
  case (1 fc n anc)
  show ?case
  proof (intro impI)
    assume path: "folder_path fc (anc @ [n])" and err: "walk fc n anc = Inl e"
    show "has_cycle fc"
    proof (cases "n \<in> set anc")
      case True
      then obtain xs ys where "anc = xs @ n # ys" by (auto simp: in_set_conv_decomp)
      then have "folder_path fc (xs @ n # (ys @ [n]))" using path by simp
      then have "folder_path fc (n # (ys @ [n]))" by (rule folder_path_suffix)
      then show ?thesis by (auto simp: has_cycle_def)
    next
      case False
      then show ?thesis using 1 path err
        by (auto simp: walk.simps [of fc n] split: if_splits sum.splits)
    qed
  qed
next
  case (3 fc path c cs m)
  have "folder_path fc (path @ [c])"
    if "path \<noteq> []" "folder_path fc path" "c \<in> set (children_of fc (last path))" "is_folder fc c"
  proof -
    have "folder_path fc (butlast path @ last path # [c])"
      using that folder_path_append [of fc "butlast path" "last path" "[c]"]
      by (simp add: folder_edge_def)
    moreover have "butlast path @ [last path, c] = path @ [c]"
      using append_butlast_last_id [OF that(1)] by (metis append.assoc append_Cons append_Nil)
    ultimately show ?thesis by simp
  qed
  with 3 show ?case by (auto split: if_splits sum.splits)
qed simp

corollary walk_total: "is_folder fc n \<Longrightarrow> \<not> has_cycle fc \<Longrightarrow> \<exists>d. walk fc n [] = Inr d"
  using walk_error_cycle(1) [of fc "[]" n] by (cases "walk fc n []") auto

section \<open>Roots\<close>

lemma dict_ok_folder_children: "dict_ok (folder_children_of folders)"
proof -
  have "dict_ok d \<Longrightarrow> dict_ok (fold (\<lambda>f d. AList.update (pf_slug f) (pf_child_slugs f) d) fs d)" for fs d
    by (induction fs arbitrary: d) (simp_all add: dict_ok_update)
  from this [of "[]" folders] show ?thesis by (simp add: folder_children_of_def)
qed

lemma folder_roots_folder: "r \<in> set (folder_roots fc) \<Longrightarrow> is_folder fc r"
  by (auto simp: folder_roots_def is_folder_def)

lemma non_root_has_parent:
  assumes "dict_ok fc" "is_folder fc n" "n \<notin> set (folder_roots fc)"
  shows "\<exists>m. folder_edge fc m n"
proof -
  from assms(2,3) obtain m cs where "(m, cs) \<in> set fc" "n \<in> set cs"
    by (auto simp: folder_roots_def is_folder_def referenced_as_child_def)
  with assms(1,2) show ?thesis by (intro exI [of _ m]) (simp add: folder_edge_def children_of_def)
qed

lemma no_cycle_path_length:
  assumes "folder_path fc p" "\<not> has_cycle fc"
  shows "length p \<le> card (set (map fst fc))"
proof -
  have "set p \<subseteq> set (map fst fc)" using folder_path_is_folder [OF assms(1)] by (auto simp: is_folder_def)
  then have "card (set p) \<le> card (set (map fst fc))" by (intro card_mono) auto
  then show ?thesis using distinct_card no_cycle_distinct [OF assms] by metis
qed

lemma path_from_root:
  assumes "dict_ok fc" "\<not> has_cycle fc" "folder_path fc p"
  shows "\<exists>r q. r \<in> set (folder_roots fc) \<and> folder_path fc (r # q) \<and> length p \<le> length (r # q)"
  using assms(3)
proof (induction "card (set (map fst fc)) - length p" arbitrary: p rule: less_induct)
  case less
  then obtain n q where p: "p = n # q" by (cases p) auto
  show ?case
  proof (cases "n \<in> set (folder_roots fc)")
    case True
    with less.prems p show ?thesis by blast
  next
    case False
    have "is_folder fc n" using folder_path_is_folder [OF less.prems] p by simp
    with non_root_has_parent [OF assms(1) _ False] obtain m where "folder_edge fc m n" by blast
    then have path: "folder_path fc (m # p)" using less.prems p by simp
    then have "length (m # p) \<le> card (set (map fst fc))" using no_cycle_path_length assms(2) by blast
    then have "card (set (map fst fc)) - length (m # p) < card (set (map fst fc)) - length p" by simp
    from less.hyps [OF this path] show ?thesis by (metis Suc_leD length_Cons)
  qed
qed

lemma collect_reachable_sound:
  "x \<in> set (collect_reachable fc pending visited) \<Longrightarrow> \<forall>n \<in> set pending. is_folder fc n \<Longrightarrow>
     x \<in> set visited \<or> (\<exists>n \<in> set pending. \<exists>p. folder_path fc (n # p) \<and> last (n # p) = x)"
proof (induction fc pending visited rule: collect_reachable.induct)
  case (2 fc node pending visited)
  show ?case
  proof (cases "node \<in> set visited")
    case True
    from 2(3) True have "x \<in> set (collect_reachable fc pending visited)"
      by (simp add: collect_reachable.simps(2))
    from "2.IH"(1) [OF True this] 2(4) show ?thesis by (simp only: list.set) blast
  next
    case False
    have folder: "is_folder fc node" using 2(4) by simp
    have extend: "\<exists>p. folder_path fc (node # p) \<and> last (node # p) = x"
      if "c \<in> set (children_of fc node)" "folder_path fc (c # p)" "last (c # p) = x" "is_folder fc c" for c p
      using that by (intro exI [of _ "c # p"]) (simp add: folder_edge_def)
    have here: "\<exists>p. folder_path fc (node # p) \<and> last (node # p) = node"
      using folder by (intro exI [of _ "[]"]) simp
    have "x \<in> set (visited @ [node]) \<or>
        (\<exists>n \<in> set (filter (is_folder fc) (children_of fc node) @ pending).
           \<exists>p. folder_path fc (n # p) \<and> last (n # p) = x)"
      using 2(3,4) False by (intro "2.IH"(2)) (simp_all add: collect_reachable.simps(2) ball_Un)
    then consider "x \<in> set visited" | "x = node"
      | c p where "c \<in> set (children_of fc node)" "is_folder fc c" "folder_path fc (c # p)" "last (c # p) = x"
      | "\<exists>n \<in> set pending. \<exists>p. folder_path fc (n # p) \<and> last (n # p) = x"
      by (auto simp del: folder_path.simps last.simps)
    then show ?thesis
    proof cases
      case 2
      with here show ?thesis by (simp only: list.set) blast
    next
      case 3
      from extend [OF 3(1,3,4,2)] show ?thesis by (simp only: list.set) blast
    qed (simp_all only: list.set, blast+)
  qed
qed (simp add: collect_reachable.simps)

lemma visited_via_roots_sound:
  "x \<in> set (fold (\<lambda>r. collect_reachable fc [r]) rs visited) \<Longrightarrow> \<forall>r \<in> set rs. is_folder fc r \<Longrightarrow>
     x \<in> set visited \<or> (\<exists>r \<in> set rs. \<exists>p. folder_path fc (r # p) \<and> last (r # p) = x)"
proof (induction rs arbitrary: visited)
  case (Cons r rs)
  from Cons.IH [of "collect_reachable fc [r] visited"] Cons.prems
  consider "x \<in> set (collect_reachable fc [r] visited)"
    | "\<exists>r \<in> set rs. \<exists>p. folder_path fc (r # p) \<and> last (r # p) = x" by auto
  then show ?case
  proof cases
    case 1
    from collect_reachable_sound [OF this] Cons.prems(2) show ?thesis by auto
  qed auto
qed simp

section \<open>The depth pass and the cycle sweep\<close>

lemma depth_pass_Inr:
  "depth_pass fc roots m = Inr r \<Longrightarrow>
     m \<le> r \<and> (\<forall>n \<in> set roots. \<exists>d. walk fc n [] = Inr d \<and> d + 1 \<le> r)
     \<and> (r = m \<or> (\<exists>n \<in> set roots. \<exists>d. walk fc n [] = Inr d \<and> r = d + 1))"
proof (induction roots arbitrary: m)
  case (Cons n roots)
  then obtain d where d: "walk fc n [] = Inr d" "depth_pass fc roots (max (d + 1) m) = Inr r"
    by (auto simp: max_def split: sum.splits if_splits)
  from Cons.IH [OF d(2)] d(1) show ?case by (auto simp: max_def split: if_splits)
qed simp

lemma depth_pass_total:
  "\<forall>n \<in> set roots. \<exists>d. walk fc n [] = Inr d \<Longrightarrow> \<exists>r. depth_pass fc roots m = Inr r"
  by (induction roots arbitrary: m) (auto simp: Let_def)

lemma cycle_sweep_Inr:
  "cycle_sweep fc slugs = Inr () \<longleftrightarrow> (\<forall>n \<in> set slugs. \<exists>d. walk fc n [] = Inr d)"
  by (induction slugs) (auto split: sum.splits)

text \<open>A folder the walk succeeds on reaches no cycle, since a cycle makes paths of any length.\<close>

lemma walk_excludes_cycle:
  assumes "walk fc r [] = Inr d" "folder_path fc (r # p)" "last (r # p) = n" "folder_path fc (n # ys @ [n])"
  shows False
proof -
  have pump: "\<exists>q. folder_path fc (n # q) \<and> k \<le> length q" for k
  proof (induction k)
    case 0
    then show ?case using assms(4) by auto
  next
    case (Suc k)
    then obtain q where q: "folder_path fc (n # q)" "k \<le> length q" by blast
    then have "folder_path fc ((n # ys) @ n # q)"
      using folder_path_append [of fc "n # ys" n q] assms(4) by simp
    then show ?case using q(2) by (intro exI [of _ "ys @ n # q"]) simp
  qed
  then obtain q where q: "folder_path fc (n # q)" "d \<le> length q" by blast
  have "r # p = butlast (r # p) @ [n]" using assms(3) append_butlast_last_id [of "r # p"] by simp
  then have path: "folder_path fc (butlast (r # p) @ n # q)"
    using folder_path_append [of fc "butlast (r # p)" n q] assms(2) q(1) by simp
  have len: "d < length (butlast (r # p) @ n # q)" using q(2) by simp
  have "butlast (r # p) @ n # q = r # tl (butlast (r # p) @ n # q)"
    using assms(3) by (cases p) auto
  with path len walk_bounds_paths [OF _ assms(1)] show False by (metis not_le)
qed

lemma passes_exclude_cycles:
  assumes "dict_ok fc" "depth_pass fc (folder_roots fc) 1 = Inr r"
    and "cycle_sweep fc (filter (\<lambda>s. s \<notin> set (fold (\<lambda>r. collect_reachable fc [r]) (folder_roots fc) [])) (map fst fc))
           = Inr ()" (is "cycle_sweep fc (filter (\<lambda>s. s \<notin> ?visited) _) = _")
  shows "\<not> has_cycle fc"
proof
  assume "has_cycle fc"
  then obtain n ys where cyc: "folder_path fc (n # ys @ [n])" by (auto simp: has_cycle_def)
  then have n: "is_folder fc n" using folder_path_is_folder by fastforce
  show False
  proof (cases "n \<in> ?visited")
    case True
    then obtain rt p where rt: "rt \<in> set (folder_roots fc)" "folder_path fc (rt # p)" "last (rt # p) = n"
      using visited_via_roots_sound [of n fc "folder_roots fc" "[]"] folder_roots_folder by auto
    then obtain d where "walk fc rt [] = Inr d" using depth_pass_Inr [OF assms(2)] by blast
    from walk_excludes_cycle [OF this rt(2,3) cyc] show False .
  next
    case False
    then obtain d where "walk fc n [] = Inr d"
      using assms(3) n by (auto simp: cycle_sweep_Inr is_folder_def)
    from walk_excludes_cycle [OF this _ _ cyc, of "[]"] n show False by simp
  qed
qed

lemma passes_characterised:
  assumes "dict_ok fc"
  shows "(\<exists>r. depth_pass fc (folder_roots fc) 1 = Inr r \<and>
      cycle_sweep fc (filter (\<lambda>s. s \<notin> set (fold (\<lambda>r. collect_reachable fc [r]) (folder_roots fc) [])) (map fst fc))
        = Inr () \<and> r \<le> MAX_DEPTH)
    \<longleftrightarrow> (\<forall>p. folder_path fc p \<longrightarrow> length p < MAX_DEPTH)" (is "?L \<longleftrightarrow> ?R")
proof
  assume ?L
  then obtain r where r: "depth_pass fc (folder_roots fc) 1 = Inr r" "r \<le> MAX_DEPTH" "\<not> has_cycle fc"
    using passes_exclude_cycles [OF assms] by blast
  show ?R
  proof (intro allI impI)
    fix p
    assume "folder_path fc p"
    then obtain rt q where q: "rt \<in> set (folder_roots fc)" "folder_path fc (rt # q)" "length p \<le> length (rt # q)"
      using path_from_root [OF assms r(3)] by blast
    moreover obtain d where "walk fc rt [] = Inr d" "d + 1 \<le> r" using depth_pass_Inr [OF r(1)] q(1) by blast
    ultimately show "length p < MAX_DEPTH" using walk_bounds_paths [OF q(2)] r(2) by fastforce
  qed
next
  assume bounded: ?R
  then have acyclic: "\<not> has_cycle fc" using bounded_no_cycle by (meson less_imp_le)
  from depth_pass_total obtain r where r: "depth_pass fc (folder_roots fc) 1 = Inr r"
    using walk_total [OF folder_roots_folder acyclic] by blast
  have "r \<le> MAX_DEPTH"
  proof (cases "r = 1")
    case False
    then obtain n d where n: "n \<in> set (folder_roots fc)" "walk fc n [] = Inr d" "r = d + 1"
      using depth_pass_Inr [OF r] by blast
    with walk_depth_attained [OF n(2)] folder_roots_folder bounded show ?thesis by fastforce
  qed (simp add: MAX_DEPTH_def)
  moreover have "\<exists>d. walk fc n [] = Inr d" if "n \<in> set (map fst fc)" for n
    using walk_total [OF _ acyclic] that by (simp add: is_folder_def)
  ultimately show ?L using r by (auto simp: cycle_sweep_Inr)
qed

section \<open>What an accepted plan promises\<close>

lemma validate_plan_None:
  "validate_plan folders leaves expected = None \<longleftrightarrow>
     placement_ok folders leaves expected \<and>
     (let fc = folder_children_of folders in \<exists>r. depth_pass fc (folder_roots fc) 1 = Inr r \<and>
      cycle_sweep fc (filter (\<lambda>s. s \<notin> set (fold (\<lambda>r. collect_reachable fc [r]) (folder_roots fc) []))
        (map fst fc)) = Inr () \<and> r \<le> MAX_DEPTH)"
  unfolding placement_checks [symmetric]
  by (auto simp: validate_plan_def Let_def not_less split: sum.splits prod.splits if_splits)

text \<open>
  Property C12. The validator accepts a plan exactly when its folder slugs are non-empty, distinct
  and different from every cluster slug, every expected cluster is placed, nothing else but folders
  is placed, nothing is placed twice, and no chain of nested folders has more than three folders
  (so that with the leaf level below the depth is at most four, and no folder is its own ancestor).
\<close>

theorem validate_plan_correct:
  "validate_plan folders leaves expected = None \<longleftrightarrow>
     placement_ok folders leaves expected \<and>
     (\<forall>p. folder_path (folder_children_of folders) p \<longrightarrow> length p < MAX_DEPTH)"
  unfolding validate_plan_None Let_def
  using passes_characterised [OF dict_ok_folder_children, of folders] by (rule arg_cong)

definition sample_folders :: "PlannedFolder list" where
  "sample_folders =
     [\<lparr>pf_slug = ''ops'', pf_title = ''Ops'', pf_child_slugs = [''infra'', ''t1''], pf_rationale = []\<rparr>,
      \<lparr>pf_slug = ''infra'', pf_title = ''Infra'', pf_child_slugs = [''t2''], pf_rationale = []\<rparr>]"

theorem validate_plan_correct_witness:
  "validate_plan sample_folders [''t3''] {''t1'', ''t2'', ''t3''} = None \<and>
   placement_ok sample_folders [''t3''] {''t1'', ''t2'', ''t3''} \<and>
   folder_path (folder_children_of sample_folders) [''ops'', ''infra''] \<and> length [''ops'', ''infra''] < MAX_DEPTH"
proof -
  have "validate_plan sample_folders [''t3''] {''t1'', ''t2'', ''t3''} = None" by code_simp
  moreover have "folder_path (folder_children_of sample_folders) [''ops'', ''infra'']" by code_simp
  ultimately show ?thesis using validate_plan_correct [of sample_folders "[''t3'']"] by blast
qed

lemma placement_ok_once:
  assumes "placement_ok folders leaves expected" "c \<in> expected"
  shows "count_list (placed_slugs folders leaves) c = 1"
proof -
  have ok: "c \<in> set (placed_slugs folders leaves)" "distinct (placed_slugs folders leaves)"
    using assms by (auto simp: placement_ok_def)
  obtain xs ys where "placed_slugs folders leaves = xs @ c # ys" using split_list [OF ok(1)] by blast
  with ok(2) show ?thesis by (simp add: count_list_0_iff)
qed

end
