(* ===== verification/Structure_Planner.thy ===== *)
theory Structure_Planner
  imports Structure_Heuristic Structure_Validator
begin

text \<open>
  The three-stage planner of \<^verbatim>\<open>wiki/structure/planner.py\<close>: heuristic candidates, one call of the
  language model, and the validator with its flat fallback. The model call, with the prompt built
  from the candidate groups, is a function argument; \<^const>\<open>None\<close> is an exception of that call. The
  text \<^verbatim>\<open>str()\<close> gives for a float, a list or a dictionary is a function argument too.
\<close>

section \<open>Model\<close>

record PlannedStructure =
  pl_folders :: "PlannedFolder list"
  pl_leaves :: "string list"
  pl_fallback_reason :: "string option"
  pl_split_candidates :: "string list"

definition PlannedStructure_flat :: "string list \<Rightarrow> string option \<Rightarrow> PlannedStructure" where
  "PlannedStructure_flat slugs reason =
     \<lparr>pl_folders = [], pl_leaves = slugs, pl_fallback_reason = reason, pl_split_candidates = []\<rparr>"

definition SPLIT_FACT_THRESHOLD :: int where
  "SPLIT_FACT_THRESHOLD = 50"

definition SPLIT_INBOUND_EDGE_THRESHOLD :: int where
  "SPLIT_INBOUND_EDGE_THRESHOLD = 35"

definition SPLIT_DEPTH_CAP :: int where
  "SPLIT_DEPTH_CAP = 3"

definition inbound_edges :: "(string \<times> string) list \<Rightarrow> (string, int) dict" where
  "inbound_edges fact_graph =
     fold (\<lambda>(src, dst) d.
        if dst \<noteq> [] then AList.update dst ((case map_of d dst of Some n \<Rightarrow> n | None \<Rightarrow> 0) + 1) d else d) fact_graph []"

text \<open>\<^verbatim>\<open>x or y\<close> on optional strings and integers.\<close>

definition str_or :: "string option \<Rightarrow> string option \<Rightarrow> string option" where
  "str_or a b = (case a of Some s \<Rightarrow> if s \<noteq> [] then a else b | None \<Rightarrow> b)"

definition int_or :: "int option \<Rightarrow> int option \<Rightarrow> int option" where
  "int_or a b = (case a of Some i \<Rightarrow> if i \<noteq> 0 then a else b | None \<Rightarrow> b)"

fun split_candidate :: "(string, int) dict \<Rightarrow> cluster_entry \<Rightarrow> string list" where
  "split_candidate inbound c =
     (case str_or (cl_id c) (cl_slug c) of
        None \<Rightarrow> []
      | Some slug \<Rightarrow>
          if slug = [] then []
          else if (case cl_depth c of Some d \<Rightarrow> d | None \<Rightarrow> 0) \<ge> SPLIT_DEPTH_CAP - 1 then []
          else
            let fact_count = (case int_or (cl_fact_count c) (cl_member_count c) of Some n \<Rightarrow> n | None \<Rightarrow> 0);
                in_edges = (case map_of inbound slug of Some n \<Rightarrow> n | None \<Rightarrow> 0)
            in if fact_count \<ge> SPLIT_FACT_THRESHOLD \<or> in_edges \<ge> SPLIT_INBOUND_EDGE_THRESHOLD then [slug] else [])"

definition compute_split_candidates :: "cluster_entry list \<Rightarrow> (string \<times> string) list \<Rightarrow> string list" where
  "compute_split_candidates clusters fact_graph =
     concat (map (split_candidate (inbound_edges fact_graph)) clusters)"

text \<open>\<^verbatim>\<open>_parse_llm_json\<close>; \<^const>\<open>None\<close> is a JSONDecodeError or the ValueError.\<close>

definition strip_fence :: "string \<Rightarrow> string" where
  "strip_fence raw =
     (let text = py_strip raw in
      if py_startswith text ''```'' then
        let text = (case py_find (CHR 0x0A) text of Some i \<Rightarrow> drop (i + 1) text | None \<Rightarrow> text);
            text = (if py_endswith text ''```'' then take (length text - 3) text else text)
        in py_strip text
      else text)"

definition parse_llm_json :: "string \<Rightarrow> (string \<times> json) list option" where
  "parse_llm_json raw = (case json_loads (strip_fence raw) of Some (JObj d) \<Rightarrow> Some d | _ \<Rightarrow> None)"

text \<open>Iterating a JSON value; \<^const>\<open>None\<close> is the TypeError of a value that is not iterable.\<close>

fun json_iter :: "json \<Rightarrow> json list option" where
  "json_iter (JList vs) = Some vs"
| "json_iter (JStr s) = Some (map (\<lambda>c. JStr [c]) s)"
| "json_iter (JObj kvs) = Some (map (\<lambda>(k, v). JStr k) kvs)"
| "json_iter _ = None"

fun json_str :: "(json \<Rightarrow> string) \<Rightarrow> json \<Rightarrow> string" where
  "json_str repr (JStr s) = s"
| "json_str repr JNull = ''None''"
| "json_str repr (JBool b) = (if b then ''True'' else ''False'')"
| "json_str repr (JInt i) = py_str_int i"
| "json_str repr v = repr v"

definition str_list :: "(json \<Rightarrow> string) \<Rightarrow> json \<Rightarrow> string list option" where
  "str_list repr v = map_option (\<lambda>vs. map (json_str repr) (filter json_truthy vs)) (json_iter v)"

definition folder_from_json :: "(json \<Rightarrow> string) \<Rightarrow> (string \<times> json) list \<Rightarrow> PlannedFolder option" where
  "folder_from_json repr f =
     (case str_list repr (json_or (json_get f ''child_slugs'') (JList [])) of
        None \<Rightarrow> None
      | Some children \<Rightarrow>
          Some \<lparr>pf_slug = json_str repr (json_or (json_get f ''slug'') (JStr [])),
                pf_title = json_str repr (json_or (json_get f ''title'') (JStr [])),
                pf_child_slugs = children,
                pf_rationale = json_str repr (json_or (json_get f ''rationale'') (JStr []))\<rparr>)"

fun folders_from_json :: "(json \<Rightarrow> string) \<Rightarrow> json list \<Rightarrow> PlannedFolder list option" where
  "folders_from_json repr [] = Some []"
| "folders_from_json repr (JObj f # fs) =
     (case folder_from_json repr f of
        None \<Rightarrow> None
      | Some folder \<Rightarrow> map_option (Cons folder) (folders_from_json repr fs))"
| "folders_from_json repr (_ # fs) = folders_from_json repr fs"

definition structure_from_dict :: "(json \<Rightarrow> string) \<Rightarrow> (string \<times> json) list \<Rightarrow> PlannedStructure option" where
  "structure_from_dict repr data =
     (case json_iter (json_or (json_get data ''folders'') (JList [])) of
        None \<Rightarrow> None
      | Some folders_raw \<Rightarrow>
          (case folders_from_json repr folders_raw of
             None \<Rightarrow> None
           | Some folders \<Rightarrow>
               (case str_list repr (json_or (json_get data ''leaves'') (JList [])) of
                  None \<Rightarrow> None
                | Some leaves \<Rightarrow>
                    Some \<lparr>pl_folders = folders, pl_leaves = leaves, pl_fallback_reason = None,
                          pl_split_candidates = []\<rparr>)))"

text \<open>\<^verbatim>\<open>plan_async\<close>: a plan, or an exception that leaves the function.\<close>

datatype plan_failure = Heuristic_diverges | Type_error

definition cluster_slugs :: "cluster_entry list \<Rightarrow> string set" where
  "cluster_slugs clusters =
     set (concat (map (\<lambda>c. case cl_id c of Some i \<Rightarrow> if i \<noteq> [] then [i] else [] | None \<Rightarrow> []) clusters))"

definition plan_async ::
    "(json \<Rightarrow> string) \<Rightarrow> (HeuristicGroup list \<Rightarrow> string option) option \<Rightarrow> nat \<Rightarrow>
     cluster_entry list \<Rightarrow> (string \<times> string) list \<Rightarrow> plan_failure + PlannedStructure" where
  "plan_async repr llm min_topics clusters fact_graph =
     (let slugs = cluster_slugs clusters;
          flat = (\<lambda>reason. Inr (PlannedStructure_flat (sorted_list_of_set slugs) (Some reason)))
      in if card slugs < min_topics then flat ''below_min_topics''
         else case HeuristicCandidates_compute clusters fact_graph of
           None \<Rightarrow> Inl Heuristic_diverges
         | Some groups \<Rightarrow>
         (case llm of
            None \<Rightarrow> flat ''no_llm_configured''
          | Some invoke_llm \<Rightarrow>
         (case invoke_llm groups of
            None \<Rightarrow> flat ''llm_exception''
          | Some raw \<Rightarrow>
         (case parse_llm_json raw of
            None \<Rightarrow> flat ''json_parse''
          | Some parsed \<Rightarrow>
         (case structure_from_dict repr parsed of
            None \<Rightarrow> Inl Type_error
          | Some plan \<Rightarrow>
         (case validate_plan (pl_folders plan) (pl_leaves plan) slugs of
            Some reason \<Rightarrow> flat (reason_code reason)
          | None \<Rightarrow> Inr (plan\<lparr>pl_split_candidates := compute_split_candidates clusters fact_graph\<rparr>)))))))"

section \<open>Properties\<close>

lemma flat_placement_ok: "finite S \<Longrightarrow> placement_ok [] (sorted_list_of_set S) S"
  by (simp add: placement_ok_def placed_slugs_def)

lemma validate_plan_placement: "validate_plan folders leaves S = None \<Longrightarrow> placement_ok folders leaves S"
  by (simp add: validate_plan_None)

lemma finite_cluster_slugs: "finite (cluster_slugs clusters)"
  unfolding cluster_slugs_def by (rule finite_set)

text \<open>The placement contract every outcome of the planner satisfies.\<close>

definition plan_contract :: "string set \<Rightarrow> PlannedStructure \<Rightarrow> bool" where
  "plan_contract slugs plan \<longleftrightarrow>
     placement_ok (pl_folders plan) (pl_leaves plan) slugs \<and>
     (pl_fallback_reason plan = None \<longrightarrow> validate_plan (pl_folders plan) (pl_leaves plan) slugs = None) \<and>
     (pl_fallback_reason plan \<noteq> None \<longrightarrow> pl_folders plan = [] \<and> pl_leaves plan = sorted_list_of_set slugs)"

lemma flat_contract: "finite S \<Longrightarrow> plan_contract S (PlannedStructure_flat (sorted_list_of_set S) (Some r))"
  by (simp add: plan_contract_def PlannedStructure_flat_def flat_placement_ok)

lemma structure_from_dict_no_reason: "structure_from_dict repr d = Some plan \<Longrightarrow> pl_fallback_reason plan = None"
  by (auto simp: structure_from_dict_def split: option.splits)

text \<open>
  Property C11. Whatever the model answers, a plan the planner returns places every cluster exactly
  once and nothing else but its own folders; a plan without a fallback reason was accepted by the
  validator, and a plan with one is flat, with all the clusters as sorted leaves. The only other
  outcome is a TypeError; the heuristic stage always terminates.
\<close>

theorem planner_contract:
  "case plan_async repr llm min_topics clusters fact_graph of
     Inr plan \<Rightarrow> plan_contract (cluster_slugs clusters) plan
   | Inl e \<Rightarrow> e = Type_error"
proof -
  obtain groups where groups: "HeuristicCandidates_compute clusters fact_graph = Some groups"
    using compute_total by blast
  have accepted: "plan_contract S (plan\<lparr>pl_split_candidates := sc\<rparr>)"
    if "structure_from_dict repr d = Some plan" "validate_plan (pl_folders plan) (pl_leaves plan) S = None" for d plan S sc
    using that by (simp add: plan_contract_def structure_from_dict_no_reason validate_plan_placement)
  show ?thesis
    by (simp add: plan_async_def Let_def groups flat_contract finite_cluster_slugs accepted split: option.split)
qed

text \<open>
  The planner does let an exception escape: a reply that is valid JSON but whose
  folders value is a number raises TypeError instead of falling back to the flat structure.
\<close>

theorem planner_type_error_escapes:
  "plan_async repr (Some (\<lambda>_. Some (''{'' @ quote_string ''folders'' @ '': 5}''))) 1 [bare_cluster ''a''] [] = Inl Type_error"
proof -
  have parsed: "parse_llm_json (''{'' @ quote_string ''folders'' @ '': 5}'') = Some [(''folders'', JInt 5)]"
    by code_simp
  have "structure_from_dict repr [(''folders'', JInt 5)] = None"
    by (simp add: structure_from_dict_def json_get_def json_or_def)
  moreover have "card (cluster_slugs [bare_cluster ''a'']) = 1"
    by (simp add: cluster_slugs_def bare_cluster_def)
  moreover obtain groups where "HeuristicCandidates_compute [bare_cluster ''a''] [] = Some groups"
    using compute_total by blast
  ultimately show ?thesis using parsed by (simp add: plan_async_def)
qed

text \<open>
  A code fence around the model's JSON does not change what is read: a reply wrapped
  in a fence with a language tag parses as the JSON inside it.
\<close>

theorem fenced_reply_parses:
  assumes "json_ok (JObj d)" "CHR 0x0A \<notin> set tag"
  shows "parse_llm_json (''```'' @ tag @ [CHR 0x0A] @ json_dumps False '', '' '': '' (JObj d) @ [CHR 0x0A] @ ''```'') = Some d"
proof -
  let ?d = "json_dumps False '', '' '': '' (JObj d)"
  let ?t = "''```'' @ tag @ [CHR 0x0A] @ ?d @ [CHR 0x0A] @ ''```''"
  obtain t where d: "?d = CHR ''{'' # t @ ''}''" by (simp add: Let_def)
  have "py_strip ?t = ?t" by (rule py_strip_clean) (simp add: py_isspace_def)
  moreover have "py_find (CHR 0x0A) ?t = Some (3 + length tag)"
    using assms(2) py_find_append [of "CHR 0x0A" "''```'' @ tag" "?d @ [CHR 0x0A] @ ''```''"] by simp
  moreover have "py_strip (?d @ [CHR 0x0A]) = ?d"
    by (rule py_strip_trailing) (simp_all add: d py_isspace_def)
  ultimately have "strip_fence ?t = ?d"
    by (simp add: strip_fence_def py_startswith_def py_endswith_def Let_def del: json_dumps.simps)
  moreover have "json_loads ?d = Some (JObj d)"
    using assms(1) by (intro loads_dumps) (simp_all add: sep_ok_def json_space_def)
  ultimately show ?thesis by (simp only: parse_llm_json_def) simp
qed

theorem fenced_reply_parses_witness:
  "parse_llm_json (''```'' @ ''json'' @ [CHR 0x0A] @ json_dumps False '', '' '': '' (JObj [(''leaves'', JList [JStr ''a''])])
     @ [CHR 0x0A] @ ''```'') = Some [(''leaves'', JList [JStr ''a''])]"
  by (rule fenced_reply_parses) simp_all

text \<open>
  A cluster is proposed for a split exactly when it has a slug, sits above the depth
  cap, and has at least 50 facts or at least 35 inbound edges in the fact graph.
\<close>

theorem split_candidates_exact:
  "slug \<in> set (compute_split_candidates clusters fact_graph) \<longleftrightarrow>
     (\<exists>c \<in> set clusters. str_or (cl_id c) (cl_slug c) = Some slug \<and> slug \<noteq> [] \<and>
        (case cl_depth c of Some d \<Rightarrow> d | None \<Rightarrow> 0) < 2 \<and>
        (50 \<le> (case int_or (cl_fact_count c) (cl_member_count c) of Some n \<Rightarrow> n | None \<Rightarrow> 0) \<or>
         35 \<le> length (filter (\<lambda>(src, dst). dst = slug) fact_graph)))"
proof -
  let ?f = "\<lambda>(src, dst) d. if dst \<noteq> [] then AList.update dst ((case map_of d dst of Some n \<Rightarrow> n | None \<Rightarrow> 0) + 1) d else d"
  let ?at = "\<lambda>d s. case map_of d s of Some n \<Rightarrow> n | None \<Rightarrow> (0 :: int)"
  have count: "s \<noteq> [] \<Longrightarrow> ?at (fold ?f fg d) s = ?at d s + int (length (filter (\<lambda>(src, dst). dst = s) fg))" for s fg d
    by (induction fg arbitrary: d) auto
  have "slug \<noteq> [] \<Longrightarrow> ?at (inbound_edges fact_graph) slug = int (length (filter (\<lambda>(src, dst). dst = slug) fact_graph))"
    using count [of slug fact_graph "[]"] by (simp add: inbound_edges_def)
  then have "slug \<in> set (split_candidate (inbound_edges fact_graph) c) \<longleftrightarrow>
      str_or (cl_id c) (cl_slug c) = Some slug \<and> slug \<noteq> [] \<and> (case cl_depth c of Some d \<Rightarrow> d | None \<Rightarrow> 0) < 2 \<and>
        (50 \<le> (case int_or (cl_fact_count c) (cl_member_count c) of Some n \<Rightarrow> n | None \<Rightarrow> 0) \<or>
         35 \<le> length (filter (\<lambda>(src, dst). dst = slug) fact_graph))" for c
    by (cases "str_or (cl_id c) (cl_slug c) = Some slug \<and> slug \<noteq> []"; cases "str_or (cl_id c) (cl_slug c)")
      (simp_all add: SPLIT_DEPTH_CAP_def SPLIT_FACT_THRESHOLD_def SPLIT_INBOUND_EDGE_THRESHOLD_def Let_def not_le, blast)
  then show ?thesis unfolding compute_split_candidates_def set_concat set_map by blast
qed

end
