(* ===== verification/JSON_Recovery.thy ===== *)
theory JSON_Recovery
  imports Py_Json
begin

text \<open>
  The salvage of truncated model output in \<^verbatim>\<open>services/json_recovery.py\<close>. Python's \<^verbatim>\<open>None\<close> and the JSON
  value \<^verbatim>\<open>null\<close> are one value there, so a result is a \<open>json\<close> and failure is \<^const>\<open>JNull\<close>.
\<close>

section \<open>Model\<close>

record TruncationReport =
  recovered_count :: nat
  estimated_lost :: nat
  raw_bytes :: nat
  last_boundary_offset :: int

text \<open>\<^verbatim>\<open>_find_last_complete_boundary\<close>: the scan state and one character of the scan.\<close>

record boundary_scan =
  bs_index :: nat
  bs_in_string :: bool
  bs_escape :: bool
  bs_last_brace_close :: int
  bs_last_safe :: int

definition boundary_step :: "boundary_scan \<Rightarrow> char \<Rightarrow> boundary_scan" where
  "boundary_step b c =
     (let i = bs_index b; b = b\<lparr>bs_index := Suc i\<rparr> in
      if bs_escape b then b\<lparr>bs_escape := False\<rparr>
      else if bs_in_string b then
        (if c = bslash then b\<lparr>bs_escape := True\<rparr>
         else if c = dquote then b\<lparr>bs_in_string := False\<rparr>
         else b)
      else if c = dquote then b\<lparr>bs_in_string := True, bs_last_brace_close := -1\<rparr>
      else if c = CHR ''}'' then b\<lparr>bs_last_brace_close := int i + 1\<rparr>
      else if c = CHR '']'' then
        b\<lparr>bs_last_safe := (if bs_last_brace_close b \<noteq> -1 then int i + 1 else bs_last_safe b),
          bs_last_brace_close := -1\<rparr>
      else if c = CHR '','' then
        b\<lparr>bs_last_safe := (if bs_last_brace_close b \<noteq> -1 then bs_last_brace_close b else bs_last_safe b),
          bs_last_brace_close := -1\<rparr>
      else if \<not> py_isspace c then b\<lparr>bs_last_brace_close := -1\<rparr>
      else b)"

definition boundary_start :: boundary_scan where
  "boundary_start = \<lparr>bs_index = 0, bs_in_string = False, bs_escape = False,
     bs_last_brace_close = -1, bs_last_safe = -1\<rparr>"

definition find_last_complete_boundary :: "string \<Rightarrow> int" where
  "find_last_complete_boundary text = bs_last_safe (foldl boundary_step boundary_start text)"

text \<open>\<^verbatim>\<open>_close_open_structures\<close>: \<^verbatim>\<open>closers\<close> is kept with its end first.\<close>

record closer_scan =
  cs_closers :: string
  cs_in_string :: bool
  cs_escape_next :: bool

definition closer_step :: "closer_scan \<Rightarrow> char \<Rightarrow> closer_scan" where
  "closer_step s ch =
     (if cs_escape_next s then s\<lparr>cs_escape_next := False\<rparr>
      else if ch = bslash \<and> cs_in_string s then s\<lparr>cs_escape_next := True\<rparr>
      else if ch = dquote then s\<lparr>cs_in_string := \<not> cs_in_string s\<rparr>
      else if cs_in_string s then s
      else if ch = CHR ''{'' then s\<lparr>cs_closers := CHR ''}'' # cs_closers s\<rparr>
      else if ch = CHR ''['' then s\<lparr>cs_closers := CHR '']'' # cs_closers s\<rparr>
      else if ch = CHR ''}'' \<or> ch = CHR '']'' then
        (if cs_closers s \<noteq> [] \<and> hd (cs_closers s) = ch then s\<lparr>cs_closers := tl (cs_closers s)\<rparr> else s)
      else s)"

definition close_open_structures :: "string \<Rightarrow> string" where
  "close_open_structures text =
     text @ cs_closers (foldl closer_step \<lparr>cs_closers = [], cs_in_string = False, cs_escape_next = False\<rparr> text)"

text \<open>\<^verbatim>\<open>len(text.encode())\<close>: UTF-8 takes two bytes for a code point from 128 to 255.\<close>

definition utf8_length :: "string \<Rightarrow> nat" where
  "utf8_length s = sum_list (map (\<lambda>c. if ord c < 128 then 1 else 2) s)"

fun json_count :: "json \<Rightarrow> nat" where
  "json_count (JList vs) = length vs"
| "json_count (JObj kvs) = length kvs"
| "json_count _ = 0"

definition recover_truncated_json_with_report :: "string \<Rightarrow> json \<times> TruncationReport" where
  "recover_truncated_json_with_report text =
     (let raw = utf8_length text; stripped = py_strip text;
          repair =
            (let boundary = (if stripped \<noteq> [] then find_last_complete_boundary stripped else -1) in
             if boundary \<le> 0 then
               (JNull, \<lparr>recovered_count = 0, estimated_lost = 0, raw_bytes = raw, last_boundary_offset = -1\<rparr>)
             else
               (case json_loads (close_open_structures (take (nat boundary) stripped)) of
                  Some result \<Rightarrow>
                    (result, \<lparr>recovered_count = json_count result, estimated_lost = 1, raw_bytes = raw,
                              last_boundary_offset = boundary\<rparr>)
                | None \<Rightarrow>
                    (JNull, \<lparr>recovered_count = 0, estimated_lost = 1, raw_bytes = raw,
                             last_boundary_offset = boundary\<rparr>)))
      in if stripped \<noteq> [] then
           (case json_loads stripped of
              Some result \<Rightarrow>
                (result, \<lparr>recovered_count = json_count result, estimated_lost = 0, raw_bytes = raw,
                          last_boundary_offset = int (length stripped)\<rparr>)
            | None \<Rightarrow> repair)
         else repair)"

definition recover_truncated_json :: "string \<Rightarrow> json" where
  "recover_truncated_json text =
     (if text = [] \<or> py_strip text = [] then JNull
      else let stripped = py_strip text in
        case json_loads stripped of
          Some result \<Rightarrow> result
        | None \<Rightarrow>
            (let boundary = find_last_complete_boundary stripped in
             if boundary \<le> 0 then JNull
             else case json_loads (close_open_structures (take (nat boundary) stripped)) of
                    Some result \<Rightarrow> result
                  | None \<Rightarrow> JNull))"

text \<open>\<^verbatim>\<open>result.get(key, [])\<close>, replaced by the empty list when it is not a list.\<close>

definition list_field :: "(string \<times> json) list \<Rightarrow> string \<Rightarrow> json list" where
  "list_field kvs key = (case map_of kvs key of Some (JList vs) \<Rightarrow> vs | _ \<Rightarrow> [])"

definition recover_facts_from_truncated :: "string \<Rightarrow> json" where
  "recover_facts_from_truncated text =
     (case fst (recover_truncated_json_with_report text) of
        JObj kvs \<Rightarrow> JObj [(''facts'', JList (list_field kvs ''facts''))]
      | _ \<Rightarrow> JNull)"

definition recover_entities_from_truncated :: "string \<Rightarrow> json" where
  "recover_entities_from_truncated text =
     (case fst (recover_truncated_json_with_report text) of
        JObj kvs \<Rightarrow> JObj [(''entities'', JList (list_field kvs ''entities'')),
                          (''relationships'', JList (list_field kvs ''relationships''))]
      | _ \<Rightarrow> JNull)"

definition recover_validation_from_truncated :: "string \<Rightarrow> json" where
  "recover_validation_from_truncated text =
     (case fst (recover_truncated_json_with_report text) of
        JObj kvs \<Rightarrow> JObj [(''entities'', JList (list_field kvs ''entities'')),
                          (''relationships'', JList (list_field kvs ''relationships'')),
                          (''merges'', JList (list_field kvs ''merges''))]
      | _ \<Rightarrow> JNull)"

section \<open>The scans on encoded values\<close>

text \<open>A piece of text that is neutral: it leaves string mode and the closers as they were.\<close>

definition outside :: "boundary_scan \<Rightarrow> bool" where
  "outside b \<longleftrightarrow> \<not> bs_in_string b \<and> \<not> bs_escape b"

definition neutral :: "string \<Rightarrow> bool" where
  "neutral t \<longleftrightarrow>
     (\<forall>b. outside b \<longrightarrow> outside (foldl boundary_step b t)) \<and>
     (\<forall>cl. foldl closer_step \<lparr>cs_closers = cl, cs_in_string = False, cs_escape_next = False\<rparr> t
            = \<lparr>cs_closers = cl, cs_in_string = False, cs_escape_next = False\<rparr>)"

definition structural :: "char \<Rightarrow> bool" where
  "structural c \<longleftrightarrow> c \<in> {dquote, bslash, CHR ''{'', CHR ''}'', CHR ''['', CHR '']''}"

lemma neutral_append: "neutral s \<Longrightarrow> neutral t \<Longrightarrow> neutral (s @ t)"
  by (simp add: neutral_def)

lemma neutral_char: "\<not> structural c \<Longrightarrow> neutral [c]"
  by (simp add: neutral_def outside_def structural_def boundary_step_def closer_step_def Let_def)

lemma neutral_plain: "\<forall>c \<in> set t. \<not> structural c \<Longrightarrow> neutral t"
proof (induction t)
  case Nil
  then show ?case by (simp add: neutral_def)
next
  case (Cons c t)
  then show ?case using neutral_append [OF neutral_char, of c t] by simp
qed

text \<open>Inside a string literal.\<close>

definition inside :: "boundary_scan \<Rightarrow> bool" where
  "inside b \<longleftrightarrow> bs_in_string b \<and> \<not> bs_escape b"

abbreviation closer_inside :: "string \<Rightarrow> closer_scan" where
  "closer_inside cl \<equiv> \<lparr>cs_closers = cl, cs_in_string = True, cs_escape_next = False\<rparr>"

lemma escape_char_cases:
  "escape_char c = [c] \<and> c \<noteq> dquote \<and> c \<noteq> bslash \<or>
   (\<exists>x xs. escape_char c = bslash # x # xs \<and> dquote \<notin> set xs \<and> bslash \<notin> set xs)"
proof -
  have hex: "hex_digit n \<noteq> dquote \<and> hex_digit n \<noteq> bslash" if "n < 16" for n
    using hex_value_digit [OF that] by (auto simp: hex_value_def)
  have "ord c div 16 < 16" using less_mult_imp_div_less [of "ord c" 16 16] by simp
  then show ?thesis using hex [of "ord c div 16"] hex [of "ord c mod 16"] by (auto simp: escape_char_def)
qed

lemma inside_plain:
  "inside b \<Longrightarrow> dquote \<notin> set xs \<Longrightarrow> bslash \<notin> set xs \<Longrightarrow> inside (foldl boundary_step b xs)"
  by (induction xs arbitrary: b) (auto simp: inside_def boundary_step_def Let_def)

lemma closer_inside_plain:
  "dquote \<notin> set xs \<Longrightarrow> bslash \<notin> set xs \<Longrightarrow> foldl closer_step (closer_inside cl) xs = closer_inside cl"
  by (induction xs) (auto simp: closer_step_def)

lemma inside_escape: "inside b \<Longrightarrow> inside (boundary_step (boundary_step b bslash) x)"
  by (simp add: inside_def boundary_step_def Let_def)

lemma inside_contents:
  "inside b \<Longrightarrow> inside (foldl boundary_step b (concat (map escape_char s)))"
  "foldl closer_step (closer_inside cl) (concat (map escape_char s)) = closer_inside cl"
proof -
  have char: "inside b \<Longrightarrow> inside (foldl boundary_step b (escape_char c))" for b c
    using escape_char_cases [of c] inside_plain [of b "[c]"] inside_plain [OF inside_escape] by auto
  then show "inside b \<Longrightarrow> inside (foldl boundary_step b (concat (map escape_char s)))"
    by (induction s arbitrary: b) simp_all
  have "foldl closer_step (closer_inside cl) (escape_char c) = closer_inside cl" for c
    using escape_char_cases [of c] closer_inside_plain [of "[c]"] closer_inside_plain
    by (auto simp: closer_step_def)
  then show "foldl closer_step (closer_inside cl) (concat (map escape_char s)) = closer_inside cl"
    by (induction s) simp_all
qed

lemma neutral_string: "neutral (quote_string s)"
proof -
  have "outside (foldl boundary_step b (quote_string s))" if "outside b" for b
  proof -
    have "inside (foldl boundary_step (boundary_step b dquote) (concat (map escape_char s)))"
      using that by (intro inside_contents) (simp add: outside_def inside_def boundary_step_def Let_def)
    then show ?thesis by (simp add: quote_string_def outside_def inside_def boundary_step_def Let_def)
  qed
  moreover have "closer_step \<lparr>cs_closers = cl, cs_in_string = False, cs_escape_next = False\<rparr> dquote
      = closer_inside cl" for cl
    by (simp add: closer_step_def)
  then have "foldl closer_step \<lparr>cs_closers = cl, cs_in_string = False, cs_escape_next = False\<rparr> (quote_string s)
      = \<lparr>cs_closers = cl, cs_in_string = False, cs_escape_next = False\<rparr>" for cl
    by (simp add: quote_string_def inside_contents) (simp add: closer_step_def)
  ultimately show ?thesis by (simp add: neutral_def)
qed

lemma neutral_bracket:
  "neutral t \<Longrightarrow> neutral (CHR ''['' # t @ '']'')" "neutral t \<Longrightarrow> neutral (CHR ''{'' # t @ ''}'')"
  by (simp_all add: neutral_def closer_step_def) (simp_all add: outside_def boundary_step_def Let_def)

lemma neutral_join: "neutral sep \<Longrightarrow> \<forall>t \<in> set ts. neutral t \<Longrightarrow> neutral (py_join sep ts)"
proof (induction sep ts rule: py_join.induct)
  case (1 sep)
  show ?case by (simp add: neutral_def)
qed (simp_all add: neutral_append)

definition num_char :: "char \<Rightarrow> bool" where
  "num_char c \<longleftrightarrow> py_isdigit c \<or> c \<in> {CHR ''.'', CHR ''e'', CHR ''E'', CHR ''+'', CHR ''-''}"

lemma digits_prefix:
  "s = takeWhile py_isdigit s @ drop (length (takeWhile py_isdigit s)) s"
  "\<forall>c \<in> set (takeWhile py_isdigit s). num_char c"
  by (metis dropWhile_eq_drop takeWhile_dropWhile_id) (auto simp: num_char_def dest: set_takeWhileD)

lemma num_int_prefix: "s = num_int s @ drop (length (num_int s)) s \<and> (\<forall>c \<in> set (num_int s). num_char c)"
  using digits_prefix [of s] by (cases s) (auto simp: num_int_def num_char_def py_isdigit_def)

lemma num_frac_prefix: "s = num_frac s @ drop (length (num_frac s)) s \<and> (\<forall>c \<in> set (num_frac s). num_char c)"
  using digits_prefix [of "tl s"] by (cases s) (auto simp: num_frac_def num_char_def)

lemma num_exp_prefix: "s = num_exp s @ drop (length (num_exp s)) s \<and> (\<forall>c \<in> set (num_exp s). num_char c)"
proof (cases s)
  case (Cons c r)
  show ?thesis
  proof (cases r)
    case (Cons d r')
    then show ?thesis using \<open>s = c # r\<close> digits_prefix [of r'] digits_prefix [of r]
      by (auto simp: num_exp_def Let_def num_char_def)
  qed (simp add: num_exp_def Cons)
qed (simp add: num_exp_def)

lemma num_parts_prefix:
  assumes "num_parts s = (i, f, e, r)"
  shows "s = i @ f @ e @ r \<and> (\<forall>c \<in> set (i @ f @ e). num_char c)"
proof -
  let ?s2 = "drop (length (num_int s)) s"
  let ?s3 = "drop (length (num_frac ?s2)) ?s2"
  have "i = num_int s" "f = num_frac ?s2" "e = num_exp ?s3" "r = drop (length (num_exp ?s3)) ?s3"
    using assms by (auto simp: num_parts_def Let_def add.assoc)
  with num_int_prefix [of s] num_frac_prefix [of ?s2] num_exp_prefix [of ?s3] show ?thesis
    by (metis Un_iff set_append)
qed

lemma number_chars:
  assumes "json_number s = Some (v, [])" "c \<in> set s" shows "num_char c"
proof -
  obtain a t where s: "s = a # t" using assms(2) by (cases s) auto
  obtain i f e r where parts: "num_parts (if a = CHR ''-'' then t else s) = (i, f, e, r)"
    by (metis prod_cases4)
  with assms(1) have "r = []" by (auto simp: json_number_def s split: if_splits)
  with num_parts_prefix [OF parts]
  have "(if a = CHR ''-'' then t else s) = i @ f @ e" "\<forall>c \<in> set (i @ f @ e). num_char c" by simp_all
  moreover have "num_char (CHR ''-'')" by (simp add: num_char_def)
  ultimately show ?thesis using assms(2) s by (metis set_ConsD)
qed

lemma num_char_not_structural: "num_char c \<Longrightarrow> \<not> structural c"
  by (auto simp: num_char_def structural_def py_isdigit_def)

lemma blank_not_structural: "json_space c \<Longrightarrow> \<not> structural c"
  by (auto simp: structural_def json_space_def)

lemma neutral_sep:
  assumes "sep_ok a sep" "\<not> structural a"
  shows "neutral sep"
proof -
  obtain ws where "sep = a # ws" "list_all json_space ws" using assms(1) by (auto simp: sep_ok_def)
  with assms(2) show ?thesis using blank_not_structural by (intro neutral_plain) (simp add: list_all_iff)
qed

lemma neutral_dumps:
  assumes "sep_ok (CHR '','') isep" "sep_ok (CHR '':'') ksep"
  shows "json_ok v \<Longrightarrow> neutral (json_dumps False isep ksep v)"
proof (induction v)
  case (JInt i)
  then show ?case using number_chars [OF json_number_int] num_char_not_structural
    by (auto intro: neutral_plain)
next
  case (JFloat f)
  show ?case
  proof (cases "f \<in> {''nan'', ''inf'', ''-inf''}")
    case True
    then show ?thesis by (auto simp: float_text_def structural_def intro!: neutral_plain)
  next
    case False
    then have "json_number f = Some (JFloat f, [])" using JFloat by (simp add: float_ok_def)
    from number_chars [OF this] num_char_not_structural have "neutral f" by (auto intro: neutral_plain)
    with False show ?thesis by (simp add: float_text_def)
  qed
next
  case (JList vs)
  then have "neutral (py_join isep (map (json_dumps False isep ksep) vs))"
    using neutral_sep [OF assms(1)] by (intro neutral_join) (auto simp: list_all_iff structural_def)
  from neutral_bracket(1) [OF this] show ?case by simp
next
  case (JObj kvs)
  have "neutral (py_join isep (map (\<lambda>(k, t). quote_string k @ ksep @ t)
      (map (\<lambda>(k, v). (k, json_dumps False isep ksep v)) kvs)))"
    using neutral_sep [OF assms(1)] neutral_sep [OF assms(2)] JObj
    by (intro neutral_join) (fastforce simp: list_all_iff structural_def intro!: neutral_append neutral_string)+
  from neutral_bracket(2) [OF this] show ?case by (simp add: Let_def)
qed (auto intro!: neutral_plain neutral_string simp: structural_def)

section \<open>Cutting and closing\<close>

lemma boundary_index: "bs_index (foldl boundary_step b t) = bs_index b + length t"
proof (induction t arbitrary: b)
  case (Cons c t)
  have "bs_index (boundary_step b c) = Suc (bs_index b)" by (simp add: boundary_step_def Let_def)
  with Cons show ?case by simp
qed simp

lemma boundary_rest:
  "CHR ''}'' \<notin> set t \<Longrightarrow> bs_last_brace_close b = -1 \<Longrightarrow>
     bs_last_safe (foldl boundary_step b t) = bs_last_safe b"
proof (induction t arbitrary: b)
  case (Cons c t)
  then have "bs_last_safe (boundary_step b c) = bs_last_safe b" "bs_last_brace_close (boundary_step b c) = -1"
    by (auto simp: boundary_step_def Let_def)
  with Cons show ?case by simp
qed simp

lemma boundary_cut:
  assumes "outside (foldl boundary_step boundary_start u)" "CHR ''}'' \<notin> set rest"
  shows "find_last_complete_boundary (u @ CHR ''}'' # CHR '','' # rest) = int (length u) + 1"
proof -
  let ?b = "boundary_step (boundary_step (foldl boundary_step boundary_start u) (CHR ''}'')) (CHR '','')"
  have "bs_last_safe ?b = int (length u) + 1" "bs_last_brace_close ?b = -1"
    using assms(1) boundary_index [of boundary_start u]
    by (simp_all add: outside_def boundary_step_def boundary_start_def Let_def)
  with boundary_rest [OF assms(2), of ?b] show ?thesis by (simp add: find_last_complete_boundary_def)
qed

definition quiet :: "string \<Rightarrow> bool" where
  "quiet t \<longleftrightarrow> (\<forall>b. outside b \<longrightarrow> outside (foldl boundary_step b t))"

lemma quiet_append: "quiet s \<Longrightarrow> quiet t \<Longrightarrow> quiet (s @ t)"
  by (simp add: quiet_def)

lemma quiet_neutral: "neutral t \<Longrightarrow> quiet t"
  by (simp add: quiet_def neutral_def)

lemma quiet_open: "quiet ''{''" "quiet ''[''"
  by (simp_all add: quiet_def outside_def boundary_step_def Let_def)

lemma py_join_snoc: "py_join sep (xs @ [y]) = concat (map (\<lambda>x. x @ sep) xs) @ y"
proof (induction xs)
  case (Cons x xs)
  then show ?case by (cases xs) simp_all
qed simp

lemma neutral_concat: "\<forall>t \<in> set ts. neutral t \<Longrightarrow> neutral (concat ts)"
proof (induction ts)
  case Nil
  show ?case by (simp add: neutral_def)
qed (simp add: neutral_append)

text \<open>
  A truncated reply: an object whose fields \<open>kvs\<close> are complete, then a field \<open>key\<close> with a list of
  which the items \<open>vs\<close> are complete and the next one is cut off after the text \<open>rest\<close>.
\<close>

definition reply_head :: "string \<Rightarrow> string \<Rightarrow> (string \<times> json) list \<Rightarrow> string \<Rightarrow> string" where
  "reply_head isep ksep kvs key =
     concat (map (\<lambda>(k, v). quote_string k @ ksep @ json_dumps False isep ksep v @ isep) kvs)
       @ quote_string key @ ksep"

definition truncated_reply ::
    "string \<Rightarrow> string \<Rightarrow> (string \<times> json) list \<Rightarrow> string \<Rightarrow> json list \<Rightarrow> string \<Rightarrow> string" where
  "truncated_reply isep ksep kvs key vs rest =
     ''{'' @ reply_head isep ksep kvs key @ ''['' @ py_join isep (map (json_dumps False isep ksep) vs)
       @ '','' @ rest"

definition complete_items :: "(string \<times> json) list \<Rightarrow> string \<Rightarrow> json list \<Rightarrow> bool" where
  "complete_items kvs key vs \<longleftrightarrow>
     json_ok (JObj (kvs @ [(key, JList vs)])) \<and> vs \<noteq> [] \<and> list_all (\<lambda>v. case v of JObj _ \<Rightarrow> True | _ \<Rightarrow> False) vs"

lemma reply_closed:
  "''{'' @ reply_head isep ksep kvs key @ ''['' @ py_join isep (map (json_dumps False isep ksep) vs) @ '']}''
     = json_dumps False isep ksep (JObj (kvs @ [(key, JList vs)]))"
proof -
  have "concat (map (\<lambda>x. x @ isep) (map (\<lambda>(k, t). quote_string k @ ksep @ t)
      (map (\<lambda>(k, v). (k, json_dumps False isep ksep v)) kvs)))
    = concat (map (\<lambda>(k, v). quote_string k @ ksep @ json_dumps False isep ksep v @ isep) kvs)"
    by (induction kvs) auto
  then show ?thesis by (simp add: reply_head_def py_join_snoc Let_def)
qed

lemma reply_head_neutral:
  assumes "sep_ok (CHR '','') isep" "sep_ok (CHR '':'') ksep" "list_all (\<lambda>(k, v). json_ok v) kvs"
  shows "neutral (reply_head isep ksep kvs key)"
proof -
  have sep: "neutral isep" "neutral ksep" using neutral_sep assms(1,2) by (auto simp: structural_def)
  have "neutral (quote_string k @ ksep @ json_dumps False isep ksep v @ isep)" if "(k, v) \<in> set kvs" for k v
    using that assms sep by (auto simp: list_all_iff intro!: neutral_append neutral_string neutral_dumps)
  then show ?thesis unfolding reply_head_def using sep
    by (intro neutral_append neutral_concat neutral_string) auto
qed

lemma reply_closers:
  assumes "sep_ok (CHR '','') isep" "sep_ok (CHR '':'') ksep" "complete_items kvs key vs"
  shows "close_open_structures (''{'' @ reply_head isep ksep kvs key @ ''['' @
      py_join isep (map (json_dumps False isep ksep) vs))
    = json_dumps False isep ksep (JObj (kvs @ [(key, JList vs)]))"
proof -
  have "neutral (reply_head isep ksep kvs key)"
    using assms by (intro reply_head_neutral) (auto simp: complete_items_def)
  moreover have "neutral (py_join isep (map (json_dumps False isep ksep) vs))"
    using assms neutral_sep [OF assms(1)] neutral_dumps [OF assms(1,2)]
    by (intro neutral_join) (auto simp: complete_items_def list_all_iff structural_def)
  ultimately show ?thesis unfolding reply_closed [symmetric]
    by (simp add: close_open_structures_def neutral_def closer_step_def)
qed

lemma reply_boundary:
  assumes "sep_ok (CHR '','') isep" "sep_ok (CHR '':'') ksep" "complete_items kvs key vs" "CHR ''}'' \<notin> set rest"
  shows "find_last_complete_boundary (truncated_reply isep ksep kvs key vs rest)
    = int (length (''{'' @ reply_head isep ksep kvs key @ ''['' @ py_join isep (map (json_dumps False isep ksep) vs)))"
proof -
  let ?d = "json_dumps False isep ksep"
  obtain ws ms where vs: "vs = ws @ [JObj ms]"
    using assms(3) by (cases vs rule: rev_cases) (auto simp: complete_items_def split: json.splits)
  obtain t where last: "?d (JObj ms) = ''{'' @ t @ ''}''" "neutral t"
  proof -
    have "neutral (py_join isep (map (\<lambda>(k, t). quote_string k @ ksep @ t) (map (\<lambda>(k, v). (k, ?d v)) ms)))"
      using assms(3) neutral_sep [OF assms(1)] neutral_sep [OF assms(2)] neutral_dumps [OF assms(1,2)]
      by (intro neutral_join)
        (fastforce simp: vs complete_items_def list_all_iff structural_def intro!: neutral_append neutral_string)+
    then show thesis by (intro that) (auto simp: Let_def)
  qed
  have "neutral (concat (map (\<lambda>x. x @ isep) (map ?d ws)))"
    using assms(3) neutral_sep [OF assms(1)] neutral_dumps [OF assms(1,2)]
    by (intro neutral_concat) (auto simp: vs complete_items_def list_all_iff structural_def intro!: neutral_append)
  moreover have "neutral (reply_head isep ksep kvs key)"
    using assms by (intro reply_head_neutral) (auto simp: complete_items_def)
  ultimately have "quiet (''{'' @ reply_head isep ksep kvs key @ ''['' @ concat (map (\<lambda>x. x @ isep) (map ?d ws))
      @ ''{'' @ t)" (is "quiet ?u")
    using last(2) by (intro quiet_append quiet_open quiet_neutral)
  then have "outside (foldl boundary_step boundary_start ?u)"
    by (simp only: quiet_def) (simp add: outside_def boundary_start_def)
  from boundary_cut [OF this assms(4)] show ?thesis
    by (simp add: truncated_reply_def vs py_join_snoc last(1) del: json_dumps.simps)
qed

lemma truncated_strip:
  "py_strip (truncated_reply isep ksep kvs key vs rest) = truncated_reply isep ksep kvs key vs (py_rstrip rest)"
proof -
  have comma: "py_rstrip (u @ CHR '','' # rest) = u @ CHR '','' # py_rstrip rest" for u
    by (simp add: py_rstrip_def dropWhile_append3 py_isspace_def Let_def)
  have "py_lstrip (CHR ''{'' # u) = CHR ''{'' # u" for u
    by (simp add: py_lstrip_def py_isspace_def)
  then show ?thesis
    using comma [of "''{'' @ reply_head isep ksep kvs key @ ''['' @ py_join isep (map (json_dumps False isep ksep) vs)"]
    by (simp add: py_strip_def truncated_reply_def)
qed

lemma py_rstrip_subset: "set (py_rstrip s) \<subseteq> set s"
  by (auto simp: py_rstrip_def dest: set_dropWhileD)

lemma truncated_recovery:
  assumes "sep_ok (CHR '','') isep" "sep_ok (CHR '':'') ksep" "complete_items kvs key vs" "CHR ''}'' \<notin> set rest"
    and "json_loads (py_strip (truncated_reply isep ksep kvs key vs rest)) = None"
  shows "fst (recover_truncated_json_with_report (truncated_reply isep ksep kvs key vs rest))
    = JObj (kvs @ [(key, JList vs)])"
proof -
  let ?head = "''{'' @ reply_head isep ksep kvs key @ ''['' @ py_join isep (map (json_dumps False isep ksep) vs)"
  let ?s = "truncated_reply isep ksep kvs key vs (py_rstrip rest)"
  have "CHR ''}'' \<notin> set (py_rstrip rest)" using assms(4) py_rstrip_subset by blast
  from reply_boundary [OF assms(1-3) this] have b: "find_last_complete_boundary ?s = int (length ?head)" .
  have s: "?s = ?head @ '','' @ py_rstrip rest" by (simp add: truncated_reply_def)
  have "json_ok (JObj (kvs @ [(key, JList vs)]))" using assms(3) by (simp add: complete_items_def)
  from loads_dumps [OF assms(1,2) this] reply_closers [OF assms(1-3)]
  have "json_loads (close_open_structures ?head) = Some (JObj (kvs @ [(key, JList vs)]))" by (simp only:)
  moreover have "take (nat (int (length xs))) (xs @ ys) = xs" for xs ys :: string by simp
  from this [of ?head "'','' @ py_rstrip rest"] have "take (nat (int (length ?head))) ?s = ?head" by (simp only: s)
  ultimately have "json_loads (close_open_structures (take (nat (int (length ?head))) ?s))
      = Some (JObj (kvs @ [(key, JList vs)]))" by (simp only:)
  then show ?thesis using assms(5) b
    by (simp add: recover_truncated_json_with_report_def truncated_strip Let_def s del: json_dumps.simps)
qed

section \<open>Properties\<close>


definition sample_fact :: json where
  "sample_fact = JObj [(''text'', JStr ''a}, b''), (''quality'', JFloat ''0.8''), (''tags'', JList [JStr ''x''])]"


text \<open>
  Truncated entity extraction is salvaged: with the entities complete and the
  relationships cut off inside an item that has no closing brace yet, the recovery returns all the
  entities and exactly the relationships that were complete before the cut.
\<close>

theorem recover_entities_complete:
  assumes "sep_ok (CHR '','') isep" "sep_ok (CHR '':'') ksep"
    and "complete_items [(''entities'', JList ents)] ''relationships'' rels" "CHR ''}'' \<notin> set rest"
    and "json_loads (py_strip (truncated_reply isep ksep [(''entities'', JList ents)] ''relationships'' rels rest)) = None"
  shows "recover_entities_from_truncated
      (truncated_reply isep ksep [(''entities'', JList ents)] ''relationships'' rels rest)
    = JObj [(''entities'', JList ents), (''relationships'', JList rels)]"
  using truncated_recovery [OF assms] by (simp add: recover_entities_from_truncated_def list_field_def)

theorem recover_entities_complete_witness:
  "recover_entities_from_truncated
      (truncated_reply '','' '':'' [(''entities'', JList [sample_fact])] ''relationships'' [sample_fact] ''{'')
    = JObj [(''entities'', JList [sample_fact]), (''relationships'', JList [sample_fact])]"
proof -
  have "json_loads (py_strip (truncated_reply '','' '':'' [(''entities'', JList [sample_fact])] ''relationships''
      [sample_fact] ''{'')) = None"
    by code_simp
  moreover have "complete_items [(''entities'', JList [sample_fact])] ''relationships'' [sample_fact]" by code_simp
  moreover have "sep_ok (CHR '','') '',''" "sep_ok (CHR '':'') '':''" by (simp_all add: sep_ok_def)
  ultimately show ?thesis using recover_entities_complete [of "'',''" "'':''" _ _ "''{''"] by simp
qed

text \<open>
  The two recovery entry points agree: the variant with a report returns the same
  value as the plain one, on every input.
\<close>

theorem recovery_entry_points_agree:
  "fst (recover_truncated_json_with_report text) = recover_truncated_json text"
  by (auto simp: recover_truncated_json_with_report_def recover_truncated_json_def Let_def py_strip_def
      py_lstrip_def py_rstrip_def split: option.split)

end
