(* ===== verification/Sync_Policy.thy ===== *)
theory Sync_Policy
  imports Keyed_Registry
begin

text \<open>
  Per-channel policies: the models of \<^verbatim>\<open>models/sync_policy.py\<close>, the field-by-field merge and the
  cached global defaults of \<^verbatim>\<open>services/policy_resolver.py\<close>, and the presets of
  \<^verbatim>\<open>services/policy_presets.py\<close>. A field that may be \<^verbatim>\<open>None\<close> is an option. The two documents the
  resolver reads from MongoDB are arguments.
\<close>

section \<open>Model\<close>

datatype SyncTriggerMode = Trigger_manual | Trigger_interval | Trigger_cron | Trigger_webhook

datatype ConsolidationStrategy = Consolidate_after_every_sync | Consolidate_after_n_syncs
  | Consolidate_scheduled | Consolidate_manual

datatype WikiGenerationStrategy = Wiki_after_every_sync | Wiki_after_consolidation
  | Wiki_scheduled | Wiki_manual

record SyncConfig =
  trigger_mode :: "SyncTriggerMode option"
  sync_cron_expression :: "string option"
  interval_minutes :: "int option"
  sync_type :: "string option"
  max_messages :: "int option"
  min_sync_interval_minutes :: "int option"

record IngestionConfig =
  batch_size :: "int option"
  quality_threshold :: "rat option"
  max_facts_per_message :: "int option"
  skip_entity_extraction :: "bool option"
  skip_graph_writes :: "bool option"

record ConsolidationConfig =
  strategy :: "ConsolidationStrategy option"
  after_n_syncs :: "int option"
  consolidation_cron_expression :: "string option"
  similarity_threshold :: "rat option"
  merge_threshold :: "rat option"
  min_facts_for_clustering :: "int option"
  staleness_refresh_days :: "int option"

record WikiConfig =
  wiki_enabled :: "bool option"
  generation_strategy :: "WikiGenerationStrategy option"
  wiki_cron_expression :: "string option"
  auto_regenerate_on_stale :: "bool option"
  min_facts_for_generation :: "int option"
  topic_subpage_threshold :: "int option"
  maintenance_mode :: "string option"
  force_kinds :: "string list option"
  suppress_kinds :: "string list option"
  auto_split_topics :: "bool option"

record ChannelPolicy =
  cp_id :: string
  cp_channel_id :: string
  cp_connection_id :: "string option"
  cp_preset :: "string option"
  cp_sync :: SyncConfig
  cp_ingestion :: IngestionConfig
  cp_consolidation :: ConsolidationConfig
  cp_wiki :: WikiConfig
  cp_enabled :: bool
  cp_syncs_since_last_consolidation :: int
  cp_created_at :: seconds
  cp_updated_at :: seconds

record GlobalPolicyDefaults =
  gd_id :: string
  gd_sync :: SyncConfig
  gd_ingestion :: IngestionConfig
  gd_consolidation :: ConsolidationConfig
  gd_wiki :: WikiConfig
  gd_max_concurrent_syncs :: int
  gd_updated_at :: seconds

record ResolvedPolicy =
  rp_sync :: SyncConfig
  rp_ingestion :: IngestionConfig
  rp_consolidation :: ConsolidationConfig
  rp_wiki :: WikiConfig

text \<open>The models' constructors with every field left out.\<close>

definition SyncConfig_empty :: SyncConfig where
  "SyncConfig_empty = \<lparr>trigger_mode = None, sync_cron_expression = None, interval_minutes = None,
     sync_type = None, max_messages = None, min_sync_interval_minutes = None\<rparr>"

definition IngestionConfig_empty :: IngestionConfig where
  "IngestionConfig_empty = \<lparr>batch_size = None, quality_threshold = None, max_facts_per_message = None,
     skip_entity_extraction = None, skip_graph_writes = None\<rparr>"

definition ConsolidationConfig_empty :: ConsolidationConfig where
  "ConsolidationConfig_empty = \<lparr>strategy = None, after_n_syncs = None, consolidation_cron_expression = None,
     similarity_threshold = None, merge_threshold = None, min_facts_for_clustering = None,
     staleness_refresh_days = None\<rparr>"

definition WikiConfig_empty :: WikiConfig where
  "WikiConfig_empty = \<lparr>wiki_enabled = None, generation_strategy = None, wiki_cron_expression = None,
     auto_regenerate_on_stale = None, min_facts_for_generation = None, topic_subpage_threshold = None,
     maintenance_mode = None, force_kinds = None, suppress_kinds = None, auto_split_topics = None\<rparr>"

definition GlobalPolicyDefaults_default :: "seconds \<Rightarrow> GlobalPolicyDefaults" where
  "GlobalPolicyDefaults_default now =
     \<lparr>gd_id = ''global'',
      gd_sync = SyncConfig_empty\<lparr>trigger_mode := Some Trigger_manual, sync_type := Some ''auto'',
        max_messages := Some 1000, min_sync_interval_minutes := Some 5\<rparr>,
      gd_ingestion = IngestionConfig_empty\<lparr>batch_size := Some 10, quality_threshold := Some (5 / 10),
        max_facts_per_message := Some 2, skip_entity_extraction := Some False, skip_graph_writes := Some False\<rparr>,
      gd_consolidation = ConsolidationConfig_empty\<lparr>strategy := Some Consolidate_after_every_sync,
        after_n_syncs := Some 3, similarity_threshold := Some (6 / 10), merge_threshold := Some (85 / 100),
        min_facts_for_clustering := Some 3, staleness_refresh_days := Some 7\<rparr>,
      gd_wiki = WikiConfig_empty\<lparr>wiki_enabled := Some True, generation_strategy := Some Wiki_after_consolidation,
        auto_regenerate_on_stale := Some True, min_facts_for_generation := Some 5,
        topic_subpage_threshold := Some 15\<rparr>,
      gd_max_concurrent_syncs = 3,
      gd_updated_at = now\<rparr>"

text \<open>\<^verbatim>\<open>_merge_config\<close> on each of the four models.\<close>

definition or_default :: "'a option \<Rightarrow> 'a option \<Rightarrow> 'a option" where
  "or_default channel_val default_val = (case channel_val of Some v \<Rightarrow> Some v | None \<Rightarrow> default_val)"

definition merge_sync :: "SyncConfig \<Rightarrow> SyncConfig \<Rightarrow> SyncConfig" where
  "merge_sync c d =
     \<lparr>trigger_mode = or_default (trigger_mode c) (trigger_mode d),
      sync_cron_expression = or_default (sync_cron_expression c) (sync_cron_expression d),
      interval_minutes = or_default (interval_minutes c) (interval_minutes d),
      sync_type = or_default (sync_type c) (sync_type d),
      max_messages = or_default (max_messages c) (max_messages d),
      min_sync_interval_minutes = or_default (min_sync_interval_minutes c) (min_sync_interval_minutes d)\<rparr>"

definition merge_ingestion :: "IngestionConfig \<Rightarrow> IngestionConfig \<Rightarrow> IngestionConfig" where
  "merge_ingestion c d =
     \<lparr>batch_size = or_default (batch_size c) (batch_size d),
      quality_threshold = or_default (quality_threshold c) (quality_threshold d),
      max_facts_per_message = or_default (max_facts_per_message c) (max_facts_per_message d),
      skip_entity_extraction = or_default (skip_entity_extraction c) (skip_entity_extraction d),
      skip_graph_writes = or_default (skip_graph_writes c) (skip_graph_writes d)\<rparr>"

definition merge_consolidation :: "ConsolidationConfig \<Rightarrow> ConsolidationConfig \<Rightarrow> ConsolidationConfig" where
  "merge_consolidation c d =
     \<lparr>strategy = or_default (strategy c) (strategy d),
      after_n_syncs = or_default (after_n_syncs c) (after_n_syncs d),
      consolidation_cron_expression = or_default (consolidation_cron_expression c) (consolidation_cron_expression d),
      similarity_threshold = or_default (similarity_threshold c) (similarity_threshold d),
      merge_threshold = or_default (merge_threshold c) (merge_threshold d),
      min_facts_for_clustering = or_default (min_facts_for_clustering c) (min_facts_for_clustering d),
      staleness_refresh_days = or_default (staleness_refresh_days c) (staleness_refresh_days d)\<rparr>"

definition merge_wiki :: "WikiConfig \<Rightarrow> WikiConfig \<Rightarrow> WikiConfig" where
  "merge_wiki c d =
     \<lparr>wiki_enabled = or_default (wiki_enabled c) (wiki_enabled d),
      generation_strategy = or_default (generation_strategy c) (generation_strategy d),
      wiki_cron_expression = or_default (wiki_cron_expression c) (wiki_cron_expression d),
      auto_regenerate_on_stale = or_default (auto_regenerate_on_stale c) (auto_regenerate_on_stale d),
      min_facts_for_generation = or_default (min_facts_for_generation c) (min_facts_for_generation d),
      topic_subpage_threshold = or_default (topic_subpage_threshold c) (topic_subpage_threshold d),
      maintenance_mode = or_default (maintenance_mode c) (maintenance_mode d),
      force_kinds = or_default (force_kinds c) (force_kinds d),
      suppress_kinds = or_default (suppress_kinds c) (suppress_kinds d),
      auto_split_topics = or_default (auto_split_topics c) (auto_split_topics d)\<rparr>"

definition resolve_policy :: "ChannelPolicy option \<Rightarrow> GlobalPolicyDefaults \<Rightarrow> ResolvedPolicy" where
  "resolve_policy channel defaults =
     (case channel of
        None \<Rightarrow> \<lparr>rp_sync = gd_sync defaults, rp_ingestion = gd_ingestion defaults,
                 rp_consolidation = gd_consolidation defaults, rp_wiki = gd_wiki defaults\<rparr>
      | Some ch \<Rightarrow> \<lparr>rp_sync = merge_sync (cp_sync ch) (gd_sync defaults),
                    rp_ingestion = merge_ingestion (cp_ingestion ch) (gd_ingestion defaults),
                    rp_consolidation = merge_consolidation (cp_consolidation ch) (gd_consolidation defaults),
                    rp_wiki = merge_wiki (cp_wiki ch) (gd_wiki defaults)\<rparr>)"

text \<open>The module's cache: \<^verbatim>\<open>_cached_defaults\<close> and \<^verbatim>\<open>_cached_at\<close>.\<close>

record defaults_cache =
  cached_defaults :: "GlobalPolicyDefaults option"
  cached_at :: seconds

definition CACHE_TTL_SECONDS :: seconds where
  "CACHE_TTL_SECONDS = 60"

definition defaults_cache_init :: defaults_cache where
  "defaults_cache_init = \<lparr>cached_defaults = None, cached_at = 0\<rparr>"

definition get_cached_defaults :: "seconds \<Rightarrow> GlobalPolicyDefaults \<Rightarrow> defaults_cache \<Rightarrow> GlobalPolicyDefaults \<times> defaults_cache" where
  "get_cached_defaults now stored c =
     (case cached_defaults c of
        Some d \<Rightarrow> if now - cached_at c < CACHE_TTL_SECONDS then (d, c)
                  else (stored, \<lparr>cached_defaults = Some stored, cached_at = now\<rparr>)
      | None \<Rightarrow> (stored, \<lparr>cached_defaults = Some stored, cached_at = now\<rparr>))"

definition invalidate_defaults_cache :: "defaults_cache \<Rightarrow> defaults_cache" where
  "invalidate_defaults_cache c = \<lparr>cached_defaults = None, cached_at = 0\<rparr>"

definition resolve_effective_policy ::
    "seconds \<Rightarrow> ChannelPolicy option \<Rightarrow> GlobalPolicyDefaults \<Rightarrow> defaults_cache \<Rightarrow> ResolvedPolicy \<times> defaults_cache" where
  "resolve_effective_policy now channel_policy stored c =
     (case get_cached_defaults now stored c of (defaults, c') \<Rightarrow> (resolve_policy channel_policy defaults, c'))"

text \<open>Presets.\<close>

record preset_config =
  preset_name :: string
  preset_description :: string
  preset_sync :: SyncConfig
  preset_ingestion :: IngestionConfig
  preset_consolidation :: ConsolidationConfig
  preset_wiki :: WikiConfig

definition PRESETS :: "(string, preset_config) dict" where
  "PRESETS =
   [(''real-time'',
     \<lparr>preset_name = ''Real-time'',
      preset_description = ''Updates every 5 minutes with full extraction and auto-organization.'',
      preset_sync = SyncConfig_empty\<lparr>trigger_mode := Some Trigger_interval, interval_minutes := Some 5,
        sync_type := Some ''auto'', max_messages := Some 1000, min_sync_interval_minutes := Some 3\<rparr>,
      preset_ingestion = IngestionConfig_empty\<lparr>batch_size := Some 10, quality_threshold := Some (5 / 10),
        max_facts_per_message := Some 2, skip_entity_extraction := Some False, skip_graph_writes := Some False\<rparr>,
      preset_consolidation = ConsolidationConfig_empty\<lparr>strategy := Some Consolidate_after_every_sync,
        similarity_threshold := Some (6 / 10), merge_threshold := Some (85 / 100), min_facts_for_clustering := Some 3\<rparr>,
      preset_wiki = WikiConfig_empty\<lparr>generation_strategy := Some Wiki_after_consolidation, wiki_enabled := Some True,
        auto_regenerate_on_stale := Some True, min_facts_for_generation := Some 5, topic_subpage_threshold := Some 15\<rparr>\<rparr>),
    (''daily-digest'',
     \<lparr>preset_name = ''Daily Digest'',
      preset_description = ''Syncs once a day at 2 AM with full extraction and auto-organization.'',
      preset_sync = SyncConfig_empty\<lparr>trigger_mode := Some Trigger_cron, sync_cron_expression := Some ''0 2 * * *'',
        sync_type := Some ''auto'', max_messages := Some 5000, min_sync_interval_minutes := Some 60\<rparr>,
      preset_ingestion = IngestionConfig_empty\<lparr>batch_size := Some 20, quality_threshold := Some (5 / 10),
        max_facts_per_message := Some 3, skip_entity_extraction := Some False, skip_graph_writes := Some False\<rparr>,
      preset_consolidation = ConsolidationConfig_empty\<lparr>strategy := Some Consolidate_after_every_sync,
        similarity_threshold := Some (6 / 10), merge_threshold := Some (85 / 100), min_facts_for_clustering := Some 5\<rparr>,
      preset_wiki = WikiConfig_empty\<lparr>generation_strategy := Some Wiki_after_consolidation, wiki_enabled := Some True,
        auto_regenerate_on_stale := Some True, min_facts_for_generation := Some 10, topic_subpage_threshold := Some 15\<rparr>\<rparr>),
    (''lightweight'',
     \<lparr>preset_name = ''Lightweight'',
      preset_description = ''Syncs every hour with quick extraction. Organize knowledge manually.'',
      preset_sync = SyncConfig_empty\<lparr>trigger_mode := Some Trigger_interval, interval_minutes := Some 60,
        sync_type := Some ''auto'', max_messages := Some 500, min_sync_interval_minutes := Some 30\<rparr>,
      preset_ingestion = IngestionConfig_empty\<lparr>batch_size := Some 15, quality_threshold := Some (3 / 10),
        max_facts_per_message := Some 2, skip_entity_extraction := Some True, skip_graph_writes := Some True\<rparr>,
      preset_consolidation = ConsolidationConfig_empty\<lparr>strategy := Some Consolidate_manual,
        similarity_threshold := Some (5 / 10), merge_threshold := Some (8 / 10), min_facts_for_clustering := Some 10\<rparr>,
      preset_wiki = WikiConfig_empty\<lparr>generation_strategy := Some Wiki_manual, wiki_enabled := Some True,
        auto_regenerate_on_stale := Some False, min_facts_for_generation := Some 10, topic_subpage_threshold := Some 20\<rparr>\<rparr>),
    (''manual'',
     \<lparr>preset_name = ''Manual'',
      preset_description = ''Full control -- sync and organize only when you choose.'',
      preset_sync = SyncConfig_empty\<lparr>trigger_mode := Some Trigger_manual,
        sync_type := Some ''auto'', max_messages := Some 1000, min_sync_interval_minutes := Some 1\<rparr>,
      preset_ingestion = IngestionConfig_empty\<lparr>batch_size := Some 10, quality_threshold := Some (5 / 10),
        max_facts_per_message := Some 2, skip_entity_extraction := Some False, skip_graph_writes := Some False\<rparr>,
      preset_consolidation = ConsolidationConfig_empty\<lparr>strategy := Some Consolidate_manual,
        similarity_threshold := Some (6 / 10), merge_threshold := Some (85 / 100), min_facts_for_clustering := Some 3\<rparr>,
      preset_wiki = WikiConfig_empty\<lparr>generation_strategy := Some Wiki_manual, wiki_enabled := Some True,
        auto_regenerate_on_stale := Some False, min_facts_for_generation := Some 5, topic_subpage_threshold := Some 15\<rparr>\<rparr>)]"

definition get_preset_config :: "string \<Rightarrow> preset_config option" where
  "get_preset_config name = map_of PRESETS name"

definition list_presets :: "(string \<times> preset_config) list" where
  "list_presets = PRESETS"

section \<open>Merging\<close>

lemma or_default_simps [simp]: "or_default (Some v) d = Some v" "or_default None d = d"
  by (simp_all add: or_default_def)

lemma or_default_idem: "or_default (or_default a b) b = or_default a b"
  by (cases a; cases b) simp_all

lemmas merge_defs = merge_sync_def merge_ingestion_def merge_consolidation_def merge_wiki_def

lemma merge_empty:
  "merge_sync SyncConfig_empty s = s" "merge_ingestion IngestionConfig_empty i = i"
  "merge_consolidation ConsolidationConfig_empty c = c" "merge_wiki WikiConfig_empty w = w"
  by (simp_all add: merge_defs SyncConfig_empty_def IngestionConfig_empty_def ConsolidationConfig_empty_def
      WikiConfig_empty_def)

text \<open>The overrides that a resolved policy spells out.\<close>

definition policy_with :: "ResolvedPolicy \<Rightarrow> ChannelPolicy \<Rightarrow> ChannelPolicy" where
  "policy_with r ch = ch\<lparr>cp_sync := rp_sync r, cp_ingestion := rp_ingestion r,
     cp_consolidation := rp_consolidation r, cp_wiki := rp_wiki r\<rparr>"

text \<open>
  Resolution is idempotent: resolving the overrides that a resolved policy spells out,
  against the same defaults, gives the same resolved policy; and a channel whose overrides are all
  unset resolves like a channel without a policy.
\<close>

theorem resolve_policy_idempotent:
  "resolve_policy (Some (policy_with (resolve_policy (Some ch) defaults) ch')) defaults = resolve_policy (Some ch) defaults \<and>
   resolve_policy (Some (ch\<lparr>cp_sync := SyncConfig_empty, cp_ingestion := IngestionConfig_empty,
      cp_consolidation := ConsolidationConfig_empty, cp_wiki := WikiConfig_empty\<rparr>)) defaults = resolve_policy None defaults"
  by (simp add: resolve_policy_def policy_with_def merge_empty) (simp add: merge_defs or_default_idem)

section \<open>Presets\<close>

text \<open>A sync configuration the scheduler registers a job for, or one that asks for none.\<close>

definition schedulable :: "SyncConfig \<Rightarrow> bool" where
  "schedulable c =
     (case trigger_mode c of
        Some Trigger_interval \<Rightarrow> (case interval_minutes c of Some m \<Rightarrow> 0 < m | None \<Rightarrow> False)
      | Some Trigger_cron \<Rightarrow> (case sync_cron_expression c of Some e \<Rightarrow> e \<noteq> [] | None \<Rightarrow> False)
      | Some _ \<Rightarrow> True
      | None \<Rightarrow> False)"

text \<open>Thresholds in range, and a cooldown that does not block the channel's own interval.\<close>

definition sane_policy :: "ResolvedPolicy \<Rightarrow> bool" where
  "sane_policy r =
     (schedulable (rp_sync r) \<and>
      (case (interval_minutes (rp_sync r), min_sync_interval_minutes (rp_sync r)) of
         (Some i, Some m) \<Rightarrow> m \<le> i | _ \<Rightarrow> True) \<and>
      (case quality_threshold (rp_ingestion r) of Some q \<Rightarrow> 0 \<le> q \<and> q \<le> 1 | None \<Rightarrow> False) \<and>
      (case (similarity_threshold (rp_consolidation r), merge_threshold (rp_consolidation r)) of
         (Some s, Some m) \<Rightarrow> s \<le> m | _ \<Rightarrow> False) \<and>
      strategy (rp_consolidation r) \<noteq> None \<and> generation_strategy (rp_wiki r) \<noteq> None)"

lemma sane_policy_wiki:
  "sane_policy (r\<lparr>rp_wiki := w\<rparr>) \<longleftrightarrow> sane_policy (r\<lparr>rp_wiki := w'\<rparr>)"
  if "generation_strategy w \<noteq> None" "generation_strategy w' \<noteq> None"
  using that by (simp add: sane_policy_def)

end
