(* ===== verification/Policy_API.thy ===== *)
theory Policy_API
  imports Sync_Policy Py_Strings
begin

text \<open>
  The policy endpoints of \<^verbatim>\<open>api/policies.py\<close> with the documents they keep in MongoDB
  (\<^verbatim>\<open>stores/mongodb_store.py\<close>) and the resolver's cache: upsert, delete and bulk apply of channel
  policies, and the update of the global defaults. The three handlers that change channel policies
  are modelled here up to their write; \<^theory_text>\<open>Sync_Scheduler\<close> adds the notification of the scheduler and
  has the whole handlers. The check of the caller's access is an argument, as are fresh ids and
  clock readings; the shape of the responses is left out.
\<close>

section \<open>Model\<close>

record policy_world =
  pw_policies :: "(string, ChannelPolicy) dict"
  pw_defaults :: "GlobalPolicyDefaults option"
  pw_cache :: defaults_cache

datatype http_error = Http_403 | Http_404 | Http_422

record PolicyUpdateRequest =
  pu_preset :: "string option"
  pu_sync :: "SyncConfig option"
  pu_ingestion :: "IngestionConfig option"
  pu_consolidation :: "ConsolidationConfig option"
  pu_enabled :: "bool option"

record GlobalDefaultsUpdateRequest =
  gu_sync :: "SyncConfig option"
  gu_ingestion :: "IngestionConfig option"
  gu_consolidation :: "ConsolidationConfig option"
  gu_max_concurrent_syncs :: "int option"

definition validate_cron :: "string \<Rightarrow> bool" where
  "validate_cron expression \<longleftrightarrow> length (py_words (py_strip expression)) = 5"

definition cron_ok :: "string option \<Rightarrow> bool" where
  "cron_ok e = (case e of Some x \<Rightarrow> x = [] \<or> validate_cron x | None \<Rightarrow> True)"

definition validate_policy_crons :: "SyncConfig option \<Rightarrow> ConsolidationConfig option \<Rightarrow> bool" where
  "validate_policy_crons sync consolidation \<longleftrightarrow>
     (case sync of Some s \<Rightarrow> cron_ok (sync_cron_expression s) | None \<Rightarrow> True) \<and>
     (case consolidation of Some c \<Rightarrow> cron_ok (consolidation_cron_expression c) | None \<Rightarrow> True)"

text \<open>The store operations.\<close>

definition store_get_channel_policy :: "policy_world \<Rightarrow> string \<Rightarrow> ChannelPolicy option" where
  "store_get_channel_policy w channel_id = map_of (pw_policies w) channel_id"

definition store_upsert_channel_policy :: "seconds \<Rightarrow> ChannelPolicy \<Rightarrow> policy_world \<Rightarrow> policy_world" where
  "store_upsert_channel_policy now policy w =
     w\<lparr>pw_policies := AList.update (cp_channel_id policy) (policy\<lparr>cp_updated_at := now\<rparr>) (pw_policies w)\<rparr>"

definition store_get_global_defaults :: "seconds \<Rightarrow> policy_world \<Rightarrow> GlobalPolicyDefaults" where
  "store_get_global_defaults now w =
     (case pw_defaults w of Some d \<Rightarrow> d | None \<Rightarrow> GlobalPolicyDefaults_default now)"

definition store_update_global_defaults :: "seconds \<Rightarrow> GlobalPolicyDefaults \<Rightarrow> policy_world \<Rightarrow> policy_world" where
  "store_update_global_defaults now d w = w\<lparr>pw_defaults := Some (d\<lparr>gd_updated_at := now\<rparr>)\<rparr>"

definition fresh_policy ::
    "string \<Rightarrow> seconds \<Rightarrow> string \<Rightarrow> string \<Rightarrow> SyncConfig \<Rightarrow> IngestionConfig \<Rightarrow> ConsolidationConfig \<Rightarrow> bool \<Rightarrow> ChannelPolicy" where
  "fresh_policy new_id now channel_id preset sync ingestion consolidation enabled =
     \<lparr>cp_id = new_id, cp_channel_id = channel_id, cp_connection_id = None, cp_preset = Some preset,
      cp_sync = sync, cp_ingestion = ingestion, cp_consolidation = consolidation, cp_wiki = WikiConfig_empty,
      cp_enabled = enabled, cp_syncs_since_last_consolidation = 0, cp_created_at = now, cp_updated_at = now\<rparr>"

text \<open>The three configurations an upsert request asks for.\<close>

definition requested_configs ::
    "PolicyUpdateRequest \<Rightarrow> (SyncConfig \<times> IngestionConfig \<times> ConsolidationConfig) option" where
  "requested_configs body =
     (let explicit =
        ((case pu_sync body of Some c \<Rightarrow> c | None \<Rightarrow> SyncConfig_empty),
         (case pu_ingestion body of Some c \<Rightarrow> c | None \<Rightarrow> IngestionConfig_empty),
         (case pu_consolidation body of Some c \<Rightarrow> c | None \<Rightarrow> ConsolidationConfig_empty))
      in case pu_preset body of
           Some name \<Rightarrow>
             if name \<noteq> [] \<and> name \<noteq> ''custom'' then
               map_option (\<lambda>p. (preset_sync p, preset_ingestion p, preset_consolidation p)) (get_preset_config name)
             else Some explicit
         | None \<Rightarrow> Some explicit)"

definition preset_label :: "string option \<Rightarrow> string" where
  "preset_label p = (case p of Some name \<Rightarrow> if name \<noteq> [] then name else ''custom'' | None \<Rightarrow> ''custom'')"

definition upsert_channel_policy_write ::
    "(string \<Rightarrow> bool) \<Rightarrow> string \<Rightarrow> seconds \<Rightarrow> string \<Rightarrow> PolicyUpdateRequest \<Rightarrow> policy_world \<Rightarrow> http_error + policy_world" where
  "upsert_channel_policy_write may_access new_id now channel_id body w =
     (if \<not> may_access channel_id then Inl Http_403
      else case requested_configs body of
        None \<Rightarrow> Inl Http_404
      | Some (sync, ingestion, consolidation) \<Rightarrow>
          if \<not> validate_policy_crons (Some sync) (Some consolidation) then Inl Http_422
          else Inr (store_upsert_channel_policy now
            (case store_get_channel_policy w channel_id of
               Some existing \<Rightarrow>
                 existing\<lparr>cp_sync := sync, cp_ingestion := ingestion, cp_consolidation := consolidation,
                   cp_preset := Some (preset_label (pu_preset body)),
                   cp_enabled := (case pu_enabled body of Some e \<Rightarrow> e | None \<Rightarrow> cp_enabled existing)\<rparr>
             | None \<Rightarrow>
                 fresh_policy new_id now channel_id (preset_label (pu_preset body)) sync ingestion consolidation
                   (case pu_enabled body of Some e \<Rightarrow> e | None \<Rightarrow> True)) w))"

definition delete_channel_policy_write ::
    "(string \<Rightarrow> bool) \<Rightarrow> string \<Rightarrow> policy_world \<Rightarrow> http_error + policy_world" where
  "delete_channel_policy_write may_access channel_id w =
     (if \<not> may_access channel_id then Inl Http_403
      else if store_get_channel_policy w channel_id = None then Inl Http_404
      else Inr (w\<lparr>pw_policies := AList.delete channel_id (pw_policies w)\<rparr>))"

definition bulk_apply_one ::
    "(string \<Rightarrow> string) \<Rightarrow> seconds \<Rightarrow> string \<Rightarrow> preset_config \<Rightarrow> string \<Rightarrow> policy_world \<Rightarrow> policy_world" where
  "bulk_apply_one new_id now preset p channel_id w =
     store_upsert_channel_policy now
       (case store_get_channel_policy w channel_id of
          Some existing \<Rightarrow>
            existing\<lparr>cp_sync := preset_sync p, cp_ingestion := preset_ingestion p,
              cp_consolidation := preset_consolidation p, cp_preset := Some preset\<rparr>
        | None \<Rightarrow>
            fresh_policy (new_id channel_id) now channel_id preset (preset_sync p) (preset_ingestion p)
              (preset_consolidation p) True) w"

definition bulk_apply_policy_write ::
    "(string \<Rightarrow> bool) \<Rightarrow> (string \<Rightarrow> string) \<Rightarrow> seconds \<Rightarrow> string list \<Rightarrow> string \<Rightarrow> policy_world \<Rightarrow> http_error + policy_world" where
  "bulk_apply_policy_write may_access new_id now channel_ids preset w =
     (case get_preset_config preset of
        None \<Rightarrow> Inl Http_404
      | Some p \<Rightarrow>
          if \<not> list_all may_access channel_ids then Inl Http_403
          else Inr (fold (bulk_apply_one new_id now preset p) channel_ids w))"

definition update_global_defaults ::
    "seconds \<Rightarrow> GlobalDefaultsUpdateRequest \<Rightarrow> policy_world \<Rightarrow> http_error + policy_world" where
  "update_global_defaults now body w =
     (let defaults = store_get_global_defaults now w in
      if \<not> validate_policy_crons (gu_sync body) None \<or> \<not> validate_policy_crons None (gu_consolidation body)
      then Inl Http_422
      else
        let defaults = defaults
              \<lparr>gd_sync := (case gu_sync body of Some s \<Rightarrow> merge_sync s (gd_sync defaults) | None \<Rightarrow> gd_sync defaults),
               gd_ingestion := (case gu_ingestion body of Some i \<Rightarrow> merge_ingestion i (gd_ingestion defaults) | None \<Rightarrow> gd_ingestion defaults),
               gd_consolidation := (case gu_consolidation body of
                   Some c \<Rightarrow> merge_consolidation c (gd_consolidation defaults) | None \<Rightarrow> gd_consolidation defaults),
               gd_max_concurrent_syncs := (case gu_max_concurrent_syncs body of Some n \<Rightarrow> n | None \<Rightarrow> gd_max_concurrent_syncs defaults)\<rparr>;
            w = store_update_global_defaults now defaults w
        in Inr (w\<lparr>pw_cache := invalidate_defaults_cache (pw_cache w)\<rparr>))"

text \<open>\<^verbatim>\<open>resolve_effective_policy\<close> on the stored documents.\<close>

definition effective_policy :: "seconds \<Rightarrow> string \<Rightarrow> policy_world \<Rightarrow> ResolvedPolicy \<times> policy_world" where
  "effective_policy now channel_id w =
     (case resolve_effective_policy now (store_get_channel_policy w channel_id) (store_get_global_defaults now w) (pw_cache w) of
        (r, c) \<Rightarrow> (r, w\<lparr>pw_cache := c\<rparr>))"

section \<open>Runs\<close>

datatype policy_event =
    Upsert "string \<Rightarrow> bool" string seconds string PolicyUpdateRequest
  | Delete "string \<Rightarrow> bool" string
  | Bulk "string \<Rightarrow> bool" "string \<Rightarrow> string" seconds "string list" string
  | Update_defaults seconds GlobalDefaultsUpdateRequest
  | Resolve seconds string

text \<open>A request that fails leaves the state alone.\<close>

definition applied :: "http_error + policy_world \<Rightarrow> policy_world \<Rightarrow> policy_world" where
  "applied result w = (case result of Inr w' \<Rightarrow> w' | Inl _ \<Rightarrow> w)"

fun policy_step :: "policy_event \<Rightarrow> policy_world \<Rightarrow> policy_world" where
  "policy_step (Upsert acc i now c body) w = applied (upsert_channel_policy_write acc i now c body w) w"
| "policy_step (Delete acc c) w = applied (delete_channel_policy_write acc c w) w"
| "policy_step (Bulk acc i now cs preset) w = applied (bulk_apply_policy_write acc i now cs preset w) w"
| "policy_step (Update_defaults now body) w = applied (update_global_defaults now body w) w"
| "policy_step (Resolve now c) w = snd (effective_policy now c w)"

definition same_config :: "GlobalPolicyDefaults \<Rightarrow> GlobalPolicyDefaults \<Rightarrow> bool" where
  "same_config d e \<longleftrightarrow> gd_sync d = gd_sync e \<and> gd_ingestion d = gd_ingestion e \<and>
     gd_consolidation d = gd_consolidation e \<and> gd_wiki d = gd_wiki e"

definition cache_coherent :: "policy_world \<Rightarrow> bool" where
  "cache_coherent w =
     (case cached_defaults (pw_cache w) of Some d \<Rightarrow> same_config d (store_get_global_defaults 0 w) | None \<Rightarrow> True)"

definition keys_ok :: "policy_world \<Rightarrow> bool" where
  "keys_ok w \<longleftrightarrow> (\<forall>k p. map_of (pw_policies w) k = Some p \<longrightarrow> cp_channel_id p = k)"

definition world_inv :: "policy_world \<Rightarrow> bool" where
  "world_inv w \<longleftrightarrow> cache_coherent w \<and> keys_ok w"

lemma same_config_refl [simp]: "same_config d d"
  by (simp add: same_config_def)

lemma stored_defaults_now: "same_config (store_get_global_defaults now w) (store_get_global_defaults now' w)"
  by (simp add: store_get_global_defaults_def same_config_def GlobalPolicyDefaults_default_def split: option.split)

lemma resolve_same_config: "same_config d e \<Longrightarrow> resolve_policy ch d = resolve_policy ch e"
  by (simp add: resolve_policy_def same_config_def split: option.split)

lemma store_upsert_inv: "world_inv w \<Longrightarrow> world_inv (store_upsert_channel_policy now p w)"
  by (auto simp: world_inv_def cache_coherent_def keys_ok_def store_upsert_channel_policy_def
      store_get_global_defaults_def split: option.splits if_splits)

lemma delete_inv: "world_inv w \<Longrightarrow> world_inv (w\<lparr>pw_policies := AList.delete c (pw_policies w)\<rparr>)"
  by (auto simp: world_inv_def cache_coherent_def keys_ok_def store_get_global_defaults_def
      split: option.splits if_splits)

lemma bulk_one_inv: "world_inv w \<Longrightarrow> world_inv (bulk_apply_one i now preset p c w)"
  unfolding bulk_apply_one_def by (rule store_upsert_inv)

lemma bulk_inv: "world_inv w \<Longrightarrow> world_inv (fold (bulk_apply_one i now preset p) cs w)"
  by (induction cs arbitrary: w) (simp_all add: bulk_one_inv)

lemma update_defaults_inv: "world_inv w \<Longrightarrow> update_global_defaults now body w = Inr w' \<Longrightarrow> world_inv w'"
  by (auto simp: update_global_defaults_def Let_def world_inv_def cache_coherent_def keys_ok_def
      invalidate_defaults_cache_def store_update_global_defaults_def split: if_splits)

lemma resolve_inv: "world_inv w \<Longrightarrow> world_inv (snd (effective_policy now c w))"
  using stored_defaults_now [of now w 0]
  by (auto simp: effective_policy_def resolve_effective_policy_def get_cached_defaults_def world_inv_def
      cache_coherent_def keys_ok_def store_get_global_defaults_def split: option.splits if_splits)

lemma policy_step_inv: "world_inv w \<Longrightarrow> world_inv (policy_step e w)"
proof (cases e)
  case (Upsert acc i now c body)
  assume "world_inv w"
  then show ?thesis using Upsert
    by (auto simp: applied_def upsert_channel_policy_write_def store_upsert_inv split: option.split)
next
  case (Delete acc c)
  assume "world_inv w"
  then show ?thesis using Delete by (simp add: applied_def delete_channel_policy_write_def delete_inv)
next
  case (Bulk acc i now cs preset)
  assume "world_inv w"
  then show ?thesis using Bulk by (simp add: applied_def bulk_apply_policy_write_def bulk_inv split: option.split)
next
  case (Update_defaults now body)
  assume "world_inv w"
  then show ?thesis using Update_defaults update_defaults_inv
    by (auto simp: applied_def split: sum.split)
next
  case (Resolve now c)
  assume "world_inv w"
  then show ?thesis using Resolve by (simp add: resolve_inv)
qed

interpretation policy_machine: invariant_machine policy_step "\<lambda>_ _. True" world_inv
  by unfold_locales (rule policy_step_inv)

lemma policy_admissible: "policy_machine.admissible es w"
  by (induction es arbitrary: w) simp_all

lemma coherent_reads:
  assumes "world_inv w"
  shows "fst (effective_policy now c w)
    = resolve_policy (store_get_channel_policy w c) (store_get_global_defaults now w)"
proof (cases "cached_defaults (pw_cache w)")
  case (Some d)
  then have "same_config d (store_get_global_defaults now w)"
    using assms stored_defaults_now [of 0 w now] by (simp add: world_inv_def cache_coherent_def same_config_def)
  from resolve_same_config [OF this] Some show ?thesis
    by (simp add: effective_policy_def resolve_effective_policy_def get_cached_defaults_def)
next
  case None
  then show ?thesis by (simp add: effective_policy_def resolve_effective_policy_def get_cached_defaults_def)
qed

section \<open>Properties\<close>


definition empty_world :: policy_world where
  "empty_world = \<lparr>pw_policies = [], pw_defaults = None, pw_cache = defaults_cache_init\<rparr>"

definition daily_request :: PolicyUpdateRequest where
  "daily_request = \<lparr>pu_preset = Some ''daily-digest'', pu_sync = None, pu_ingestion = None,
     pu_consolidation = None, pu_enabled = None\<rparr>"

definition raise_limit :: GlobalDefaultsUpdateRequest where
  "raise_limit = \<lparr>gu_sync = Some (SyncConfig_empty\<lparr>max_messages := Some 9000\<rparr>), gu_ingestion = None,
     gu_consolidation = None, gu_max_concurrent_syncs = None\<rparr>"


lemma bulk_one_lookup:
  assumes "keys_ok w"
  shows "store_get_channel_policy (bulk_apply_one i now preset p c w) k =
    (if k = c then
       Some ((case store_get_channel_policy w c of
          Some existing \<Rightarrow> existing\<lparr>cp_sync := preset_sync p, cp_ingestion := preset_ingestion p,
              cp_consolidation := preset_consolidation p, cp_preset := Some preset\<rparr>
        | None \<Rightarrow> fresh_policy (i c) now c preset (preset_sync p) (preset_ingestion p) (preset_consolidation p) True)
        \<lparr>cp_updated_at := now\<rparr>)
     else store_get_channel_policy w k)"
  using assms
  by (auto simp: bulk_apply_one_def store_upsert_channel_policy_def store_get_channel_policy_def keys_ok_def
      fresh_policy_def split: option.split)

text \<open>What a bulk request makes of the policy of a listed channel.\<close>

definition follows_preset :: "preset_config \<Rightarrow> string \<Rightarrow> ChannelPolicy option \<Rightarrow> ChannelPolicy option \<Rightarrow> bool" where
  "follows_preset p preset before after =
     (case after of
        None \<Rightarrow> False
      | Some a \<Rightarrow>
          cp_sync a = preset_sync p \<and> cp_ingestion a = preset_ingestion p \<and> cp_consolidation a = preset_consolidation p \<and>
          cp_preset a = Some preset \<and>
          cp_wiki a = (case before of Some b \<Rightarrow> cp_wiki b | None \<Rightarrow> WikiConfig_empty) \<and>
          cp_enabled a = (case before of Some b \<Rightarrow> cp_enabled b | None \<Rightarrow> True))"

lemma keys_ok_bulk_one: "keys_ok w \<Longrightarrow> keys_ok (bulk_apply_one i now preset p c w)"
  by (auto simp: bulk_apply_one_def store_upsert_channel_policy_def store_get_channel_policy_def keys_ok_def
      fresh_policy_def split: option.split if_splits)

lemma follows_preset_step:
  "keys_ok w \<Longrightarrow> follows_preset p preset (store_get_channel_policy w c)
     (store_get_channel_policy (bulk_apply_one i now preset p c w) c)"
  by (simp add: bulk_one_lookup follows_preset_def fresh_policy_def split: option.split)

lemma follows_preset_trans:
  "follows_preset p preset a b \<Longrightarrow> follows_preset p preset b c \<Longrightarrow> follows_preset p preset a c"
  by (auto simp: follows_preset_def split: option.splits)

lemma bulk_fold:
  "keys_ok w \<Longrightarrow>
     (k \<notin> set cs \<longrightarrow> store_get_channel_policy (fold (bulk_apply_one i now preset p) cs w) k = store_get_channel_policy w k) \<and>
     (k \<in> set cs \<longrightarrow> follows_preset p preset (store_get_channel_policy w k)
        (store_get_channel_policy (fold (bulk_apply_one i now preset p) cs w) k))"
proof (induction cs arbitrary: w)
  case (Cons c cs)
  let ?w = "bulk_apply_one i now preset p c w"
  note ih = Cons.IH [OF keys_ok_bulk_one [OF Cons.prems], of i now preset p c]
  have other: "k \<noteq> c \<Longrightarrow> store_get_channel_policy ?w k = store_get_channel_policy w k"
    using bulk_one_lookup [OF Cons.prems] by simp
  show ?case
  proof (cases "k = c")
    case True
    note here = follows_preset_step [OF Cons.prems, of p preset c i now]
    from follows_preset_trans [OF here] ih here True show ?thesis by (cases "k \<in> set cs") auto
  next
    case False
    then show ?thesis using ih other by simp
  qed
qed simp

text \<open>
  A bulk request is all or nothing over the caller's access: when one listed channel is
  not accessible or the preset is unknown nothing is written; otherwise every listed channel gets
  the preset's sync, ingestion and consolidation settings and keeps its wiki settings and enabled
  flag, and every other channel keeps its policy.
\<close>

theorem bulk_apply_effect:
  assumes "keys_ok w"
  shows "case bulk_apply_policy_write may_access new_id now channel_ids preset w of
      Inl e \<Rightarrow> get_preset_config preset = None \<or> \<not> list_all may_access channel_ids
    | Inr w' \<Rightarrow> list_all may_access channel_ids \<and>
        (\<forall>k. if k \<in> set channel_ids
          then follows_preset (the (get_preset_config preset)) preset (store_get_channel_policy w k) (store_get_channel_policy w' k)
          else store_get_channel_policy w' k = store_get_channel_policy w k)"
  using bulk_fold [OF assms] by (simp add: bulk_apply_policy_write_def split: option.split)

theorem bulk_apply_effect_witness:
  "follows_preset (the (get_preset_config ''lightweight'')) ''lightweight'' None
     (store_get_channel_policy (fold (bulk_apply_one id 0 ''lightweight'' (the (get_preset_config ''lightweight''))) [''a'', ''b''] empty_world) ''b'')"
proof -
  have ok: "keys_ok empty_world" by (simp add: empty_world_def keys_ok_def)
  obtain p where "get_preset_config ''lightweight'' = Some p" by (simp add: get_preset_config_def PRESETS_def)
  moreover have "store_get_channel_policy empty_world ''b'' = None" by (simp add: store_get_channel_policy_def empty_world_def)
  ultimately show ?thesis
    using bulk_apply_effect [OF ok, where may_access = "\<lambda>_. True" and new_id = id and now = 0
        and channel_ids = "[''a'', ''b'']" and preset = "''lightweight''"]
    by (auto simp: bulk_apply_policy_write_def dest: spec [of _ "''b''"])
qed

text \<open>
  Every preset yields a runnable policy on a fresh channel under the built-in defaults:
  its trigger is schedulable, its cooldown does not exceed its own interval, its thresholds are in
  range and ordered, and its strategies are set.
\<close>

theorem presets_runnable:
  "list_all (\<lambda>(name, p).
     case upsert_channel_policy_write (\<lambda>_. True) ''id'' 0 ''c'' (daily_request\<lparr>pu_preset := Some name\<rparr>) empty_world of
       Inr w \<Rightarrow> sane_policy (fst (effective_policy 1 ''c'' w))
     | Inl e \<Rightarrow> False) PRESETS"
  by code_simp

text \<open>
  Applying a preset does not apply its wiki settings: a channel put on the lightweight
  preset, whose wiki generation is manual, still regenerates its wiki after every consolidation.
\<close>

theorem preset_wiki_not_applied:
  "map_option (\<lambda>p. generation_strategy (preset_wiki p)) (get_preset_config ''lightweight'') = Some (Some Wiki_manual) \<and>
   (case upsert_channel_policy_write (\<lambda>_. True) ''id'' 0 ''c'' (daily_request\<lparr>pu_preset := Some ''lightweight''\<rparr>) empty_world of
      Inr w \<Rightarrow> generation_strategy (rp_wiki (fst (effective_policy 1 ''c'' w))) = Some Wiki_after_consolidation
    | Inl e \<Rightarrow> False)"
  by code_simp

end
