(* ===== verification/Pipeline_Events.thy ===== *)
theory Pipeline_Events
  imports Py_Json Keyed_Registry
begin

text \<open>
  The activity feed of \<^verbatim>\<open>services/pipeline_events.py\<close>: a ring of the most recent events per channel,
  with a ring of parse-failure times beside it. Each method runs under the buffer's lock and is one
  step. The clock reading and \<^verbatim>\<open>isoformat\<close> are arguments.
\<close>

section \<open>Model\<close>

definition EVENT_TYPE_MESSAGE_PROCESSING :: string where
  "EVENT_TYPE_MESSAGE_PROCESSING = ''message_processing''"

definition EVENT_TYPE_AGENT_STATE :: string where
  "EVENT_TYPE_AGENT_STATE = ''agent_state''"

definition EVENT_TYPE_PARSE_FAILURE :: string where
  "EVENT_TYPE_PARSE_FAILURE = ''parse_failure''"

record Event =
  ev_ts :: seconds
  ev_stage :: string
  ev_label :: string
  ev_event_type :: string
  ev_payload :: "(string \<times> json) list option"

definition MAX_PER_CHANNEL :: nat where
  "MAX_PER_CHANNEL = 200"

record PipelineEventBuffer =
  peb_events :: "(string, Event list) dict"
  peb_parse_failure_ts :: "(string, seconds list) dict"

definition PipelineEventBuffer_init :: PipelineEventBuffer where
  "PipelineEventBuffer_init = \<lparr>peb_events = [], peb_parse_failure_ts = []\<rparr>"

definition bucket_at :: "(string, 'a list) dict \<Rightarrow> string \<Rightarrow> 'a list" where
  "bucket_at d k = (case map_of d k of Some b \<Rightarrow> b | None \<Rightarrow> [])"

definition PipelineEventBuffer_record ::
    "seconds \<Rightarrow> string \<Rightarrow> string \<Rightarrow> string \<Rightarrow> seconds option \<Rightarrow> string \<Rightarrow> (string \<times> json) list option \<Rightarrow>
     PipelineEventBuffer \<Rightarrow> PipelineEventBuffer" where
  "PipelineEventBuffer_record now channel_id stage label ts event_type payload b =
     (if channel_id = [] then b
      else
        let evt = \<lparr>ev_ts = (case ts of Some t \<Rightarrow> t | None \<Rightarrow> now), ev_stage = stage, ev_label = label,
                   ev_event_type = event_type, ev_payload = payload\<rparr>;
            b = b\<lparr>peb_events := AList.update channel_id
                    (deque_append MAX_PER_CHANNEL (bucket_at (peb_events b) channel_id) evt) (peb_events b)\<rparr>
        in if event_type = EVENT_TYPE_PARSE_FAILURE then
             b\<lparr>peb_parse_failure_ts := AList.update channel_id
                 (deque_append 200 (bucket_at (peb_parse_failure_ts b) channel_id) (ev_ts evt)) (peb_parse_failure_ts b)\<rparr>
           else b)"

definition parse_failure_count_last_10_min :: "seconds \<Rightarrow> string \<Rightarrow> PipelineEventBuffer \<Rightarrow> nat" where
  "parse_failure_count_last_10_min now channel_id b =
     (let bucket = bucket_at (peb_parse_failure_ts b) channel_id in
      if bucket = [] then 0
      else let cutoff = now - 600 in length (filter (\<lambda>ts. ts \<ge> cutoff) bucket))"

text \<open>The loop of \<^verbatim>\<open>recent_for\<close>: append, then test the length.\<close>

fun recent_loop :: "int \<Rightarrow> Event list \<Rightarrow> Event list \<Rightarrow> Event list" where
  "recent_loop limit out [] = out"
| "recent_loop limit out (evt # rest) =
     (let out = out @ [evt] in if int (length out) \<ge> max 0 limit then out else recent_loop limit out rest)"

definition recent_for :: "string \<Rightarrow> int \<Rightarrow> PipelineEventBuffer \<Rightarrow> Event list" where
  "recent_for channel_id limit b =
     (let bucket = bucket_at (peb_events b) channel_id in
      if bucket = [] then [] else recent_loop limit [] (rev bucket))"

definition PipelineEventBuffer_clear :: "string option \<Rightarrow> PipelineEventBuffer \<Rightarrow> PipelineEventBuffer" where
  "PipelineEventBuffer_clear channel_id b =
     (case channel_id of
        None \<Rightarrow> b\<lparr>peb_events := []\<rparr>
      | Some c \<Rightarrow> b\<lparr>peb_events := AList.delete c (peb_events b)\<rparr>)"

text \<open>The module's singleton; \<^const>\<open>None\<close> until first use.\<close>

definition get_pipeline_events :: "PipelineEventBuffer option \<Rightarrow> PipelineEventBuffer" where
  "get_pipeline_events singleton = (case singleton of Some b \<Rightarrow> b | None \<Rightarrow> PipelineEventBuffer_init)"

definition opt_field :: "string \<Rightarrow> ('a \<Rightarrow> json) \<Rightarrow> 'a option \<Rightarrow> (string \<times> json) list" where
  "opt_field k f v = (case v of Some x \<Rightarrow> [(k, f x)] | None \<Rightarrow> [])"

definition emit_agent_state ::
    "seconds \<Rightarrow> string \<Rightarrow> string \<Rightarrow> string \<Rightarrow> string option \<Rightarrow> int option \<Rightarrow> string option \<Rightarrow>
     PipelineEventBuffer option \<Rightarrow> PipelineEventBuffer option" where
  "emit_agent_state now channel_id agent state batch_id elapsed_ms error_class singleton =
     (let payload = [(''agent'', JStr agent), (''state'', JStr state)] @ opt_field ''batch_id'' JStr batch_id
            @ opt_field ''elapsed_ms'' JInt elapsed_ms @ opt_field ''error_class'' JStr error_class;
          label = agent @ '' '' @ state;
          label = (case elapsed_ms of Some ms \<Rightarrow> label @ '' ('' @ py_str_int ms @ ''ms)'' | None \<Rightarrow> label)
      in Some (PipelineEventBuffer_record now channel_id ''agent'' label None EVENT_TYPE_AGENT_STATE (Some payload)
                 (get_pipeline_events singleton)))"

definition emit_message_processing ::
    "(seconds \<Rightarrow> string) \<Rightarrow> seconds \<Rightarrow> string \<Rightarrow> string \<Rightarrow> string \<Rightarrow> string \<Rightarrow> seconds option \<Rightarrow>
     PipelineEventBuffer option \<Rightarrow> PipelineEventBuffer option" where
  "emit_message_processing isoformat now channel_id message_id text_preview author ts singleton =
     (let preview = take 200 text_preview in
      Some (PipelineEventBuffer_record now channel_id ''message'' (''Processing '' @ take 32 message_id) None
        EVENT_TYPE_MESSAGE_PROCESSING
        (Some [(''message_id'', JStr message_id), (''text_preview'', JStr preview), (''author'', JStr author),
               (''ts'', case ts of Some t \<Rightarrow> JStr (isoformat t) | None \<Rightarrow> JNull)])
        (get_pipeline_events singleton)))"

section \<open>Runs of record calls\<close>

record record_call =
  rc_now :: seconds
  rc_channel :: string
  rc_stage :: string
  rc_label :: string
  rc_ts :: "seconds option"
  rc_event_type :: string
  rc_payload :: "(string \<times> json) list option"

definition do_record :: "record_call \<Rightarrow> PipelineEventBuffer \<Rightarrow> PipelineEventBuffer" where
  "do_record c = PipelineEventBuffer_record (rc_now c) (rc_channel c) (rc_stage c) (rc_label c) (rc_ts c)
     (rc_event_type c) (rc_payload c)"

definition call_event :: "record_call \<Rightarrow> Event" where
  "call_event c = \<lparr>ev_ts = (case rc_ts c of Some t \<Rightarrow> t | None \<Rightarrow> rc_now c), ev_stage = rc_stage c,
     ev_label = rc_label c, ev_event_type = rc_event_type c, ev_payload = rc_payload c\<rparr>"

definition channel_events :: "string \<Rightarrow> record_call list \<Rightarrow> Event list" where
  "channel_events ch calls = map call_event (filter (\<lambda>c. rc_channel c = ch) calls)"

definition failure_times :: "string \<Rightarrow> record_call list \<Rightarrow> seconds list" where
  "failure_times ch calls = map ev_ts (filter (\<lambda>e. ev_event_type e = EVENT_TYPE_PARSE_FAILURE) (channel_events ch calls))"

lemma channel_events_snoc:
  "channel_events ch (calls @ [c]) = channel_events ch calls @ (if rc_channel c = ch then [call_event c] else [])"
  by (simp add: channel_events_def)

lemma failure_times_snoc:
  "failure_times ch (calls @ [c]) = failure_times ch calls @
     (if rc_channel c = ch \<and> rc_event_type c = EVENT_TYPE_PARSE_FAILURE then [ev_ts (call_event c)] else [])"
  by (simp add: failure_times_def channel_events_snoc) (simp add: call_event_def)

lemma bucket_at_update: "bucket_at (AList.update k v d) k' = (if k' = k then v else bucket_at d k')"
  by (simp add: bucket_at_def)

lemma record_events:
  "ch \<noteq> [] \<Longrightarrow> bucket_at (peb_events (do_record c b)) ch =
     (if rc_channel c = ch then deque_append MAX_PER_CHANNEL (bucket_at (peb_events b) ch) (call_event c)
      else bucket_at (peb_events b) ch)"
  by (simp add: do_record_def PipelineEventBuffer_record_def call_event_def Let_def bucket_at_update)

lemma record_failures:
  "ch \<noteq> [] \<Longrightarrow> bucket_at (peb_parse_failure_ts (do_record c b)) ch =
     (if rc_channel c = ch \<and> rc_event_type c = EVENT_TYPE_PARSE_FAILURE
      then deque_append 200 (bucket_at (peb_parse_failure_ts b) ch) (ev_ts (call_event c))
      else bucket_at (peb_parse_failure_ts b) ch)"
  by (simp add: do_record_def PipelineEventBuffer_record_def call_event_def Let_def bucket_at_update)

lemma last_n_append:
  "0 < m \<Longrightarrow> deque_append m (drop (length xs - m) xs) x = drop (length (xs @ [x]) - m) (xs @ [x])"
  using deque_append_fold [of m "[x]" xs] by simp

lemma run_events:
  assumes "ch \<noteq> []"
  shows "bucket_at (peb_events (fold do_record calls PipelineEventBuffer_init)) ch
    = drop (length (channel_events ch calls) - MAX_PER_CHANNEL) (channel_events ch calls)"
proof (induction calls rule: rev_induct)
  case Nil
  show ?case by (simp add: channel_events_def PipelineEventBuffer_init_def bucket_at_def)
next
  case (snoc c calls)
  then show ?case using last_n_append [of MAX_PER_CHANNEL "channel_events ch calls" "call_event c"]
    by (simp add: record_events [OF assms] channel_events_snoc MAX_PER_CHANNEL_def)
qed

lemma run_failures:
  assumes "ch \<noteq> []"
  shows "bucket_at (peb_parse_failure_ts (fold do_record calls PipelineEventBuffer_init)) ch
    = drop (length (failure_times ch calls) - 200) (failure_times ch calls)"
proof (induction calls rule: rev_induct)
  case Nil
  show ?case by (simp add: failure_times_def channel_events_def PipelineEventBuffer_init_def bucket_at_def)
next
  case (snoc c calls)
  then show ?case using last_n_append [of 200 "failure_times ch calls" "ev_ts (call_event c)"]
    by (simp add: record_failures [OF assms] failure_times_snoc)
qed

lemma recent_loop_take:
  "length out < nat (max 1 limit) \<Longrightarrow> recent_loop limit out evts = out @ take (nat (max 1 limit) - length out) evts"
proof (induction evts arbitrary: out)
  case (Cons e evts)
  show ?case
  proof (cases "int (length (out @ [e])) \<ge> max 0 limit")
    case True
    then have "nat (max 1 limit) - length out = 1" using Cons.prems by (auto simp: max_def split: if_splits)
    with True show ?thesis by simp
  next
    case False
    then have "length (out @ [e]) < nat (max 1 limit)" by (auto simp: max_def split: if_splits)
    moreover from this have "nat (max 1 limit) - length out = Suc (nat (max 1 limit) - length (out @ [e]))" by simp
    ultimately show ?thesis using Cons.IH False by simp
  qed
qed simp

section \<open>Properties\<close>

text \<open>
  After any run of record calls, the recent events of a channel are its own last 200
  events, newest first, cut at the limit, where a limit below one counts as one; events of other
  channels never show.
\<close>

theorem recent_events_exact:
  assumes "ch \<noteq> []"
  shows "recent_for ch limit (fold do_record calls PipelineEventBuffer_init)
    = take (nat (max 1 limit)) (take 200 (rev (channel_events ch calls)))"
proof -
  have "recent_for ch limit b = take (nat (max 1 limit)) (rev (bucket_at (peb_events b) ch))" for b
    using recent_loop_take [of "[]" limit] by (simp add: recent_for_def Let_def)
  then show ?thesis by (simp only: run_events [OF assms] MAX_PER_CHANNEL_def take_rev [symmetric])
qed

definition sample_calls :: "record_call list" where
  "sample_calls =
     (let call = \<lparr>rc_now = 1, rc_channel = ''a'', rc_stage = ''s'', rc_label = ''one'', rc_ts = None,
                  rc_event_type = ''legacy'', rc_payload = None\<rparr>
      in [call, call\<lparr>rc_channel := ''b''\<rparr>, call\<lparr>rc_label := ''two'', rc_now := 2\<rparr>])"

theorem recent_events_exact_witness:
  "map ev_label (recent_for ''a'' 10 (fold do_record sample_calls PipelineEventBuffer_init)) = [''two'', ''one'']"
  by (subst recent_events_exact) (simp_all add: channel_events_def sample_calls_def call_event_def)

text \<open>
  The parse-failure count of a channel is the number of its own parse failures, among
  the last 200 of them, that are at most ten minutes old.
\<close>

theorem parse_failure_count_exact:
  assumes "ch \<noteq> []"
  shows "parse_failure_count_last_10_min now ch (fold do_record calls PipelineEventBuffer_init)
    = length (filter (\<lambda>t. now - 600 \<le> t) (take 200 (rev (failure_times ch calls))))"
proof -
  have "parse_failure_count_last_10_min now ch b
      = length (filter (\<lambda>t. now - 600 \<le> t) (rev (bucket_at (peb_parse_failure_ts b) ch)))" for b
    by (simp add: parse_failure_count_last_10_min_def Let_def flip: rev_filter)
  then show ?thesis by (simp only: run_failures [OF assms] take_rev [symmetric])
qed

theorem parse_failure_count_exact_witness:
  "parse_failure_count_last_10_min 601 ''a''
     (fold do_record (map (\<lambda>c. c\<lparr>rc_event_type := EVENT_TYPE_PARSE_FAILURE\<rparr>) sample_calls) PipelineEventBuffer_init) = 2"
  by (subst parse_failure_count_exact)
    (simp_all add: failure_times_def channel_events_def sample_calls_def call_event_def EVENT_TYPE_PARSE_FAILURE_def)

text \<open>
  Clearing a channel, or all of them, does not clear the parse-failure counter: the
  count after the clear is the count before it.
\<close>

theorem clear_keeps_parse_failures:
  "parse_failure_count_last_10_min now ch (PipelineEventBuffer_clear c b) = parse_failure_count_last_10_min now ch b \<and>
   recent_for ch limit (PipelineEventBuffer_clear (Some ch) b) = []"
  by (simp add: parse_failure_count_last_10_min_def PipelineEventBuffer_clear_def recent_for_def bucket_at_def
      split: option.split)

end
