(* ===== verification/ETA_Calculator.thy ===== *)
theory ETA_Calculator
  imports Atlas_Prelude
begin

text \<open>
  The smoothed ETA of \<^verbatim>\<open>services/eta_calculator.py\<close>: an exponentially weighted average of the
  row rates between consecutive non-empty ticks of the last five minutes. Python's \<^verbatim>\<open>sort\<close> is
  stable, as \<^const>\<open>sort_key\<close> is.
\<close>

section \<open>Model\<close>

definition WINDOW_SECONDS_ETA :: seconds where
  "WINDOW_SECONDS_ETA = 5 * 60"

definition ALPHA :: rat where
  "ALPHA = 3 / 10"

definition MIN_SAMPLES :: nat where
  "MIN_SAMPLES = 3"

fun tick_rates :: "(seconds \<times> int) list \<Rightarrow> rat list" where
  "tick_rates ((t0, n0) # (t1, n1) # rest) =
     (let dt = t1 - t0 in
      (if dt \<le> 0 then [] else [of_int n1 / dt]) @ tick_rates ((t1, n1) # rest))"
| "tick_rates _ = []"

definition ewma_rates :: "rat \<Rightarrow> rat list \<Rightarrow> rat" where
  "ewma_rates r rs = foldl (\<lambda>ewma r. ALPHA * r + (1 - ALPHA) * ewma) r rs"

definition samples_in_window :: "(seconds \<times> int) list \<Rightarrow> seconds \<Rightarrow> (seconds \<times> int) list" where
  "samples_in_window samples now = filter (\<lambda>(ts, n). now - ts \<le> WINDOW_SECONDS_ETA \<and> n > 0) samples"

definition smoothed_rate :: "(seconds \<times> int) list \<Rightarrow> seconds \<Rightarrow> rat option" where
  "smoothed_rate samples now =
     (let in_window = samples_in_window samples now in
      if length in_window < MIN_SAMPLES then None
      else case tick_rates (sort_key fst in_window) of
             [] \<Rightarrow> None
           | r # rs \<Rightarrow> Some (ewma_rates r rs))"

definition smoothed_eta :: "(seconds \<times> int) list \<Rightarrow> int \<Rightarrow> seconds \<Rightarrow> int option" where
  "smoothed_eta samples remaining now =
     (if remaining \<le> 0 then Some 0
      else case smoothed_rate samples now of
             None \<Rightarrow> None
           | Some rate \<Rightarrow> if rate \<le> 0 then None else Some (py_int (of_int remaining / rate)))"

section \<open>Bounds\<close>

lemma ewma_between:
  assumes "lo \<le> r" "r \<le> hi" "\<forall>x \<in> set rs. lo \<le> x \<and> x \<le> hi"
  shows "lo \<le> ewma_rates r rs \<and> ewma_rates r rs \<le> hi"
  using assms
proof (induction rs arbitrary: r)
  case (Cons x rs)
  have "lo \<le> ALPHA * x + (1 - ALPHA) * r" "ALPHA * x + (1 - ALPHA) * r \<le> hi"
    using Cons.prems by (auto simp: ALPHA_def)
  with Cons show ?case by (simp add: ewma_rates_def)
qed (simp add: ewma_rates_def)

lemma tick_rates_positive:
  "\<forall>(t, n) \<in> set xs. 0 < n \<Longrightarrow> r \<in> set (tick_rates xs) \<Longrightarrow> 0 < r"
  by (induction xs rule: tick_rates.induct) (auto simp: Let_def split: if_splits)

lemma window_positive: "\<forall>(t, n) \<in> set (sort_key fst (samples_in_window samples now)). 0 < n"
  by (auto simp: samples_in_window_def)

lemma smoothed_rate_Some:
  assumes "smoothed_rate samples now = Some rate"
  obtains r rs where "tick_rates (sort_key fst (samples_in_window samples now)) = r # rs" "rate = ewma_rates r rs"
  using assms by (auto simp: smoothed_rate_def Let_def split: if_splits list.splits)

text \<open>
  The smoothed rate is positive and lies between the slowest and the fastest of the
  observed tick rates, so the ETA is never longer than the slowest tick alone would predict and
  never shorter than the fastest one would, to the second.
\<close>

theorem eta_between_extremes:
  assumes "smoothed_eta samples remaining now = Some eta" "0 < remaining"
  shows "\<exists>r1 \<in> set (tick_rates (sort_key fst (samples_in_window samples now))).
      \<exists>r2 \<in> set (tick_rates (sort_key fst (samples_in_window samples now))).
      0 < r1 \<and> of_int remaining / r2 - 1 < of_int eta \<and> of_int eta \<le> of_int remaining / r1"
proof -
  let ?rates = "tick_rates (sort_key fst (samples_in_window samples now))"
  obtain rate where rate: "smoothed_rate samples now = Some rate" "0 < rate" "eta = py_int (of_int remaining / rate)"
    using assms by (auto simp: smoothed_eta_def split: option.splits if_splits)
  obtain r rs where rs: "?rates = r # rs" "rate = ewma_rates r rs" using smoothed_rate_Some [OF rate(1)] by blast
  have fin: "finite (set ?rates)" "set ?rates \<noteq> {}" using rs(1) by simp_all
  let ?lo = "Min (set ?rates)" and ?hi = "Max (set ?rates)"
  have lo: "?lo \<in> set ?rates" and hi: "?hi \<in> set ?rates" using Min_in Max_in fin by blast+
  have "\<forall>x \<in> set ?rates. ?lo \<le> x \<and> x \<le> ?hi" using fin by simp
  then have bounds: "?lo \<le> rate" "rate \<le> ?hi" using ewma_between [of ?lo r ?hi rs] rs by auto
  have pos: "0 < ?lo" using tick_rates_positive [OF window_positive lo] .
  have q: "of_int remaining / ?hi \<le> of_int remaining / rate" "of_int remaining / rate \<le> of_int remaining / ?lo"
    using bounds pos rate(2) assms(2) by (auto intro!: divide_left_mono mult_pos_pos)
  have "0 \<le> of_int remaining / rate" using assms(2) rate(2) by simp
  from py_int_le [OF this] py_int_gt [of "of_int remaining / rate"] q rate(3)
  have "of_int remaining / ?hi - 1 < of_int eta" "of_int eta \<le> of_int remaining / ?lo" by linarith+
  with lo hi pos show ?thesis by blast
qed

theorem eta_between_extremes_witness:
  "smoothed_eta [(0, 5), (10, 20), (20, 10)] 85 20 = Some 50 \<and>
   (\<exists>r1 \<in> set (tick_rates (sort_key fst (samples_in_window [(0, 5), (10, 20), (20, 10)] 20))).
      0 < r1 \<and> of_int 50 \<le> of_int 85 / r1)"
proof -
  have eta: "smoothed_eta [(0, 5), (10, 20), (20, 10)] 85 20 = Some 50" by code_simp
  from eta_between_extremes [OF this] show ?thesis using eta by auto
qed

end
