(* ===== verification/Citation_Registry.thy ===== *)
theory Citation_Registry
  imports Py_Json Keyed_Registry
begin

text \<open>
  The per-turn citation registry of \<^verbatim>\<open>agents/citations/registry.py\<close> and its records
  (\<^verbatim>\<open>agents/citations/types.py\<close>). SHA-1, \<^verbatim>\<open>float()\<close> of a score and the injected permalink resolver are
  function arguments; an exception of the resolver is \<^const>\<open>None\<close>. The ellipsis U+2026 that ends a
  truncated excerpt lies outside the modelled characters and is written as the substitute character.
\<close>

section \<open>Model\<close>

record MediaAttachment =
  ma_kind :: string
  ma_url :: string
  ma_thumbnail_url :: "string option"
  ma_mime_type :: "string option"
  ma_filename :: "string option"
  ma_title :: "string option"
  ma_alt_text :: "string option"
  ma_width :: "int option"
  ma_height :: "int option"
  ma_byte_size :: "int option"

record Source =
  src_id :: string
  src_kind :: string
  src_title :: string
  src_excerpt :: string
  src_retrieved_by :: "(string \<times> json) list"
  src_native :: "(string \<times> json) list"
  src_attachments :: "MediaAttachment list"
  src_permalink :: "string option"
  src_created_at :: string

record CitationRef =
  cr_marker :: int
  cr_source_id :: string
  cr_inline :: bool
  cr_ranges :: "(string \<times> int) list list"
  cr_note :: "string option"

record CitationEnvelope =
  env_items :: "json list"
  env_sources :: "Source list"
  env_refs :: "CitationRef list"

definition CitationEnvelope_empty :: CitationEnvelope where
  "CitationEnvelope_empty = \<lparr>env_items = [], env_sources = [], env_refs = []\<rparr>"

record MarkerRecord =
  mr_marker :: int
  mr_inline :: bool

record SourceRegistry =
  sr_session_id :: string
  sr_sources :: "(string, Source) dict"
  sr_markers :: "(string, MarkerRecord) dict"
  sr_order :: "string list"

definition SourceRegistry_init :: "string \<Rightarrow> SourceRegistry" where
  "SourceRegistry_init session_id = \<lparr>sr_session_id = session_id, sr_sources = [], sr_markers = [], sr_order = []\<rparr>"

definition EXCERPT_CAP :: nat where
  "EXCERPT_CAP = 400"

definition ELLIPSIS :: char where
  "ELLIPSIS = CHR 0x1A"

definition truncate_excerpt :: "string \<Rightarrow> string" where
  "truncate_excerpt text =
     (if text = [] then []
      else let text = py_strip text in
        if length text \<le> EXCERPT_CAP then text
        else
          let cutoff = take EXCERPT_CAP text;
              cutoff = (case py_rfind (CHR '' '') cutoff of
                          Some ws \<Rightarrow> if 10 * ws \<ge> 6 * EXCERPT_CAP then take ws cutoff else cutoff
                        | None \<Rightarrow> cutoff)
          in py_rstrip cutoff @ [ELLIPSIS])"

definition derive_id :: "(string \<Rightarrow> string) \<Rightarrow> string \<Rightarrow> string \<Rightarrow> string" where
  "derive_id sha1 kind native_identity = ''src_'' @ take 10 (sha1 (kind @ ''|'' @ native_identity))"

text \<open>\<^verbatim>\<open>_is_higher\<close>; an absent score is \<^verbatim>\<open>None\<close>, and \<^verbatim>\<open>float()\<close> raising gives \<^const>\<open>None\<close>.\<close>

definition is_higher :: "(json \<Rightarrow> rat option) \<Rightarrow> json option \<Rightarrow> json option \<Rightarrow> bool" where
  "is_higher py_float new old =
     (case new of
        None \<Rightarrow> False
      | Some JNull \<Rightarrow> False
      | Some n \<Rightarrow>
          (case old of
             None \<Rightarrow> True
           | Some JNull \<Rightarrow> True
           | Some v \<Rightarrow> (case (py_float n, py_float v) of (Some a, Some b) \<Rightarrow> a > b | _ \<Rightarrow> False)))"

text \<open>Attachments of a repeated registration, deduplicated by url.\<close>

definition merge_attachment :: "MediaAttachment \<Rightarrow> MediaAttachment list \<Rightarrow> MediaAttachment list" where
  "merge_attachment a existing =
     (if ma_url a \<noteq> [] \<and> ma_url a \<notin> set (map ma_url existing) then existing @ [a] else existing)"

definition register_again ::
    "(json \<Rightarrow> rat option) \<Rightarrow> (string \<times> json) list \<Rightarrow> MediaAttachment list \<Rightarrow> Source \<Rightarrow> Source" where
  "register_again py_float retrieved_by attachments existing =
     existing\<lparr>src_attachments := fold merge_attachment attachments (src_attachments existing),
       src_retrieved_by :=
         (if is_higher py_float (map_of retrieved_by ''score'') (map_of (src_retrieved_by existing) ''score'')
          then AList.update ''score'' (the (map_of retrieved_by ''score'')) (src_retrieved_by existing)
          else src_retrieved_by existing)\<rparr>"

definition SourceRegistry_register ::
    "(string \<Rightarrow> string) \<Rightarrow> (json \<Rightarrow> rat option) \<Rightarrow> string \<Rightarrow> string \<Rightarrow> string \<Rightarrow> (string \<times> json) list \<Rightarrow> string \<Rightarrow> string \<Rightarrow>
     (string \<times> json) list \<Rightarrow> MediaAttachment list \<Rightarrow> SourceRegistry \<Rightarrow> string option \<times> SourceRegistry" where
  "SourceRegistry_register sha1 py_float created_at kind native_identity native title excerpt retrieved_by attachments r =
     (let excerpt = truncate_excerpt excerpt in
      if excerpt = [] then (None, r)
      else
        let source_id = derive_id sha1 kind native_identity in
        case map_of (sr_sources r) source_id of
          Some existing \<Rightarrow>
            (Some source_id, r\<lparr>sr_sources := AList.update source_id
               (register_again py_float retrieved_by attachments existing) (sr_sources r)\<rparr>)
        | None \<Rightarrow>
            (Some source_id, r\<lparr>sr_sources := AList.update source_id
               \<lparr>src_id = source_id, src_kind = kind, src_title = (if title \<noteq> [] then title else kind),
                src_excerpt = excerpt, src_retrieved_by = retrieved_by, src_native = native,
                src_attachments = attachments, src_permalink = None, src_created_at = created_at\<rparr> (sr_sources r)\<rparr>))"

definition mark_referenced :: "string \<Rightarrow> int \<Rightarrow> bool \<Rightarrow> SourceRegistry \<Rightarrow> bool \<times> SourceRegistry" where
  "mark_referenced source_id marker inline r =
     (case map_of (sr_sources r) source_id of
        None \<Rightarrow> (False, r)
      | Some source \<Rightarrow>
          let effective_inline = (inline \<and> src_attachments source \<noteq> []) in
          (case map_of (sr_markers r) source_id of
             None \<Rightarrow>
               (True, r\<lparr>sr_markers := AList.update source_id \<lparr>mr_marker = marker, mr_inline = effective_inline\<rparr> (sr_markers r),
                        sr_order := sr_order r @ [source_id]\<rparr>)
           | Some existing \<Rightarrow>
               if effective_inline \<and> \<not> mr_inline existing
               then (True, r\<lparr>sr_markers := AList.update source_id (existing\<lparr>mr_inline := True\<rparr>) (sr_markers r)\<rparr>)
               else (True, r)))"

definition resolve_permalink :: "(Source \<Rightarrow> string option) option \<Rightarrow> Source \<Rightarrow> string option" where
  "resolve_permalink resolver source = (case resolver of None \<Rightarrow> None | Some resolve \<Rightarrow> resolve source)"

text \<open>\<^verbatim>\<open>_build_legacy_items\<close>.\<close>

definition native_get :: "(string \<times> json) list \<Rightarrow> string \<Rightarrow> json" where
  "native_get native k = (case map_of native k of Some v \<Rightarrow> v | None \<Rightarrow> JStr [])"

definition legacy_item :: "CitationRef list \<Rightarrow> Source \<Rightarrow> json" where
  "legacy_item refs source =
     (let marker = map_of (rev (map (\<lambda>r. (cr_source_id r, cr_marker r)) refs)) (src_id source); native = src_native source in
      JObj
        [(''type'', JStr (src_kind source)),
         (''number'', JStr (case marker of Some m \<Rightarrow> py_str_int m | None \<Rightarrow> [])),
         (''author'', native_get native ''author''),
         (''channel'',
            case map_of native ''channel_name'' of
              Some v \<Rightarrow> if json_truthy v then v else native_get native ''channel''
            | None \<Rightarrow> native_get native ''channel''),
         (''timestamp'', native_get native ''timestamp''),
         (''title'', JStr (src_title source)),
         (''text'', JStr (src_excerpt source)),
         (''permalink'', case src_permalink source of Some p \<Rightarrow> JStr p | None \<Rightarrow> JNull)])"

definition build_legacy_items :: "Source list \<Rightarrow> CitationRef list \<Rightarrow> json list" where
  "build_legacy_items sources refs = map (legacy_item refs) sources"

text \<open>The loop of \<^verbatim>\<open>finalize\<close> over the first-appearance order.\<close>

fun finalize_loop ::
    "(Source \<Rightarrow> string option) option \<Rightarrow> string list \<Rightarrow> SourceRegistry \<Rightarrow> (Source \<times> CitationRef) list \<times> SourceRegistry" where
  "finalize_loop resolver [] r = ([], r)"
| "finalize_loop resolver (source_id # order) r =
     (case map_of (sr_sources r) source_id of
        None \<Rightarrow> finalize_loop resolver order r
      | Some source \<Rightarrow>
          let source = source\<lparr>src_permalink := resolve_permalink resolver source\<rparr>;
              mr = the (map_of (sr_markers r) source_id);
              ref = \<lparr>cr_marker = mr_marker mr, cr_source_id = source_id, cr_inline = mr_inline mr,
                     cr_ranges = [], cr_note = None\<rparr>;
              (rest, r') = finalize_loop resolver order (r\<lparr>sr_sources := AList.update source_id source (sr_sources r)\<rparr>)
          in ((source, ref) # rest, r'))"

definition SourceRegistry_finalize ::
    "(Source \<Rightarrow> string option) option \<Rightarrow> SourceRegistry \<Rightarrow> CitationEnvelope \<times> SourceRegistry" where
  "SourceRegistry_finalize resolver r =
     (if sr_markers r = [] then (CitationEnvelope_empty, r)
      else case finalize_loop resolver (sr_order r) r of
        (pairs, r') \<Rightarrow>
          (let sources = map fst pairs; refs = map snd pairs in
           (\<lparr>env_items = build_legacy_items sources refs, env_sources = sources, env_refs = refs\<rparr>, r')))"

definition has_source :: "string \<Rightarrow> SourceRegistry \<Rightarrow> bool" where
  "has_source source_id r \<longleftrightarrow> map_of (sr_sources r) source_id \<noteq> None"

definition registered_count :: "SourceRegistry \<Rightarrow> nat" where
  "registered_count r = length (sr_sources r)"

definition referenced_count :: "SourceRegistry \<Rightarrow> nat" where
  "referenced_count r = length (sr_markers r)"

definition permalink_null_by_kind :: "SourceRegistry \<Rightarrow> (string, nat) dict" where
  "permalink_null_by_kind r =
     fold (\<lambda>(k, s) out. if src_permalink s = None
        then AList.update (src_kind s) ((case map_of out (src_kind s) of Some n \<Rightarrow> n | None \<Rightarrow> 0) + 1) out else out)
       (sr_sources r) []"

definition retrieval_scores :: "(json \<Rightarrow> rat option) \<Rightarrow> SourceRegistry \<Rightarrow> rat list" where
  "retrieval_scores py_float r =
     List.map_filter (\<lambda>(k, s). case map_of (src_retrieved_by s) ''score'' of
        Some (JInt i) \<Rightarrow> py_float (JInt i) | Some (JFloat f) \<Rightarrow> py_float (JFloat f) | _ \<Rightarrow> None) (sr_sources r)"

text \<open>The \<^verbatim>\<open>to_dict\<close> methods.\<close>

definition opt_json :: "string \<Rightarrow> ('a \<Rightarrow> json) \<Rightarrow> 'a option \<Rightarrow> (string \<times> json) list" where
  "opt_json k f v = (case v of Some x \<Rightarrow> [(k, f x)] | None \<Rightarrow> [])"

definition MediaAttachment_to_dict :: "MediaAttachment \<Rightarrow> json" where
  "MediaAttachment_to_dict a =
     JObj ([(''kind'', JStr (ma_kind a)), (''url'', JStr (ma_url a))]
       @ opt_json ''thumbnail_url'' JStr (ma_thumbnail_url a) @ opt_json ''mime_type'' JStr (ma_mime_type a)
       @ opt_json ''filename'' JStr (ma_filename a) @ opt_json ''title'' JStr (ma_title a)
       @ opt_json ''alt_text'' JStr (ma_alt_text a) @ opt_json ''width'' JInt (ma_width a)
       @ opt_json ''height'' JInt (ma_height a) @ opt_json ''byte_size'' JInt (ma_byte_size a))"

definition Source_to_dict :: "Source \<Rightarrow> json" where
  "Source_to_dict s =
     JObj [(''id'', JStr (src_id s)), (''kind'', JStr (src_kind s)), (''title'', JStr (src_title s)),
           (''excerpt'', JStr (src_excerpt s)), (''retrieved_by'', JObj (src_retrieved_by s)),
           (''native'', JObj (src_native s)), (''attachments'', JList (map MediaAttachment_to_dict (src_attachments s))),
           (''permalink'', case src_permalink s of Some p \<Rightarrow> JStr p | None \<Rightarrow> JNull),
           (''created_at'', JStr (src_created_at s))]"

definition CitationRef_to_dict :: "CitationRef \<Rightarrow> json" where
  "CitationRef_to_dict c =
     JObj [(''marker'', JInt (cr_marker c)), (''source_id'', JStr (cr_source_id c)), (''inline'', JBool (cr_inline c)),
           (''ranges'', JList (map (\<lambda>r. JObj (map (\<lambda>(k, n). (k, JInt n)) r)) (cr_ranges c))),
           (''note'', case cr_note c of Some n \<Rightarrow> JStr n | None \<Rightarrow> JNull)]"

definition CitationEnvelope_to_dict :: "CitationEnvelope \<Rightarrow> json" where
  "CitationEnvelope_to_dict e =
     JObj [(''items'', JList (env_items e)), (''sources'', JList (map Source_to_dict (env_sources e))),
           (''refs'', JList (map CitationRef_to_dict (env_refs e)))]"

section \<open>Invariant\<close>

definition source_ok :: "string \<Rightarrow> Source \<Rightarrow> bool" where
  "source_ok k s \<longleftrightarrow> src_id s = k \<and> src_excerpt s \<noteq> [] \<and> length (src_excerpt s) \<le> EXCERPT_CAP + 1"

text \<open>
  Sources sit under their own id with a non-empty capped excerpt; only registered sources carry a
  marker, an inline marker only on a source with attachments, and the order lists the marked ids.
\<close>

definition registry_ok :: "SourceRegistry \<Rightarrow> bool" where
  "registry_ok r \<longleftrightarrow>
     dict_ok (sr_sources r) \<and> dict_ok (sr_markers r) \<and> sr_order r = map fst (sr_markers r) \<and>
     (\<forall>k s. map_of (sr_sources r) k = Some s \<longrightarrow> source_ok k s) \<and>
     (\<forall>k m. map_of (sr_markers r) k = Some m \<longrightarrow>
        (\<exists>s. map_of (sr_sources r) k = Some s \<and> (mr_inline m \<longrightarrow> src_attachments s \<noteq> [])))"

lemma truncate_excerpt_length: "length (truncate_excerpt text) \<le> EXCERPT_CAP + 1"
proof -
  have "length (py_rstrip t) \<le> length t" for t
    using length_dropWhile_le [of py_isspace "rev t"] by (simp add: py_rstrip_def)
  then have "length (py_rstrip (take n t)) \<le> n" for n t by (metis length_take le_trans min.cobounded2)
  moreover have "take ws (take EXCERPT_CAP t) = take (min ws EXCERPT_CAP) t" for ws and t :: string by simp
  ultimately show ?thesis
    by (auto simp: truncate_excerpt_def Let_def split: option.split)
      (metis le_trans min.cobounded2)
qed

lemma fold_merge_attachments_nonempty: "xs \<noteq> [] \<Longrightarrow> fold merge_attachment as xs \<noteq> []"
  by (induction as arbitrary: xs) (auto simp: merge_attachment_def)

lemma register_again_keeps:
  "src_id (register_again pf rb as s) = src_id s" "src_excerpt (register_again pf rb as s) = src_excerpt s"
  "src_attachments s \<noteq> [] \<Longrightarrow> src_attachments (register_again pf rb as s) \<noteq> []"
  by (simp_all add: register_again_def fold_merge_attachments_nonempty)

lemma update_source_ok:
  assumes "registry_ok r" "source_ok k s"
    and "\<And>old. map_of (sr_sources r) k = Some old \<Longrightarrow> src_attachments old \<noteq> [] \<Longrightarrow> src_attachments s \<noteq> []"
  shows "registry_ok (r\<lparr>sr_sources := AList.update k s (sr_sources r)\<rparr>)"
  using assms by (auto simp: registry_ok_def dict_ok_update) blast+

lemma register_ok: "registry_ok r \<Longrightarrow> registry_ok (snd (SourceRegistry_register sha1 pf ca kind ni nv ti ex rb as r))"
proof -
  assume ok: "registry_ok r"
  let ?id = "derive_id sha1 kind ni"
  show ?thesis
  proof (cases "map_of (sr_sources r) ?id")
    case (Some old)
    then have "source_ok ?id (register_again pf rb as old)"
      using ok by (simp add: registry_ok_def source_ok_def register_again_keeps)
    from update_source_ok [OF ok this] Some show ?thesis
      using ok by (simp add: SourceRegistry_register_def Let_def register_again_keeps)
  next
    case None
    have "registry_ok (r\<lparr>sr_sources := AList.update ?id s (sr_sources r)\<rparr>)"
      if "src_id s = ?id" "src_excerpt s = truncate_excerpt ex" "truncate_excerpt ex \<noteq> []" for s
      using that None truncate_excerpt_length [of ex] by (intro update_source_ok [OF ok]) (simp_all add: source_ok_def)
    with None ok show ?thesis by (simp add: SourceRegistry_register_def Let_def)
  qed
qed

lemma update_marker_ok:
  assumes "registry_ok r" "map_of (sr_sources r) k = Some s" "mr_inline m \<longrightarrow> src_attachments s \<noteq> []"
  shows "registry_ok (r\<lparr>sr_markers := AList.update k m (sr_markers r),
    sr_order := map fst (AList.update k m (sr_markers r))\<rparr>)"
  using assms by (auto simp: registry_ok_def dict_ok_update simp del: map_map)

lemma mark_cases:
  assumes "registry_ok r"
  shows "mark_referenced k marker inl r =
    (case map_of (sr_sources r) k of
       None \<Rightarrow> (False, r)
     | Some s \<Rightarrow>
         let m = (case map_of (sr_markers r) k of
                    None \<Rightarrow> \<lparr>mr_marker = marker, mr_inline = inl \<and> src_attachments s \<noteq> []\<rparr>
                  | Some m \<Rightarrow> m\<lparr>mr_inline := mr_inline m \<or> inl \<and> src_attachments s \<noteq> []\<rparr>)
         in (True, r\<lparr>sr_markers := AList.update k m (sr_markers r),
                     sr_order := map fst (AList.update k m (sr_markers r))\<rparr>))"
proof (cases "map_of (sr_markers r) k")
  case None
  then have "k \<notin> fst ` set (sr_markers r)" by (simp add: map_of_eq_None_iff)
  with None assms show ?thesis
    by (simp add: mark_referenced_def Let_def registry_ok_def dict_update_new split: option.split)
next
  case (Some m)
  then have "k \<in> fst ` set (sr_markers r)" by (metis domI dom_map_of_conv_image_fst)
  then have keys: "map fst (AList.update k m' (sr_markers r)) = sr_order r" for m'
    using assms by (simp add: registry_ok_def dict_keys_update_old)
  have order: "r\<lparr>sr_markers := ms, sr_order := sr_order r\<rparr> = r\<lparr>sr_markers := ms\<rparr>" for ms by (cases r) simp
  have same: "AList.update k m (sr_markers r) = sr_markers r" using Some by (rule dict_update_same)
  show ?thesis
  proof (cases "\<exists>s. map_of (sr_sources r) k = Some s \<and> inl \<and> src_attachments s \<noteq> [] \<and> \<not> mr_inline m")
    case True
    with Some show ?thesis by (auto simp: mark_referenced_def Let_def keys order)
  next
    case False
    then have "m\<lparr>mr_inline := mr_inline m \<or> inl \<and> src_attachments s \<noteq> []\<rparr> = m"
      if "map_of (sr_sources r) k = Some s" for s using that by (cases m) auto
    with False Some same assms show ?thesis
      by (auto simp: mark_referenced_def Let_def registry_ok_def split: option.split)
  qed
qed

lemma mark_ok: "registry_ok r \<Longrightarrow> registry_ok (snd (mark_referenced k marker inl r))"
proof -
  assume ok: "registry_ok r"
  show ?thesis
  proof (cases "map_of (sr_sources r) k")
    case (Some s)
    have inl: "src_attachments s \<noteq> []" if "map_of (sr_markers r) k = Some m" "mr_inline m" for m
      using ok that Some unfolding registry_ok_def by (metis option.inject)
    show ?thesis unfolding mark_cases [OF ok] using Some inl
      by (auto simp: Let_def intro!: update_marker_ok [OF ok Some] split: option.split)
  qed (simp add: mark_referenced_def ok)
qed

lemma finalize_loop_spec:
  assumes "registry_ok r" "set order \<subseteq> set (sr_order r)" "distinct order"
  shows "registry_ok (snd (finalize_loop resolver order r)) \<and>
    sr_markers (snd (finalize_loop resolver order r)) = sr_markers r \<and>
    map (\<lambda>(s, c). (src_id s, cr_source_id c)) (fst (finalize_loop resolver order r)) = map (\<lambda>k. (k, k)) order \<and>
    map (\<lambda>(s, c). Some \<lparr>mr_marker = cr_marker c, mr_inline = cr_inline c\<rparr>) (fst (finalize_loop resolver order r))
      = map (map_of (sr_markers r)) order"
  using assms
proof (induction order arbitrary: r)
  case (Cons k order)
  then have "k \<in> set (map fst (sr_markers r))" by (simp add: registry_ok_def)
  then obtain m where m: "map_of (sr_markers r) k = Some m" by (metis map_of_eq_None_iff not_Some_eq list.set_map)
  then obtain s where s: "map_of (sr_sources r) k = Some s" using Cons.prems(1) unfolding registry_ok_def by blast
  let ?s = "s\<lparr>src_permalink := resolve_permalink resolver s\<rparr>"
  let ?r = "r\<lparr>sr_sources := AList.update k ?s (sr_sources r)\<rparr>"
  have sok: "source_ok k s" using Cons.prems(1) s unfolding registry_ok_def by blast
  have "registry_ok ?r"
    using sok s by (intro update_source_ok [OF Cons.prems(1)]) (auto simp: source_ok_def)
  from Cons.IH [OF this] Cons.prems(2,3) sok m s show ?case
    by (simp add: source_ok_def Let_def case_prod_unfold)
qed simp

datatype registry_event =
    Register "string \<Rightarrow> string" "json \<Rightarrow> rat option" string string string "(string \<times> json) list" string string
      "(string \<times> json) list" "MediaAttachment list"
  | Mark string int bool
  | Finalize "(Source \<Rightarrow> string option) option"

fun registry_step :: "registry_event \<Rightarrow> SourceRegistry \<Rightarrow> SourceRegistry" where
  "registry_step (Register sha1 pf ca kind ni nv ti ex rb as) r =
     snd (SourceRegistry_register sha1 pf ca kind ni nv ti ex rb as r)"
| "registry_step (Mark k m inl) r = snd (mark_referenced k m inl r)"
| "registry_step (Finalize resolver) r = snd (SourceRegistry_finalize resolver r)"

lemma finalize_ok: "registry_ok r \<Longrightarrow> registry_ok (snd (SourceRegistry_finalize resolver r))"
proof -
  assume ok: "registry_ok r"
  then have "distinct (sr_order r)" by (simp add: registry_ok_def)
  with finalize_loop_spec [OF ok, of "sr_order r" resolver] ok show ?thesis
    by (simp add: SourceRegistry_finalize_def case_prod_unfold Let_def)
qed

lemma registry_step_ok: "registry_ok r \<Longrightarrow> registry_ok (registry_step e r)"
  by (cases e) (simp_all add: register_ok mark_ok finalize_ok)

interpretation registry_machine: invariant_machine registry_step "\<lambda>_ _. True" registry_ok
  by unfold_locales (rule registry_step_ok)

lemma registry_admissible: "registry_machine.admissible es r"
  by (induction es arbitrary: r) simp_all

lemma registry_init_ok: "registry_ok (SourceRegistry_init sid)"
  by (simp add: SourceRegistry_init_def registry_ok_def)

lemmas registry_run_ok = registry_machine.inv_run [OF registry_init_ok registry_admissible]

definition envelope_ok :: "SourceRegistry \<Rightarrow> CitationEnvelope \<Rightarrow> bool" where
  "envelope_ok r env \<longleftrightarrow>
    map src_id (env_sources env) = map cr_source_id (env_refs env) \<and>
    map cr_source_id (env_refs env) = sr_order r \<and> distinct (sr_order r) \<and>
    map (\<lambda>c. (cr_source_id c, \<lparr>mr_marker = cr_marker c, mr_inline = cr_inline c\<rparr>)) (env_refs env) = sr_markers r \<and>
    length (env_items env) = length (env_sources env)"

lemma finalize_envelope_ok:
  assumes "registry_ok r"
  shows "envelope_ok r (fst (SourceRegistry_finalize resolver r))"
proof (cases "sr_markers r = []")
  case True
  with assms show ?thesis
    by (simp add: SourceRegistry_finalize_def CitationEnvelope_empty_def registry_ok_def envelope_ok_def)
next
  case False
  let ?ps = "fst (finalize_loop resolver (sr_order r) r)" and ?ms = "sr_markers r"
  have order: "sr_order r = map fst ?ms" "dict_ok ?ms" using assms by (simp_all add: registry_ok_def)
  have spec: "map (\<lambda>(s, c). (src_id s, cr_source_id c)) ?ps = map (\<lambda>k. (k, k)) (sr_order r)"
    "map (\<lambda>(s, c). Some \<lparr>mr_marker = cr_marker c, mr_inline = cr_inline c\<rparr>) ?ps = map (map_of ?ms) (sr_order r)"
    using finalize_loop_spec [of r "sr_order r" resolver] assms order by simp_all
  have ids: "map (\<lambda>(s, c). src_id s) ?ps = sr_order r" "map (\<lambda>(s, c). cr_source_id c) ?ps = sr_order r"
    using arg_cong [OF spec(1), of "map fst"] arg_cong [OF spec(1), of "map snd"]
    by (simp_all add: case_prod_unfold comp_def)
  have "map (map_of ?ms) (map fst ?ms) = map Some (map snd ?ms)" using order(2) by auto
  with spec(2) order(1)
  have "map the (map (\<lambda>(s, c). Some \<lparr>mr_marker = cr_marker c, mr_inline = cr_inline c\<rparr>) ?ps) = map the (map Some (map snd ?ms))"
    by (simp only:)
  then have recs: "map (\<lambda>(s, c). \<lparr>mr_marker = cr_marker c, mr_inline = cr_inline c\<rparr>) ?ps = map snd ?ms"
    by (simp add: case_prod_unfold comp_def)
  have "map (\<lambda>x. (f x, g x)) xs = zip (map f xs) (map g xs)" for f :: "Source \<times> CitationRef \<Rightarrow> string" and g :: "_ \<Rightarrow> MarkerRecord" and xs
    by (induction xs) simp_all
  from this [of "\<lambda>(s, c). cr_source_id c" "\<lambda>(s, c). \<lparr>mr_marker = cr_marker c, mr_inline = cr_inline c\<rparr>" ?ps]
  have "map (\<lambda>(s, c). (cr_source_id c, \<lparr>mr_marker = cr_marker c, mr_inline = cr_inline c\<rparr>)) ?ps
      = zip (map fst ?ms) (map snd ?ms)"
    using ids(2) recs order(1) by (simp add: case_prod_unfold)
  with False ids order show ?thesis
    by (simp add: envelope_ok_def SourceRegistry_finalize_def case_prod_unfold Let_def build_legacy_items_def comp_def zip_map_fst_snd)
qed

section \<open>Properties\<close>


text \<open>
  The envelope of a turn is consistent: its sources and its references correspond one
  to one, in first-appearance order, to exactly the sources that were marked, each reference with
  the marker and the inline flag recorded for its source, and with one legacy item per source.
\<close>

theorem envelope_consistent:
  "envelope_ok (fold registry_step es (SourceRegistry_init sid))
     (fst (SourceRegistry_finalize resolver (fold registry_step es (SourceRegistry_init sid))))"
  by (rule finalize_envelope_ok [OF registry_run_ok])

end
