(* ===== verification/Stream_Rewriter.thy ===== *)
theory Stream_Rewriter
  imports Citation_Registry
begin

text \<open>
  The citation rewriting of streamed answers, \<^verbatim>\<open>agents/query/stream_rewriter.py\<close>: the stateful
  \<^verbatim>\<open>StreamRewriter\<close>, which turns source tags into numbered markers and records them in the citation
  registry, and \<^verbatim>\<open>LiteralSrcStripper\<close>. Each regular expression of the module is the function that
  computes what \<^verbatim>\<open>search\<close>, \<^verbatim>\<open>finditer\<close> or \<^verbatim>\<open>sub\<close> does with it. A bracket content excludes brackets, so
  the leftmost match at an opening bracket ends at the next bracket of either kind.
\<close>

section \<open>Regular expressions\<close>

definition no_bracket :: "char \<Rightarrow> bool" where
  "no_bracket c \<longleftrightarrow> c \<noteq> CHR ''['' \<and> c \<noteq> CHR '']''"

definition hex_lower :: "char \<Rightarrow> bool" where
  "hex_lower c = (let n = ord c in 48 \<le> n \<and> n \<le> 57 \<or> 97 \<le> n \<and> n \<le> 102)"

text \<open>Case-insensitive prefix test, for a pattern in lower case.\<close>

definition starts_ci :: "string \<Rightarrow> string \<Rightarrow> bool" where
  "starts_ci s p \<longleftrightarrow> py_lower (take (length p) s) = p"

definition hex_ci :: "char \<Rightarrow> bool" where
  "hex_ci c = hex_lower (py_lower_char c)"

definition ten_hex :: "(char \<Rightarrow> bool) \<Rightarrow> string \<Rightarrow> bool" where
  "ten_hex hex s \<longleftrightarrow> length (take 10 s) = 10 \<and> list_all hex (take 10 s)"

text \<open>Word characters, for the boundary after an id.\<close>

definition py_isword :: "char \<Rightarrow> bool" where
  "py_isword c = (let n = ord c in
     48 \<le> n \<and> n \<le> 57 \<or> 65 \<le> n \<and> n \<le> 90 \<or> n = 95 \<or> 97 \<le> n \<and> n \<le> 122 \<or>
     n \<in> {170, 178, 179, 181, 185, 186, 188, 189, 190} \<or> 192 \<le> n \<and> n \<noteq> 215 \<and> n \<noteq> 247)"

text \<open>\<^verbatim>\<open>_SRC_BRACKET_RE.search\<close>: the text before the match, the bracket's content, the text after.\<close>

fun has_src :: "string \<Rightarrow> bool" where
  "has_src [] = False"
| "has_src (c # cs) = (py_startswith (c # cs) ''src:src_'' \<and> ten_hex hex_lower (drop 8 (c # cs)) \<or> has_src cs)"

fun src_bracket_search :: "string \<Rightarrow> (string \<times> string \<times> string) option" where
  "src_bracket_search [] = None"
| "src_bracket_search (c # cs) =
     (let run = takeWhile no_bracket cs; rest = dropWhile no_bracket cs in
      if c = CHR ''['' \<and> rest \<noteq> [] \<and> hd rest = CHR '']'' \<and> has_src run then Some ([], run, tl rest)
      else map_option (apfst (Cons c)) (src_bracket_search cs))"

text \<open>\<^verbatim>\<open>_INNER_TAG_RE.finditer\<close>: the source ids with their inline flags.\<close>

definition inner_tag :: "string \<Rightarrow> (string \<times> bool \<times> string) option" where
  "inner_tag s =
     (if starts_ci s ''src:src_'' \<and> ten_hex hex_ci (drop 8 s) then
        let rest = drop 18 s; after = dropWhile py_isspace rest in
        if rest \<noteq> [] \<and> py_isspace (hd rest) \<and> starts_ci after ''inline''
        then Some (take 14 (drop 4 s), True, drop 6 after)
        else Some (take 14 (drop 4 s), False, rest)
      else None)"

lemma inner_tag_shrinks: "inner_tag s = Some (i, b, r) \<Longrightarrow> length r < length s"
proof -
  assume a: "inner_tag s = Some (i, b, r)"
  then have "length s \<ge> 18"
    by (auto simp: inner_tag_def ten_hex_def Let_def min_def split: if_splits)
  moreover have "length r \<le> length (drop 18 s)"
    using a length_dropWhile_le [of py_isspace "drop 18 s"]
    by (auto simp: inner_tag_def Let_def split: if_splits)
  ultimately show ?thesis by simp
qed

function inner_tags :: "string \<Rightarrow> (string \<times> bool) list" where
  "inner_tags s =
     (case inner_tag s of
        Some (i, inl, rest) \<Rightarrow> (i, inl) # inner_tags rest
      | None \<Rightarrow> (case s of [] \<Rightarrow> [] | c # cs \<Rightarrow> inner_tags cs))"
  by pat_completeness auto
termination
  by (relation "measure length") (auto simp: inner_tag_shrinks)

declare inner_tags.simps [simp del]

lemma inner_tags_code [code]:
  "inner_tags [] = []"
  "inner_tags (c # cs) = (case inner_tag (c # cs) of Some (i, inl, rest) \<Rightarrow> (i, inl) # inner_tags rest | None \<Rightarrow> inner_tags cs)"
proof -
  have "inner_tag [] = None" by (simp add: inner_tag_def starts_ci_def py_lower_def)
  then show "inner_tags [] = []" by (simp add: inner_tags.simps)
  show "inner_tags (c # cs) = (case inner_tag (c # cs) of Some (i, inl, rest) \<Rightarrow> (i, inl) # inner_tags rest | None \<Rightarrow> inner_tags cs)"
    by (subst inner_tags.simps) (simp split: option.split)
qed

text \<open>\<^verbatim>\<open>_LEFTOVER_TAG_RE\<close>: the contents it accepts between brackets, and \<^verbatim>\<open>subn("", text)\<close>.\<close>

definition leftover_content :: "string \<Rightarrow> bool" where
  "leftover_content run =
     (let c = dropWhile py_isspace run; d = dropWhile py_isspace (drop 9 c) in
      starts_ci c ''src:'' \<or>
      starts_ci c ''external:'' \<and> starts_ci d ''src_'' \<and> ten_hex hex_ci (drop 4 d) \<and>
        (drop 14 d = [] \<or> \<not> py_isword (hd (drop 14 d))))"

definition leftover_at :: "string \<Rightarrow> string option" where
  "leftover_at cs =
     (let rest = dropWhile no_bracket cs in
      if rest \<noteq> [] \<and> hd rest = CHR '']'' \<and> leftover_content (takeWhile no_bracket cs) then Some (tl rest) else None)"

lemma leftover_at_shrinks: "leftover_at cs = Some r \<Longrightarrow> length r < length cs"
proof -
  assume "leftover_at cs = Some r"
  then obtain d where "dropWhile no_bracket cs = d # r"
    by (cases "dropWhile no_bracket cs") (auto simp: leftover_at_def Let_def split: if_splits)
  with length_dropWhile_le [of no_bracket cs] show "length r < length cs" by simp
qed

function strip_leftover_tags :: "string \<Rightarrow> string \<times> nat" where
  "strip_leftover_tags [] = ([], 0)"
| "strip_leftover_tags (c # cs) =
     (case (if c = CHR ''['' then leftover_at cs else None) of
        Some rest \<Rightarrow> apsnd Suc (strip_leftover_tags rest)
      | None \<Rightarrow> apfst (Cons c) (strip_leftover_tags cs))"
  by pat_completeness auto
termination
  by (relation "measure length") (auto dest: leftover_at_shrinks split: if_splits)

text \<open>\<^verbatim>\<open>_TRUNCATED_SRC_OPENER_RE\<close> and \<^verbatim>\<open>_TRUNCATED_NUM_OPENER_RE\<close>, whose \<^verbatim>\<open>$\<close> also matches before a final newline.\<close>

fun strip_src_opener :: "string \<Rightarrow> string" where
  "strip_src_opener [] = []"
| "strip_src_opener (c # cs) =
     (if c = CHR ''['' \<and> starts_ci (dropWhile py_isspace cs) ''src:'' \<and> list_all no_bracket cs then []
      else c # strip_src_opener cs)"

fun strip_num_opener :: "string \<Rightarrow> string \<times> nat" where
  "strip_num_opener [] = ([], 0)"
| "strip_num_opener (c # cs) =
     (let rest = dropWhile py_isdigit cs in
      if c = CHR ''['' \<and> takeWhile py_isdigit cs \<noteq> [] \<and> (rest = [] \<or> rest = [CHR 0x0A]) then (rest, 1)
      else apfst (Cons c) (strip_num_opener cs))"

section \<open>Model of StreamRewriter\<close>

definition MAX_BUFFER :: nat where
  "MAX_BUFFER = 1024"

record StreamRewriter =
  rw_registry :: SourceRegistry
  rw_buffer :: string
  rw_next_marker :: int
  rw_assigned :: "(string, int) dict"
  rw_unknown_tags :: nat
  rw_leftover_stripped :: nat
  rw_orphan_markers :: nat

definition StreamRewriter_init :: "SourceRegistry \<Rightarrow> StreamRewriter" where
  "StreamRewriter_init registry = \<lparr>rw_registry = registry, rw_buffer = [], rw_next_marker = 1, rw_assigned = [],
     rw_unknown_tags = 0, rw_leftover_stripped = 0, rw_orphan_markers = 0\<rparr>"

definition rewrite_tag :: "string \<Rightarrow> bool \<Rightarrow> StreamRewriter \<Rightarrow> string \<times> StreamRewriter" where
  "rewrite_tag source_id inline rw =
     (case map_of (rw_assigned rw) source_id of
        None \<Rightarrow>
          if \<not> has_source source_id (rw_registry rw) then ([], rw\<lparr>rw_unknown_tags := rw_unknown_tags rw + 1\<rparr>)
          else
            let marker = rw_next_marker rw in
            (''['' @ py_str_int marker @ '']'',
             rw\<lparr>rw_next_marker := marker + 1, rw_assigned := AList.update source_id marker (rw_assigned rw),
               rw_registry := snd (mark_referenced source_id marker inline (rw_registry rw))\<rparr>)
      | Some marker \<Rightarrow>
          (''['' @ py_str_int marker @ '']'',
           if inline then rw\<lparr>rw_registry := snd (mark_referenced source_id marker True (rw_registry rw))\<rparr> else rw))"

fun rewrite_tags :: "(string \<times> bool) list \<Rightarrow> StreamRewriter \<Rightarrow> string list \<times> StreamRewriter" where
  "rewrite_tags [] rw = ([], rw)"
| "rewrite_tags ((source_id, inline) # tags) rw =
     (case rewrite_tag source_id inline rw of
        (rewritten, rw') \<Rightarrow>
          (case rewrite_tags tags rw' of
             (parts, rw'') \<Rightarrow> (if rewritten \<noteq> [] then rewritten # parts else parts, rw'')))"

definition process_bracket :: "string \<Rightarrow> StreamRewriter \<Rightarrow> string \<times> StreamRewriter" where
  "process_bracket content rw =
     (case rewrite_tags (inner_tags content) rw of
        (parts, rw') \<Rightarrow> (if parts = [] then [] else py_join '' '' parts, rw'))"

definition is_src_prefix :: "string \<Rightarrow> bool" where
  "is_src_prefix s \<longleftrightarrow> s = ''s'' \<or> s = ''sr'' \<or> s = ''src''"

fun open_scan :: "string \<Rightarrow> nat list \<Rightarrow> nat option" where
  "open_scan buf [] = None"
| "open_scan buf (lb # earlier) =
     (if CHR '']'' \<in> set (drop lb buf) then None
      else let after = drop (lb + 1) buf in
        if py_startswith after ''src:'' \<or> is_src_prefix after then Some lb else open_scan buf earlier)"

fun trailing_prefix :: "string \<Rightarrow> nat \<Rightarrow> nat option" where
  "trailing_prefix buf 0 = None"
| "trailing_prefix buf (Suc n) =
     (if py_endswith buf (take (Suc n) ''[src:'') then Some (length buf - Suc n) else trailing_prefix buf n)"

definition find_open_tag :: "string \<Rightarrow> nat option" where
  "find_open_tag buf =
     (case open_scan buf (rev (filter (\<lambda>i. buf ! i = CHR ''['') [0..<length buf])) of
        Some lb \<Rightarrow> Some lb
      | None \<Rightarrow> trailing_prefix buf (min (length buf) 4))"

definition sanitize_cap_flush :: "string \<Rightarrow> StreamRewriter \<Rightarrow> string \<times> StreamRewriter" where
  "sanitize_cap_flush chunk rw =
     (case strip_num_opener (strip_src_opener chunk) of
        (cleaned, n) \<Rightarrow> (cleaned, rw\<lparr>rw_orphan_markers := rw_orphan_markers rw + n\<rparr>))"

lemma src_bracket_search_shrinks: "src_bracket_search s = Some (b, m, r) \<Longrightarrow> length r < length s"
proof (induction s arbitrary: b m r)
  case (Cons c cs)
  have "length (dropWhile no_bracket cs) \<le> length cs" by (rule length_dropWhile_le)
  with Cons show ?case by (force simp: Let_def split: if_splits)
qed simp

text \<open>The loop of \<^verbatim>\<open>_drain\<close>; \<open>out\<close> is what it has appended so far.\<close>

function drain_loop :: "bool \<Rightarrow> string \<Rightarrow> StreamRewriter \<Rightarrow> string \<times> StreamRewriter" where
  "drain_loop final out rw =
     (if rw_buffer rw = [] then (out, rw)
      else case src_bracket_search (rw_buffer rw) of
        Some (before, content, after) \<Rightarrow>
          (case process_bracket content rw of
             (rewritten, rw') \<Rightarrow> drain_loop final (out @ before @ rewritten) (rw'\<lparr>rw_buffer := after\<rparr>))
      | None \<Rightarrow>
          (case (if final then None else find_open_tag (rw_buffer rw)) of
             Some open_idx \<Rightarrow>
               if length (rw_buffer rw) - open_idx > MAX_BUFFER then
                 (case sanitize_cap_flush (rw_buffer rw) rw of
                    (cleaned, rw') \<Rightarrow> (out @ cleaned, rw'\<lparr>rw_buffer := []\<rparr>))
               else (out @ take open_idx (rw_buffer rw), rw\<lparr>rw_buffer := drop open_idx (rw_buffer rw)\<rparr>)
           | None \<Rightarrow> (out @ rw_buffer rw, rw\<lparr>rw_buffer := []\<rparr>)))"
  by pat_completeness auto
termination
  by (relation "measure (\<lambda>(final, out, rw). length (rw_buffer rw))") (auto dest: src_bracket_search_shrinks)

declare drain_loop.simps [simp del]

definition drain :: "bool \<Rightarrow> StreamRewriter \<Rightarrow> string \<times> StreamRewriter" where
  "drain final rw =
     (case drain_loop final [] rw of
        (joined, rw') \<Rightarrow>
          if joined \<noteq> [] \<and> CHR ''['' \<in> set joined then
            (case strip_leftover_tags joined of
               (cleaned, n) \<Rightarrow> (cleaned, rw'\<lparr>rw_leftover_stripped := rw_leftover_stripped rw' + n\<rparr>))
          else (joined, rw'))"

definition StreamRewriter_feed :: "string \<Rightarrow> StreamRewriter \<Rightarrow> string \<times> StreamRewriter" where
  "StreamRewriter_feed chunk rw =
     (if chunk = [] then ([], rw) else drain False (rw\<lparr>rw_buffer := rw_buffer rw @ chunk\<rparr>))"

definition strip_leftovers :: "string \<Rightarrow> StreamRewriter \<Rightarrow> string \<times> StreamRewriter" where
  "strip_leftovers text rw =
     (case strip_leftover_tags text of
        (cleaned, n) \<Rightarrow> (cleaned, rw\<lparr>rw_leftover_stripped := rw_leftover_stripped rw + n\<rparr>))"

definition StreamRewriter_flush :: "StreamRewriter \<Rightarrow> string \<times> StreamRewriter" where
  "StreamRewriter_flush rw =
     (case drain True rw of
        (out, rw') \<Rightarrow> strip_leftovers (out @ rw_buffer rw') (rw'\<lparr>rw_buffer := []\<rparr>))"

definition StreamRewriter_get_stats :: "StreamRewriter \<Rightarrow> (string \<times> nat) list" where
  "StreamRewriter_get_stats rw = [(''unknown_tags'', rw_unknown_tags rw), (''orphan_markers'', rw_orphan_markers rw)]"

section \<open>Model of LiteralSrcStripper\<close>

definition LITERAL_STRIPPER_BUF_CAP :: nat where
  "LITERAL_STRIPPER_BUF_CAP = 512"

definition strip_if_bracket :: "string \<Rightarrow> string" where
  "strip_if_bracket emittable =
     (if CHR ''['' \<in> set emittable then fst (strip_leftover_tags emittable) else emittable)"

text \<open>\<^verbatim>\<open>last_open > last_close\<close> with \<^verbatim>\<open>-1\<close> for an absent character.\<close>

definition last_open_unclosed :: "string \<Rightarrow> nat option" where
  "last_open_unclosed buf =
     (case py_rfind (CHR ''['') buf of
        None \<Rightarrow> None
      | Some i \<Rightarrow> (case py_rfind (CHR '']'') buf of None \<Rightarrow> Some i | Some j \<Rightarrow> if i > j then Some i else None))"

definition LiteralSrcStripper_feed :: "string \<Rightarrow> string \<Rightarrow> string \<times> string" where
  "LiteralSrcStripper_feed chunk buf =
     (if chunk = [] then ([], buf)
      else let buf = buf @ chunk in
        if length buf > LITERAL_STRIPPER_BUF_CAP then (strip_if_bracket buf, [])
        else case last_open_unclosed buf of
               Some i \<Rightarrow> (strip_if_bracket (take i buf), drop i buf)
             | None \<Rightarrow> (strip_if_bracket buf, []))"

definition LiteralSrcStripper_flush :: "string \<Rightarrow> string \<times> string" where
  "LiteralSrcStripper_flush buf = (strip_src_opener (fst (strip_leftover_tags buf)), [])"

section \<open>Filters over a stream of chunks\<close>

fun stream_run :: "(string \<Rightarrow> 's \<Rightarrow> string \<times> 's) \<Rightarrow> string list \<Rightarrow> 's \<Rightarrow> string \<times> 's" where
  "stream_run feed [] s = ([], s)"
| "stream_run feed (chunk # chunks) s =
     (case feed chunk s of (out, s') \<Rightarrow> apfst (append out) (stream_run feed chunks s'))"

definition filter_stream :: "(string \<Rightarrow> 's \<Rightarrow> string \<times> 's) \<Rightarrow> ('s \<Rightarrow> string \<times> 's) \<Rightarrow> string list \<Rightarrow> 's \<Rightarrow> string" where
  "filter_stream feed flush chunks s = (case stream_run feed chunks s of (out, s') \<Rightarrow> out @ fst (flush s'))"

text \<open>What the emitter of \<^verbatim>\<open>api/ask.py\<close> relies on in either filter: text without brackets is not held back.\<close>

locale stream_filter =
  fixes feed :: "string \<Rightarrow> 's \<Rightarrow> string \<times> 's"
    and flush :: "'s \<Rightarrow> string \<times> 's"
    and idle :: "'s \<Rightarrow> bool"
  assumes feed_plain: "idle s \<Longrightarrow> CHR ''['' \<notin> set chunk \<Longrightarrow> fst (feed chunk s) = chunk \<and> idle (snd (feed chunk s))"
    and flush_idle: "idle s \<Longrightarrow> fst (flush s) = []"
begin

lemma run_plain:
  "idle s \<Longrightarrow> CHR ''['' \<notin> set (concat chunks) \<Longrightarrow>
     fst (stream_run feed chunks s) = concat chunks \<and> idle (snd (stream_run feed chunks s))"
proof (induction chunks arbitrary: s)
  case (Cons c cs)
  then have "fst (feed c s) = c" "idle (snd (feed c s))" using feed_plain by auto
  with Cons show ?case by (simp add: case_prod_unfold)
qed simp

lemma plain_stream:
  "idle s \<Longrightarrow> CHR ''['' \<notin> set (concat chunks) \<Longrightarrow> filter_stream feed flush chunks s = concat chunks"
  using run_plain flush_idle by (auto simp: filter_stream_def case_prod_unfold)

end

section \<open>The literal stripper\<close>

abbreviation strip_text :: "string \<Rightarrow> string" where
  "strip_text s \<equiv> fst (strip_leftover_tags s)"

fun all_closed :: "string \<Rightarrow> bool" where
  "all_closed [] = True"
| "all_closed (c # cs) = ((c = CHR ''['' \<longrightarrow> CHR '']'' \<in> set cs) \<and> all_closed cs)"

lemma all_closed_append_right: "all_closed (xs @ ys) \<Longrightarrow> all_closed ys"
  by (induction xs) auto

lemma all_closed_append: "all_closed xs \<Longrightarrow> all_closed ys \<Longrightarrow> all_closed (xs @ ys)"
  by (induction xs) auto

lemma all_closed_before: "CHR '']'' \<in> set ys \<Longrightarrow> all_closed ys \<Longrightarrow> all_closed (xs @ ys)"
  by (induction xs) auto

lemma all_closed_plain: "CHR ''['' \<notin> set xs \<Longrightarrow> all_closed xs"
  by (induction xs) auto

lemma not_closed_split:
  "\<not> all_closed xs \<Longrightarrow> \<exists>u w. xs = u @ CHR ''['' # w \<and> list_all no_bracket w"
proof (induction xs)
  case (Cons c cs)
  show ?case
  proof (cases "all_closed cs")
    case True
    with Cons.prems have c: "c = CHR ''['' " "CHR '']'' \<notin> set cs" by auto
    have "CHR ''['' \<notin> set cs"
    proof
      assume "CHR ''['' \<in> set cs"
      then obtain u w where "cs = u @ CHR ''['' # w" by (auto simp: in_set_conv_decomp)
      with True c(2) all_closed_append_right [of u "CHR ''['' # w"] show False by auto
    qed
    with c show ?thesis by (intro exI [of _ "[]"] exI [of _ cs]) (auto simp: list_all_iff no_bracket_def)
  next
    case False
    then obtain u w where "cs = u @ CHR ''['' # w" "list_all no_bracket w" using Cons.IH by blast
    moreover from this(1) have "c # cs = (c # u) @ CHR ''['' # w" by simp
    ultimately show ?thesis by blast
  qed
qed simp

lemma py_rfind_last: "a \<notin> set w \<Longrightarrow> py_rfind a (u @ a # w) = Some (length u)"
proof (induction u)
  case Nil
  then have "py_rfind a w = None" by simp
  then show ?case by (simp del: py_rfind_None)
qed simp

lemma last_open_Some: "list_all no_bracket w \<Longrightarrow> last_open_unclosed (u @ CHR ''['' # w) = Some (length u)"
proof -
  assume "list_all no_bracket w"
  then have w: "CHR ''['' \<notin> set w" "CHR '']'' \<notin> set w" by (auto simp: list_all_iff no_bracket_def)
  have "j < length u" if rf: "py_rfind (CHR '']'') (u @ CHR ''['' # w) = Some j" for j
  proof (rule ccontr)
    assume "\<not> j < length u"
    moreover from py_rfind_Some [OF rf] have "j < length (u @ CHR ''['' # w)" "(u @ CHR ''['' # w) ! j = CHR '']''" by auto
    ultimately have "CHR '']'' \<in> set (CHR ''['' # w)" by (metis nth_append nth_mem not_less length_append add_diff_cancel_left' le_Suc_ex nat_add_left_cancel_less)
    with w show False by auto
  qed
  with py_rfind_last [OF w(1), of u] show ?thesis
    by (auto simp: last_open_unclosed_def split: option.split)
qed

lemma last_open_None: "all_closed xs \<Longrightarrow> last_open_unclosed xs = None"
proof (cases "py_rfind (CHR ''['') xs")
  case (Some i)
  assume closed: "all_closed xs"
  from py_rfind_Some [OF Some] have i: "i < length xs" "xs ! i = CHR ''[''" by auto
  then have "xs = take i xs @ CHR ''['' # drop (Suc i) xs" by (metis id_take_nth_drop)
  then have "CHR '']'' \<in> set (drop (Suc i) xs)"
    using closed all_closed_append_right [of "take i xs" "CHR ''['' # drop (Suc i) xs"] by simp
  then obtain k where k: "k < length xs" "i < k" "xs ! k = CHR '']''"
    by (auto simp: in_set_conv_nth) (metis add.commute add_Suc_right less_add_Suc1 less_diff_conv)
  then have "CHR '']'' \<in> set xs" using nth_mem by fastforce
  then obtain j where j: "py_rfind (CHR '']'') xs = Some j" by (cases "py_rfind (CHR '']'') xs") auto
  have "\<not> j < k"
  proof
    assume "j < k"
    then have "xs ! k \<in> set (drop (Suc j) xs)" using k(1)
      by (auto simp: in_set_conv_nth intro!: exI [of _ "k - Suc j"])
    with py_rfind_Some [OF j] k(3) show False by simp
  qed
  with Some j k(2) show ?thesis by (simp add: last_open_unclosed_def)
qed (simp add: last_open_unclosed_def del: py_rfind_None)

lemma leftover_at_bracket:
  assumes "\<not> list_all no_bracket cs"
  shows "leftover_at (cs @ y) = map_option (\<lambda>r. r @ y) (leftover_at cs)"
proof -
  obtain x where "x \<in> set cs" "\<not> no_bracket x" using assms by (auto simp: list_all_iff)
  then have "takeWhile no_bracket (cs @ y) = takeWhile no_bracket cs" "dropWhile no_bracket (cs @ y) = dropWhile no_bracket cs @ y"
    "dropWhile no_bracket cs \<noteq> []"
    by (auto simp: takeWhile_append1 dropWhile_append1 dropWhile_eq_Nil_conv)
  then show ?thesis by (auto simp: leftover_at_def Let_def)
qed

lemma leftover_at_open: "list_all no_bracket cs \<Longrightarrow> y = [] \<or> hd y = CHR ''['' \<Longrightarrow> leftover_at (cs @ y) = None"
proof -
  assume cs: "list_all no_bracket cs" and y: "y = [] \<or> hd y = CHR ''[''"
  have "dropWhile no_bracket (cs @ y) = y"
    using cs y by (cases y) (auto simp: dropWhile_append list_all_iff no_bracket_def)
  with y show ?thesis by (auto simp: leftover_at_def Let_def)
qed

lemma leftover_at_suffix: "leftover_at cs = Some r \<Longrightarrow> \<exists>u. cs = u @ r"
proof -
  assume "leftover_at cs = Some r"
  then have "dropWhile no_bracket cs = hd (dropWhile no_bracket cs) # r"
    by (cases "dropWhile no_bracket cs") (auto simp: leftover_at_def Let_def split: if_splits)
  then show ?thesis by (metis append_Cons append_Nil append_assoc takeWhile_dropWhile_id)
qed

text \<open>Stripping commutes with cutting the text where no bracket pair can span the cut.\<close>

lemma strip_text_append:
  "all_closed x \<or> y = [] \<or> hd y = CHR ''['' \<Longrightarrow> strip_text (x @ y) = strip_text x @ strip_text y"
proof (induction x rule: strip_leftover_tags.induct)
  case (2 c cs)
  show ?case
  proof (cases "c = CHR ''[''")
    case False
    with 2 show ?thesis by auto
  next
    case True
    show ?thesis
    proof (cases "leftover_at cs")
      case (Some r)
      then have nb: "\<not> list_all no_bracket cs" using leftover_at_open [of cs "[]"] by auto
      have "all_closed r \<or> y = [] \<or> hd y = CHR ''[''"
        using 2(3) leftover_at_suffix [OF Some] all_closed_append_right by auto
      with "2.IH" True Some leftover_at_bracket [OF nb, of y] show ?thesis by simp
    next
      case None
      have "leftover_at (cs @ y) = None"
      proof (cases "list_all no_bracket cs")
        case False
        then show ?thesis using leftover_at_bracket None by simp
      next
        case nb: True
        then have "CHR '']'' \<notin> set cs" by (auto simp: list_all_iff no_bracket_def)
        with 2(3) True have "y = [] \<or> hd y = CHR ''[''" by auto
        with nb show ?thesis by (rule leftover_at_open)
      qed
      with "2.IH" 2(3) True None show ?thesis by auto
    qed
  qed
qed simp

text \<open>What the stripper has emitted and holds back after reading the text \<open>t\<close>.\<close>

definition strip_state :: "string \<Rightarrow> string \<Rightarrow> string \<Rightarrow> bool" where
  "strip_state t out buf \<longleftrightarrow>
     (\<exists>u. t = u @ buf \<and> out = strip_text u \<and>
        (buf = [] \<and> all_closed t \<or> (\<exists>w. buf = CHR ''['' # w \<and> list_all no_bracket w)))"

lemma strip_if_bracket_text: "strip_if_bracket s = strip_text s"
proof -
  have "CHR ''['' \<notin> set s \<Longrightarrow> strip_text s = s" by (induction s rule: strip_leftover_tags.induct) auto
  then show ?thesis by (simp add: strip_if_bracket_def)
qed

lemma strip_state_feed:
  assumes st: "strip_state t out buf" and "length (t @ chunk) \<le> LITERAL_STRIPPER_BUF_CAP"
  shows "strip_state (t @ chunk) (out @ fst (LiteralSrcStripper_feed chunk buf)) (snd (LiteralSrcStripper_feed chunk buf))"
proof (cases "chunk = []")
  case True
  with st show ?thesis by (simp add: LiteralSrcStripper_feed_def)
next
  case False
  from st obtain u where u: "t = u @ buf" "out = strip_text u"
    "buf = [] \<and> all_closed u \<or> (\<exists>w. buf = CHR ''['' # w \<and> list_all no_bracket w)" by (auto simp: strip_state_def)
  have cap: "\<not> length (buf @ chunk) > LITERAL_STRIPPER_BUF_CAP" using assms(2) u(1) by simp
  have cut: "strip_text (u @ v) = out @ strip_text v" if "v = [] \<or> hd v = hd (buf @ chunk)" for v
    using u(2,3) that by (auto intro!: strip_text_append)
  show ?thesis
  proof (cases "all_closed (buf @ chunk)")
    case True
    have "all_closed (u @ buf @ chunk)"
    proof (cases "buf = []")
      case True
      with u(3) \<open>all_closed (buf @ chunk)\<close> show ?thesis by (simp add: all_closed_append)
    next
      case False
      then have "CHR '']'' \<in> set (buf @ chunk)" using u(3) True by auto
      with True show ?thesis using all_closed_before [of "buf @ chunk" u] by simp
    qed
    with True cap False u(1) cut [of "buf @ chunk"] show ?thesis
      by (simp add: LiteralSrcStripper_feed_def strip_state_def last_open_None strip_if_bracket_text)
  next
    case unclosed: False
    then obtain v w where v: "buf @ chunk = v @ CHR ''['' # w" "list_all no_bracket w" using not_closed_split by blast
    have "v = [] \<or> hd v = hd (buf @ chunk)" using v(1) by (cases v) auto
    from cut [OF this] have "strip_text (u @ v) = out @ strip_text v" .
    with cap False v u(1) show ?thesis
      by (auto simp: LiteralSrcStripper_feed_def strip_state_def last_open_Some strip_if_bracket_text)
  qed
qed

lemma strip_state_run:
  "strip_state t out buf \<Longrightarrow> length (t @ concat chunks) \<le> LITERAL_STRIPPER_BUF_CAP \<Longrightarrow>
     strip_state (t @ concat chunks) (out @ fst (stream_run LiteralSrcStripper_feed chunks buf))
       (snd (stream_run LiteralSrcStripper_feed chunks buf))"
proof (induction chunks arbitrary: t out buf)
  case (Cons c cs)
  from strip_state_feed [OF Cons.prems(1), of c] Cons.prems(2)
  have "strip_state (t @ c) (out @ fst (LiteralSrcStripper_feed c buf)) (snd (LiteralSrcStripper_feed c buf))" by simp
  from Cons.IH [OF this] Cons.prems(2) show ?case by (simp add: case_prod_unfold)
qed simp

text \<open>What the stripper makes of a whole text.\<close>

definition strip_whole :: "string \<Rightarrow> string" where
  "strip_whole t =
     (case last_open_unclosed t of
        None \<Rightarrow> strip_text t
      | Some i \<Rightarrow> strip_text (take i t) @ strip_src_opener (drop i t))"

lemma strip_text_unclosed: "list_all no_bracket w \<Longrightarrow> strip_text (CHR ''['' # w) = CHR ''['' # w"
proof -
  assume w: "list_all no_bracket w"
  then have "leftover_at w = None" using leftover_at_open [of w "[]"] by simp
  moreover have "strip_text w = w" using w strip_if_bracket_text [of w]
    by (auto simp: strip_if_bracket_def list_all_iff no_bracket_def split: if_splits)
  ultimately show ?thesis by simp
qed

lemma strip_state_flush:
  "strip_state t out buf \<Longrightarrow> out @ fst (LiteralSrcStripper_flush buf) = strip_whole t"
  by (auto simp: strip_state_def strip_whole_def LiteralSrcStripper_flush_def last_open_None last_open_Some
      strip_text_unclosed simp del: strip_leftover_tags.simps(2))

interpretation literal_stripper: stream_filter LiteralSrcStripper_feed LiteralSrcStripper_flush "\<lambda>buf. buf = []"
proof unfold_locales
  fix s chunk :: string
  assume "s = []" "CHR ''['' \<notin> set chunk"
  then show "fst (LiteralSrcStripper_feed chunk s) = chunk \<and> snd (LiteralSrcStripper_feed chunk s) = []"
    using last_open_None [OF all_closed_plain, of chunk] by (simp add: LiteralSrcStripper_feed_def strip_if_bracket_def)
qed (simp add: LiteralSrcStripper_flush_def)

section \<open>The rewriter\<close>

lemma src_bracket_search_plain: "CHR ''['' \<notin> set s \<Longrightarrow> src_bracket_search s = None"
  by (induction s) (auto simp: Let_def)

lemma find_open_tag_plain: "CHR ''['' \<notin> set s \<Longrightarrow> find_open_tag s = None"
proof -
  assume s: "CHR ''['' \<notin> set s"
  then have "s ! i \<noteq> CHR ''[''" if "i < length s" for i using nth_mem [OF that] by metis
  then have "filter (\<lambda>i. s ! i = CHR ''['') [0..<length s] = []" by (simp add: filter_empty_conv)
  moreover have "\<not> py_endswith s (take (Suc n) ''[src:'')" for n
  proof
    assume "py_endswith s (take (Suc n) ''[src:'')"
    then have "suffix (take (Suc n) ''[src:'') s" by (simp add: py_endswith_iff)
    then have "set (take (Suc n) ''[src:'') \<subseteq> set s" by (rule set_mono_suffix)
    with s show False by simp
  qed
  then have "trailing_prefix s n = None" for n by (induction n) simp_all
  ultimately show ?thesis by (simp add: find_open_tag_def)
qed

interpretation rewriter: stream_filter StreamRewriter_feed StreamRewriter_flush "\<lambda>rw. rw_buffer rw = []"
proof unfold_locales
  fix rw :: StreamRewriter and chunk
  assume "rw_buffer rw = []" "CHR ''['' \<notin> set chunk"
  then show "fst (StreamRewriter_feed chunk rw) = chunk \<and> rw_buffer (snd (StreamRewriter_feed chunk rw)) = []"
    by (simp add: StreamRewriter_feed_def drain_def drain_loop.simps src_bracket_search_plain find_open_tag_plain)
next
  fix rw :: StreamRewriter
  assume "rw_buffer rw = []"
  then show "fst (StreamRewriter_flush rw) = []"
    by (simp add: StreamRewriter_flush_def drain_def drain_loop.simps strip_leftovers_def)
qed

text \<open>The markers of the registry, without the inline flags.\<close>

definition marker_map :: "SourceRegistry \<Rightarrow> (string, int) dict" where
  "marker_map r = map (\<lambda>(k, m). (k, mr_marker m)) (sr_markers r)"

definition marker_seq :: "nat \<Rightarrow> int list" where
  "marker_seq n = map int [1..<Suc n]"

lemma marker_seq_Suc: "marker_seq (Suc n) = marker_seq n @ [int n + 1]"
  by (simp add: marker_seq_def)

definition rw_inv :: "StreamRewriter \<Rightarrow> bool" where
  "rw_inv rw \<longleftrightarrow>
     registry_ok (rw_registry rw) \<and> rw_assigned rw = marker_map (rw_registry rw) \<and>
     map snd (rw_assigned rw) = marker_seq (length (rw_assigned rw)) \<and>
     rw_next_marker rw = int (length (rw_assigned rw)) + 1"

lemma rw_inv_cong:
  "rw_registry rw' = rw_registry rw \<Longrightarrow> rw_assigned rw' = rw_assigned rw \<Longrightarrow> rw_next_marker rw' = rw_next_marker rw \<Longrightarrow>
     rw_inv rw' \<longleftrightarrow> rw_inv rw"
  by (simp add: rw_inv_def)

lemma marker_map_update:
  "map (\<lambda>(k, m). (k, mr_marker m)) (AList.update k m d) = AList.update k (mr_marker m) (map (\<lambda>(k, m). (k, mr_marker m)) d)"
  by (induction d) auto

lemma marker_map_lookup: "map_of (marker_map r) k = map_option mr_marker (map_of (sr_markers r) k)"
  by (simp add: marker_map_def map_of_map)

lemma mark_marker_map:
  assumes "registry_ok r" "has_source k r"
  shows "marker_map (snd (mark_referenced k marker inl r)) =
    (case map_of (marker_map r) k of None \<Rightarrow> marker_map r @ [(k, marker)] | Some m \<Rightarrow> marker_map r)"
proof -
  obtain s where s: "map_of (sr_sources r) k = Some s" using assms(2) by (auto simp: has_source_def)
  show ?thesis
  proof (cases "map_of (sr_markers r) k")
    case None
    then have "k \<notin> fst ` set (map (\<lambda>(k, m). (k, mr_marker m)) (sr_markers r))"
      by (auto simp: map_of_eq_None_iff image_image case_prod_unfold)
    with None s show ?thesis
      unfolding mark_cases [OF assms(1)] marker_map_lookup
      by (simp add: Let_def marker_map_def marker_map_update dict_update_new)
  next
    case (Some m)
    have "map_of (map (\<lambda>(k, m). (k, mr_marker m)) (sr_markers r)) k = Some (mr_marker m)"
      using Some by (simp add: map_of_map)
    from dict_update_same [OF this] Some s show ?thesis
      unfolding mark_cases [OF assms(1)] marker_map_lookup
      by (simp add: Let_def marker_map_def marker_map_update)
  qed
qed

lemma envelope_marker_map:
  "envelope_ok r env \<Longrightarrow> map (\<lambda>c. (cr_source_id c, cr_marker c)) (env_refs env) = marker_map r"
  by (auto simp: envelope_ok_def marker_map_def comp_def dest!: sym [of _ "sr_markers r"])

lemma assigned_has_source: "rw_inv rw \<Longrightarrow> map_of (rw_assigned rw) k = Some m \<Longrightarrow> has_source k (rw_registry rw)"
proof -
  assume inv: "rw_inv rw" and a: "map_of (rw_assigned rw) k = Some m"
  then obtain x where "map_of (sr_markers (rw_registry rw)) k = Some x"
    by (auto simp: rw_inv_def marker_map_lookup)
  then show ?thesis using inv unfolding rw_inv_def registry_ok_def has_source_def by blast
qed

lemma rewrite_tag_inv: "rw_inv rw \<Longrightarrow> rw_inv (snd (rewrite_tag k inl rw))"
proof -
  assume inv: "rw_inv rw"
  then have ok: "registry_ok (rw_registry rw)" "rw_assigned rw = marker_map (rw_registry rw)" by (simp_all add: rw_inv_def)
  show ?thesis
  proof (cases "map_of (rw_assigned rw) k")
    case None
    then have new: "k \<notin> fst ` set (rw_assigned rw)" by (simp add: map_of_eq_None_iff)
    show ?thesis
    proof (cases "has_source k (rw_registry rw)")
      case True
      from mark_marker_map [OF ok(1) True] None ok(2)
      have "marker_map (snd (mark_referenced k (rw_next_marker rw) inl (rw_registry rw)))
          = rw_assigned rw @ [(k, rw_next_marker rw)]" by simp
      with None True inv new show ?thesis
        by (auto simp: rewrite_tag_def Let_def rw_inv_def mark_ok dict_update_new marker_seq_Suc)
    next
      case False
      with None inv show ?thesis by (auto simp: rewrite_tag_def rw_inv_def)
    qed
  next
    case (Some m)
    from mark_marker_map [OF ok(1) assigned_has_source [OF inv Some]] Some ok inv show ?thesis
      by (simp add: rewrite_tag_def rw_inv_def mark_ok)
  qed
qed

lemma rewrite_tags_inv: "rw_inv rw \<Longrightarrow> rw_inv (snd (rewrite_tags tags rw))"
proof (induction tags arbitrary: rw)
  case (Cons tag tags)
  then show ?case using rewrite_tag_inv [OF Cons.prems, of "fst tag" "snd tag"]
    by (cases tag) (simp add: case_prod_unfold)
qed simp

lemma process_bracket_inv: "rw_inv rw \<Longrightarrow> rw_inv (snd (process_bracket content rw))"
  by (simp add: process_bracket_def case_prod_unfold rewrite_tags_inv)

lemma rw_inv_buffer [simp]: "rw_inv (rw\<lparr>rw_buffer := b\<rparr>) \<longleftrightarrow> rw_inv rw"
  by (rule rw_inv_cong) simp_all

lemma rw_inv_stripped [simp]: "rw_inv (rw\<lparr>rw_leftover_stripped := n\<rparr>) \<longleftrightarrow> rw_inv rw"
  by (rule rw_inv_cong) simp_all

lemma rw_inv_orphan [simp]: "rw_inv (rw\<lparr>rw_orphan_markers := n\<rparr>) \<longleftrightarrow> rw_inv rw"
  by (rule rw_inv_cong) simp_all

lemma sanitize_inv: "rw_inv rw \<Longrightarrow> rw_inv (snd (sanitize_cap_flush chunk rw))"
  by (simp add: sanitize_cap_flush_def case_prod_unfold)

lemma drain_loop_inv: "rw_inv rw \<Longrightarrow> rw_inv (snd (drain_loop final out rw))"
proof (induction final out rw rule: drain_loop.induct)
  case (1 final out rw)
  show ?case
  proof (cases "src_bracket_search (rw_buffer rw)")
    case (Some bma)
    obtain b m a where bma: "bma = (b, m, a)" by (cases bma)
    obtain t rw' where p: "process_bracket m rw = (t, rw')" by (cases "process_bracket m rw")
    then have "rw_inv rw'" using process_bracket_inv [OF 1(2), of m] by simp
    with 1(1) [OF _ Some [unfolded bma] refl refl p [symmetric]] Some bma p 1(2) show ?thesis
      by (subst drain_loop.simps) auto
  next
    case None
    then show ?thesis using 1(2) sanitize_inv [OF 1(2), of "rw_buffer rw"]
      by (subst drain_loop.simps) (auto simp: case_prod_unfold split: option.split)
  qed
qed

lemma drain_inv: "rw_inv rw \<Longrightarrow> rw_inv (snd (drain final rw))"
  using drain_loop_inv [of rw final "[]"] by (simp add: drain_def case_prod_unfold)

datatype rw_event =
    Rw_feed string
  | Rw_flush
  | Rw_register "string \<Rightarrow> string" "json \<Rightarrow> rat option" string string string "(string \<times> json) list" string string
      "(string \<times> json) list" "MediaAttachment list"

fun rw_step :: "rw_event \<Rightarrow> StreamRewriter \<Rightarrow> StreamRewriter" where
  "rw_step (Rw_feed chunk) rw = snd (StreamRewriter_feed chunk rw)"
| "rw_step Rw_flush rw = snd (StreamRewriter_flush rw)"
| "rw_step (Rw_register sha1 pf ca kind ni nv ti ex rb as) rw =
     rw\<lparr>rw_registry := snd (SourceRegistry_register sha1 pf ca kind ni nv ti ex rb as (rw_registry rw))\<rparr>"

lemma register_markers: "sr_markers (snd (SourceRegistry_register sha1 pf ca kind ni nv ti ex rb as r)) = sr_markers r"
  by (simp add: SourceRegistry_register_def Let_def split: option.split)

lemma rw_step_inv: "rw_inv rw \<Longrightarrow> rw_inv (rw_step e rw)"
proof (cases e)
  case (Rw_feed chunk)
  assume "rw_inv rw"
  then show ?thesis using Rw_feed drain_inv by (simp add: StreamRewriter_feed_def)
next
  case Rw_flush
  assume "rw_inv rw"
  then show ?thesis using Rw_flush drain_inv
    by (simp add: StreamRewriter_flush_def strip_leftovers_def case_prod_unfold)
next
  case (Rw_register sha1 pf ca kind ni nv ti ex rb as)
  assume "rw_inv rw"
  moreover have "marker_map (snd (SourceRegistry_register sha1 pf ca kind ni nv ti ex rb as (rw_registry rw))) = marker_map (rw_registry rw)"
    by (simp add: marker_map_def register_markers)
  ultimately show ?thesis using Rw_register by (auto simp: rw_inv_def register_ok)
qed

interpretation rewriter_machine: invariant_machine rw_step "\<lambda>_ _. True" rw_inv
  by unfold_locales (rule rw_step_inv)

lemma rewriter_admissible: "rewriter_machine.admissible es rw"
  by (induction es arbitrary: rw) simp_all

lemma rw_init_inv: "rw_inv (StreamRewriter_init (SourceRegistry_init sid))"
  by (simp add: rw_inv_def StreamRewriter_init_def registry_init_ok marker_seq_def) (simp add: marker_map_def SourceRegistry_init_def)

lemmas rw_run_inv = rewriter_machine.inv_run [OF rw_init_inv rewriter_admissible]

section \<open>Properties\<close>

text \<open>
  The literal stripper is chunk-safe: within its buffer cap, what the client sees does
  not depend on how the stream was cut into chunks; it is the result for the whole text, with a
  dangling opener dropped.
\<close>

theorem stripper_chunk_invariant:
  assumes "length (concat chunks) \<le> LITERAL_STRIPPER_BUF_CAP"
  shows "filter_stream LiteralSrcStripper_feed LiteralSrcStripper_flush chunks [] = strip_whole (concat chunks)"
proof -
  have "strip_state [] [] []" by (simp add: strip_state_def)
  from strip_state_run [OF this, of chunks] assms
  have "strip_state (concat chunks) (fst (stream_run LiteralSrcStripper_feed chunks []))
      (snd (stream_run LiteralSrcStripper_feed chunks []))" by simp
  from strip_state_flush [OF this] show ?thesis by (simp add: filter_stream_def case_prod_unfold)
qed

theorem stripper_chunk_invariant_witness:
  "filter_stream LiteralSrcStripper_feed LiteralSrcStripper_flush [''See ['', ''src:get_'', ''topic] now [1].''] [] = ''See  now [1].''"
proof -
  have "strip_whole (concat [''See ['', ''src:get_'', ''topic] now [1].'']) = ''See  now [1].''" by code_simp
  then show ?thesis
    by (subst stripper_chunk_invariant) (simp_all add: LITERAL_STRIPPER_BUF_CAP_def)
qed


text \<open>
  Prose passes through both filters unchanged and complete: a stream without an opening
  bracket is emitted as it came, by the rewriter and by the literal stripper, whatever the chunks.
\<close>

theorem plain_text_unchanged:
  assumes "CHR ''['' \<notin> set (concat chunks)"
  shows "filter_stream StreamRewriter_feed StreamRewriter_flush chunks (StreamRewriter_init registry) = concat chunks \<and>
    filter_stream LiteralSrcStripper_feed LiteralSrcStripper_flush chunks [] = concat chunks"
  using rewriter.plain_stream [OF _ assms] literal_stripper.plain_stream [OF _ assms] by (simp add: StreamRewriter_init_def)

theorem plain_text_unchanged_witness:
  "filter_stream StreamRewriter_feed StreamRewriter_flush [''all '', ''quiet]''] (StreamRewriter_init (SourceRegistry_init [])) = ''all quiet]''"
  using plain_text_unchanged [of "[''all '', ''quiet]'']"] by simp

text \<open>
  Removing a literal can uncover another: the single pass over a nested literal leaves a
  source literal in the text that the client receives.
\<close>

theorem nested_literal_leaks:
  "filter_stream LiteralSrcStripper_feed LiteralSrcStripper_flush [''[[src:a]src:b]''] [] = ''[src:b]''"
  by code_simp

text \<open>
  The rewriter holds back only an opening bracket that the tag follows at once: a tag
  with words before it is numbered when it arrives in one chunk and reaches the client as it stands
  when the stream is cut after those words.
\<close>

theorem rewriter_depends_on_chunks:
  defines "registry \<equiv> snd (SourceRegistry_register (\<lambda>_. ''0123456789'') (\<lambda>_. None) [] ''channel_message'' ''m1'' [] [] ''text'' [] []
    (SourceRegistry_init []))"
  shows "map (\<lambda>chunks. filter_stream StreamRewriter_feed StreamRewriter_flush chunks (StreamRewriter_init registry))
      [[''[see src:src_0123456789]''], [''[see '', ''src:src_0123456789]'']] = [''[1]'', ''[see src:src_0123456789]'']"
  unfolding registry_def by code_simp

end
