(* ===== verification/Extraction_Queue.thy ===== *)
theory Extraction_Queue
  imports Py_Json Keyed_Registry
begin

text \<open>
  The durable message queue of the decoupled pipeline: the \<^verbatim>\<open>channel_messages\<close> collection of
  \<^verbatim>\<open>stores/mongodb_store.py\<close> with the row model and the status machine of
  \<^verbatim>\<open>models/persistence.py\<close>. The collection is the list of its documents, in the store's natural
  order, unique by \<^verbatim>\<open>(source_id, channel_id, message_id)\<close>. Every operation of the server that the
  code calls (\<^verbatim>\<open>find_one_and_update\<close>, one \<^verbatim>\<open>UpdateOne\<close>, \<^verbatim>\<open>update_many\<close>) is one atomic step, so that an
  interleaving of workers is a list of such steps. A sort key that ties leaves the natural order.
\<close>

section \<open>Model\<close>

datatype extraction_status = Pending | Extracting | Done | Failed

definition EXTRACTION_STATUS_TRANSITIONS :: "(extraction_status, extraction_status list) dict" where
  "EXTRACTION_STATUS_TRANSITIONS = [(Pending, [Extracting]), (Extracting, [Done, Failed]), (Done, []), (Failed, [Pending])]"

type_synonym message_key = "string \<times> string \<times> string"

record ChannelMessage =
  cm_source_id :: string
  cm_channel_id :: string
  cm_message_id :: string
  cm_fields :: "(string, json) dict"
  extraction_status :: extraction_status
  attempt_count :: nat
  next_attempt_at :: seconds
  last_error :: "string option"
  cm_created_at :: seconds
  cm_updated_at :: seconds

definition message_key :: "ChannelMessage \<Rightarrow> message_key" where
  "message_key m = (cm_source_id m, cm_channel_id m, cm_message_id m)"

type_synonym queue = "ChannelMessage list"

text \<open>The fields that a repeated sync overwrites.\<close>

definition mutable_fields :: "string list" where
  "mutable_fields = [''channel_name'', ''timestamp'', ''author'', ''author_name'', ''author_image'', ''content'',
     ''thread_id'', ''attachments'', ''reactions'', ''reply_count'', ''is_bot'', ''links'', ''raw_metadata'', ''guild_id'']"

definition set_fields :: "(string, json) dict \<Rightarrow> (string, json) dict \<Rightarrow> (string, json) dict" where
  "set_fields new old = fold (\<lambda>(k, v). AList.update k v) (filter (\<lambda>(k, v). k \<in> set mutable_fields) new) old"

definition upsert_channel_message :: "seconds \<Rightarrow> ChannelMessage \<Rightarrow> queue \<Rightarrow> queue" where
  "upsert_channel_message now msg q =
     (if message_key msg \<in> set (map message_key q) then
        map (\<lambda>r. if message_key r = message_key msg
                 then r\<lparr>cm_fields := set_fields (cm_fields msg) (cm_fields r), cm_updated_at := now\<rparr> else r) q
      else q @ [msg\<lparr>cm_fields := set_fields (cm_fields msg) [], cm_updated_at := now\<rparr>])"

definition upsert_channel_messages :: "seconds \<Rightarrow> ChannelMessage list \<Rightarrow> queue \<Rightarrow> queue" where
  "upsert_channel_messages now messages q = fold (upsert_channel_message now) messages q"

text \<open>
  The counters of the call. Every operation of the bulk write is an \<^verbatim>\<open>UpdateOne\<close> with
  \<^verbatim>\<open>upsert=True\<close>: the driver counts a row it creates as upserted, and as inserted only the rows of
  \<^verbatim>\<open>InsertOne\<close> operations, of which there are none.
\<close>

record upsert_counts =
  ur_inserted :: nat
  ur_modified :: nat
  ur_matched :: nat
  ur_upserted_ids :: nat

primrec upsert_outcome :: "seconds \<Rightarrow> ChannelMessage list \<Rightarrow> queue \<Rightarrow> upsert_counts" where
  "upsert_outcome now [] q = \<lparr>ur_inserted = 0, ur_modified = 0, ur_matched = 0, ur_upserted_ids = 0\<rparr>"
| "upsert_outcome now (m # ms) q =
     (let q' = upsert_channel_message now m q; c = upsert_outcome now ms q' in
      if message_key m \<in> set (map message_key q)
      then c\<lparr>ur_matched := ur_matched c + 1, ur_modified := ur_modified c + (if q' = q then 0 else 1)\<rparr>
      else c\<lparr>ur_upserted_ids := ur_upserted_ids c + 1\<rparr>)"

text \<open>The claim: the query, one \<^verbatim>\<open>find_one_and_update\<close>, and the loop of a call.\<close>

record claim_filter =
  cf_now :: seconds
  cf_settle_seconds :: seconds
  cf_max_retries :: nat
  cf_channel :: "string option"
  cf_purging :: "string list"

definition channel_in_scope :: "claim_filter \<Rightarrow> string \<Rightarrow> bool" where
  "channel_in_scope f ch = (case cf_channel f of Some c \<Rightarrow> ch = c | None \<Rightarrow> ch \<notin> set (cf_purging f))"

definition claimable :: "claim_filter \<Rightarrow> ChannelMessage \<Rightarrow> bool" where
  "claimable f r \<longleftrightarrow>
     (extraction_status r = Pending \<or> extraction_status r = Failed \<and> attempt_count r < cf_max_retries f) \<and>
     next_attempt_at r \<le> cf_now f \<and> cm_created_at r < cf_now f - cf_settle_seconds f \<and>
     channel_in_scope f (cm_channel_id r)"

definition mark_extracting :: "seconds \<Rightarrow> ChannelMessage \<Rightarrow> ChannelMessage" where
  "mark_extracting now r = r\<lparr>extraction_status := Extracting, cm_updated_at := now\<rparr>"

definition set_row :: "ChannelMessage \<Rightarrow> queue \<Rightarrow> queue" where
  "set_row r q = map (\<lambda>x. if message_key x = message_key r then r else x) q"

definition claim_one :: "claim_filter \<Rightarrow> queue \<Rightarrow> ChannelMessage option \<times> queue" where
  "claim_one f q =
     (case filter (claimable f) q of
        [] \<Rightarrow> (None, q)
      | c # cs \<Rightarrow>
          let doc = mark_extracting (cf_now f) (arg_min_list next_attempt_at (c # cs)) in (Some doc, set_row doc q))"

fun claim_loop :: "nat \<Rightarrow> claim_filter \<Rightarrow> queue \<Rightarrow> ChannelMessage list \<times> queue" where
  "claim_loop 0 f q = ([], q)"
| "claim_loop (Suc n) f q =
     (case claim_one f q of
        (None, q') \<Rightarrow> ([], q')
      | (Some doc, q') \<Rightarrow> apfst (Cons doc) (claim_loop n f q'))"

definition claim_pending_messages_for_extraction :: "nat \<Rightarrow> claim_filter \<Rightarrow> queue \<Rightarrow> ChannelMessage list \<times> queue" where
  "claim_pending_messages_for_extraction batch_size f q =
     (case cf_channel f of
        Some c \<Rightarrow> if c \<in> set (cf_purging f) then ([], q) else claim_loop batch_size f q
      | None \<Rightarrow> claim_loop batch_size f q)"

text \<open>Transitions of a claimed row.\<close>

definition allowed_from :: "extraction_status \<Rightarrow> extraction_status list" where
  "allowed_from new_status = map fst (filter (\<lambda>(_, allowed). new_status \<in> set allowed) EXTRACTION_STATUS_TRANSITIONS)"

definition transition_row ::
    "seconds \<Rightarrow> extraction_status \<Rightarrow> string option \<Rightarrow> seconds option \<Rightarrow> ChannelMessage \<Rightarrow> ChannelMessage" where
  "transition_row now new_status error next r =
     r\<lparr>extraction_status := new_status, cm_updated_at := now,
       last_error := (case error of Some e \<Rightarrow> Some e | None \<Rightarrow> last_error r),
       next_attempt_at := (case next of Some t \<Rightarrow> t | None \<Rightarrow> next_attempt_at r),
       attempt_count := (if new_status = Failed then attempt_count r + 1 else attempt_count r)\<rparr>"

definition finalize_one ::
    "seconds \<Rightarrow> extraction_status \<Rightarrow> string option \<Rightarrow> seconds option \<Rightarrow> message_key \<Rightarrow> queue \<Rightarrow> queue" where
  "finalize_one now new_status error next key q =
     map (\<lambda>r. if message_key r = key \<and> extraction_status r \<in> set (allowed_from new_status)
              then transition_row now new_status error next r else r) q"

definition finalize_extraction_status_bulk ::
    "seconds \<Rightarrow> message_key list \<Rightarrow> extraction_status \<Rightarrow> string option \<Rightarrow> seconds option \<Rightarrow> queue \<Rightarrow> nat \<times> queue" where
  "finalize_extraction_status_bulk now keys new_status error next q =
     (if keys = [] \<or> allowed_from new_status = [] then (0, q)
      else fold (\<lambda>key (n, q).
             (n + length (filter (\<lambda>r. message_key r = key \<and> extraction_status r \<in> set (allowed_from new_status)) q),
              finalize_one now new_status error next key q)) keys (0, q))"

definition update_channel_message_status ::
    "seconds \<Rightarrow> message_key \<Rightarrow> extraction_status \<Rightarrow> string option \<Rightarrow> seconds option \<Rightarrow> queue \<Rightarrow> bool \<times> queue" where
  "update_channel_message_status now key new_status error next q =
     (let allowed = (\<lambda>r. message_key r = key \<and> extraction_status r \<in> set (new_status # allowed_from new_status)) in
      (list_ex allowed q, map (\<lambda>r. if allowed r then transition_row now new_status error next r else r) q))"

definition sweep_stale_extracting :: "seconds \<Rightarrow> seconds \<Rightarrow> queue \<Rightarrow> nat \<times> queue" where
  "sweep_stale_extracting now stale_seconds q =
     (let stale = (\<lambda>r. extraction_status r = Extracting \<and> cm_updated_at r < now - stale_seconds) in
      (length (filter stale q),
       map (\<lambda>r. if stale r then r\<lparr>extraction_status := Pending, cm_updated_at := now, next_attempt_at := now\<rparr> else r) q))"

text \<open>The message flip of a channel reset, in \<^verbatim>\<open>services/channel_deletion.py\<close>.\<close>

definition reset_extraction_status :: "seconds \<Rightarrow> string \<Rightarrow> queue \<Rightarrow> queue" where
  "reset_extraction_status now channel_id q =
     map (\<lambda>r. if cm_channel_id r = channel_id
              then r\<lparr>extraction_status := Pending, next_attempt_at := now, attempt_count := 0\<rparr> else r) q"

definition count_status :: "string \<Rightarrow> extraction_status \<Rightarrow> queue \<Rightarrow> nat" where
  "count_status channel_id s q = length (filter (\<lambda>r. cm_channel_id r = channel_id \<and> extraction_status r = s) q)"

definition count_channel_messages_by_status :: "string \<Rightarrow> queue \<Rightarrow> (extraction_status, nat) dict" where
  "count_channel_messages_by_status channel_id q =
     map (\<lambda>s. (s, count_status channel_id s q)) [Pending, Extracting, Done, Failed]"

section \<open>Row-wise view\<close>

text \<open>The collection has a unique index.\<close>

abbreviation queue_ok :: "queue \<Rightarrow> bool" where
  "queue_ok q \<equiv> distinct (map message_key q)"

lemma allowed_from_simps [simp]:
  "allowed_from Pending = [Failed]" "allowed_from Extracting = [Pending]"
  "allowed_from Done = [Extracting]" "allowed_from Failed = [Extracting]"
  by (simp_all add: allowed_from_def EXTRACTION_STATUS_TRANSITIONS_def)

lemma key_updates [simp]:
  "message_key (r\<lparr>cm_fields := a\<rparr>) = message_key r" "message_key (r\<lparr>cm_updated_at := t\<rparr>) = message_key r"
  "message_key (r\<lparr>extraction_status := s\<rparr>) = message_key r" "message_key (r\<lparr>next_attempt_at := t\<rparr>) = message_key r"
  "message_key (r\<lparr>attempt_count := n\<rparr>) = message_key r" "message_key (r\<lparr>last_error := e\<rparr>) = message_key r"
  by (simp_all add: message_key_def)

lemma mark_extracting_simps [simp]:
  "message_key (mark_extracting now r) = message_key r" "extraction_status (mark_extracting now r) = Extracting"
  "attempt_count (mark_extracting now r) = attempt_count r" "cm_channel_id (mark_extracting now r) = cm_channel_id r"
  "cm_updated_at (mark_extracting now r) = now" "next_attempt_at (mark_extracting now r) = next_attempt_at r"
  by (simp_all add: mark_extracting_def)

lemma transition_row_simps [simp]:
  "message_key (transition_row now s e n r) = message_key r" "extraction_status (transition_row now s e n r) = s"
  "attempt_count (transition_row now s e n r) = (if s = Failed then attempt_count r + 1 else attempt_count r)"
  by (simp_all add: transition_row_def message_key_def)

text \<open>An operation that only rewrites rows in place.\<close>

lemma map_keys: "(\<And>r. message_key (g r) = message_key r) \<Longrightarrow> map message_key (map g q) = map message_key q"
  by (simp add: comp_def)

lemma set_row_keys [simp]: "map message_key (set_row r q) = map message_key q"
  unfolding set_row_def by (rule map_keys) simp

lemma upsert_keys:
  "map message_key (upsert_channel_message now m q) =
     (if message_key m \<in> set (map message_key q) then map message_key q else map message_key q @ [message_key m])"
  by (simp add: upsert_channel_message_def)

lemma upsert_ok: "queue_ok q \<Longrightarrow> queue_ok (upsert_channel_message now m q)"
  by (simp only: upsert_keys) auto

lemma upserts_ok: "queue_ok q \<Longrightarrow> queue_ok (upsert_channel_messages now ms q)"
  unfolding upsert_channel_messages_def by (induction ms arbitrary: q) (simp_all add: upsert_ok)

lemma upsert_outcome_inserted: "ur_inserted (upsert_outcome now ms q) = 0"
  by (induction ms arbitrary: q) (simp_all add: Let_def)

lemma upsert_outcome_counts:
  "ur_matched (upsert_outcome now ms q) + ur_upserted_ids (upsert_outcome now ms q) = length ms \<and>
   length (upsert_channel_messages now ms q) = length q + ur_upserted_ids (upsert_outcome now ms q)"
proof (induction ms arbitrary: q)
  case (Cons m ms)
  have "upsert_channel_messages now (m # ms) q = upsert_channel_messages now ms (upsert_channel_message now m q)"
    by (simp add: upsert_channel_messages_def)
  with Cons.IH [of "upsert_channel_message now m q"] show ?case
    by (simp add: Let_def) (simp add: upsert_channel_message_def)
qed (simp add: upsert_channel_messages_def)

section \<open>What a claim takes\<close>

lemma arg_min_list_split:
  "xs \<noteq> [] \<Longrightarrow> \<exists>ys zs. xs = ys @ arg_min_list f xs # zs \<and>
     (\<forall>y \<in> set ys. f (arg_min_list f xs) < f y) \<and> (\<forall>z \<in> set zs. f (arg_min_list f xs) \<le> (f z :: 'b :: linorder))"
proof (induction f xs rule: arg_min_list.induct)
  case (1 f x)
  then show ?case by (intro exI [of _ "[]"]) simp
next
  case (2 f x y zs)
  let ?m = "arg_min_list f (y # zs)"
  from 2 obtain us vs where uv: "y # zs = us @ ?m # vs" "\<forall>u \<in> set us. f ?m < f u" "\<forall>v \<in> set vs. f ?m \<le> f v"
    by auto
  show ?case
  proof (cases "f x \<le> f ?m")
    case True
    have "\<forall>z \<in> set (y # zs). f x \<le> f z"
      using uv True by (metis Un_iff dual_order.trans order_less_imp_le set_ConsD set_append)
    with True show ?thesis by (intro exI [of _ "[]"] exI [of _ "y # zs"]) (simp add: Let_def)
  next
    case False
    then have m: "arg_min_list f (x # y # zs) = ?m" by (simp add: Let_def)
    from uv False show ?thesis unfolding m
      by (intro exI [of _ "x # us"] exI [of _ vs]) (auto simp: not_le)
  qed
qed simp

lemma sort_key_first:
  fixes f :: "'a \<Rightarrow> 'b :: linorder"
  assumes "\<forall>y \<in> set ys. f a < f y" "\<forall>z \<in> set zs. f a \<le> f z"
  shows "sort_key f (ys @ a # zs) = a # sort_key f (ys @ zs)"
  using assms by (induction ys) (auto simp: insort_is_Cons)

lemma sort_key_arg_min:
  fixes f :: "'a \<Rightarrow> 'b :: linorder"
  assumes "xs \<noteq> []"
  shows "sort_key f xs = arg_min_list f xs # sort_key f (remove1 (arg_min_list f xs) xs)"
proof -
  let ?a = "arg_min_list f xs"
  from arg_min_list_split [OF assms, of f] obtain ys zs where
    x: "xs = ys @ ?a # zs" "\<forall>y \<in> set ys. f ?a < f y" "\<forall>z \<in> set zs. f ?a \<le> f z" by blast
  then have "?a \<notin> set ys" by auto
  then have "remove1 ?a xs = ys @ zs" by (subst (2) x(1)) (simp add: remove1_append)
  moreover have "sort_key f xs = ?a # sort_key f (ys @ zs)" by (subst x(1)) (rule sort_key_first [OF x(2,3)])
  ultimately show ?thesis by simp
qed

definition due_rows :: "claim_filter \<Rightarrow> queue \<Rightarrow> ChannelMessage list" where
  "due_rows f q = sort_key next_attempt_at (filter (claimable f) q)"

lemma due_rows_set: "set (due_rows f q) = {r \<in> set q. claimable f r}"
  by (simp add: due_rows_def)

lemma not_claimable_extracting: "extraction_status r = Extracting \<Longrightarrow> \<not> claimable f r"
  by (simp add: claimable_def)

lemma key_unique: "queue_ok q \<Longrightarrow> r \<in> set q \<Longrightarrow> r' \<in> set q \<Longrightarrow> message_key r = message_key r' \<Longrightarrow> r = r'"
  by (auto simp: distinct_map dest: inj_onD)

lemma filter_set_row:
  assumes "queue_ok q" "a \<in> set q" "message_key doc = message_key a" "\<not> P doc"
  shows "filter P (set_row doc q) = remove1 a (filter P q)"
proof -
  have "filter P (set_row doc q) = filter (\<lambda>r. r \<noteq> a \<and> P r) q"
    using assms
  proof (induction q)
    case (Cons r q)
    show ?case
    proof (cases "message_key r = message_key a")
      case True
      then have ra: "r = a" using key_unique [OF Cons.prems(1), of r a] Cons.prems(2) by simp
      with Cons.prems have "\<forall>x \<in> set q. message_key x \<noteq> message_key doc" by (auto simp: image_iff)
      then have "set_row doc q = q" and "\<forall>x \<in> set q. x \<noteq> a" using Cons.prems(3)
        by (auto simp: set_row_def intro: map_idI)
      then show ?thesis using ra Cons.prems(3,4) by (auto simp: set_row_def intro!: filter_cong)
    next
      case False
      with Cons show ?thesis by (auto simp: set_row_def)
    qed
  qed (simp add: set_row_def)
  also have "\<dots> = remove1 a (filter P q)"
    using assms(1) by (auto simp: distinct_remove1_removeAll distinct_map removeAll_filter_not_eq intro!: filter_cong)
  finally show ?thesis .
qed

lemma due_rows_claim_one:
  assumes ok: "queue_ok q"
  shows "due_rows f q = [] \<and> claim_one f q = (None, q) \<or>
    (\<exists>a. a \<in> set q \<and> claimable f a \<and> claim_one f q = (Some (mark_extracting (cf_now f) a), set_row (mark_extracting (cf_now f) a) q) \<and>
       due_rows f q = a # due_rows f (set_row (mark_extracting (cf_now f) a) q))"
proof (cases "filter (claimable f) q")
  case Nil
  then show ?thesis by (simp add: claim_one_def due_rows_def)
next
  case (Cons c cs)
  let ?a = "arg_min_list next_attempt_at (c # cs)"
  have "?a \<in> set (c # cs)" by (rule arg_min_list_in) simp
  then have a: "?a \<in> set q" "claimable f ?a" unfolding Cons [symmetric] by simp_all
  have "filter (claimable f) (set_row (mark_extracting (cf_now f) ?a) q) = remove1 ?a (c # cs)"
    using filter_set_row [OF ok a(1), of "mark_extracting (cf_now f) ?a" "claimable f"] Cons
    by (simp add: not_claimable_extracting)
  moreover have "due_rows f q = ?a # sort_key next_attempt_at (remove1 ?a (c # cs))"
    unfolding due_rows_def Cons by (rule sort_key_arg_min) simp
  ultimately have "due_rows f q = ?a # due_rows f (set_row (mark_extracting (cf_now f) ?a) q)" by (simp add: due_rows_def)
  moreover have "claim_one f q = (Some (mark_extracting (cf_now f) ?a), set_row (mark_extracting (cf_now f) ?a) q)"
    using Cons by (simp add: claim_one_def Let_def)
  ultimately show ?thesis using a by blast
qed

text \<open>The effect of a claim on the collection.\<close>

definition mark_rows :: "seconds \<Rightarrow> ChannelMessage list \<Rightarrow> queue \<Rightarrow> queue" where
  "mark_rows now rs q = map (\<lambda>r. if r \<in> set rs then mark_extracting now r else r) q"

lemma set_row_mark: "queue_ok q \<Longrightarrow> a \<in> set q \<Longrightarrow> set_row (mark_extracting now a) q = mark_rows now [a] q"
  by (auto simp: set_row_def mark_rows_def dest: key_unique)

lemma claim_loop_spec:
  "queue_ok q \<Longrightarrow> claim_loop n f q =
     (map (mark_extracting (cf_now f)) (take n (due_rows f q)), mark_rows (cf_now f) (take n (due_rows f q)) q)"
proof (induction n arbitrary: q)
  case 0
  show ?case by (simp add: mark_rows_def)
next
  case (Suc n)
  show ?case
  proof (cases "due_rows f q")
    case Nil
    with due_rows_claim_one [OF Suc.prems, of f] show ?thesis by (auto simp: mark_rows_def)
  next
    case (Cons c cs)
    with due_rows_claim_one [OF Suc.prems, of f] obtain a where
      a: "a \<in> set q" "claim_one f q = (Some (mark_extracting (cf_now f) a), set_row (mark_extracting (cf_now f) a) q)"
        "due_rows f q = a # due_rows f (set_row (mark_extracting (cf_now f) a) q)" by auto
    let ?q = "set_row (mark_extracting (cf_now f) a) q"
    have "mark_rows (cf_now f) (take n (due_rows f ?q)) ?q = mark_rows (cf_now f) (take (Suc n) (due_rows f q)) q"
    proof -
      have "mark_extracting (cf_now f) a \<notin> set (take n (due_rows f ?q))"
        using due_rows_set [of f ?q] not_claimable_extracting by (auto dest!: in_set_takeD)
      then show ?thesis unfolding a(3) set_row_mark [OF Suc.prems a(1)] by (auto simp: mark_rows_def)
    qed
    with Suc.IH [of ?q] Suc.prems a show ?thesis by simp
  qed
qed

section \<open>Runs of the queue\<close>

text \<open>One atomic operation of the store, by any of the processes that use it.\<close>

datatype queue_event =
    Upsert_message seconds ChannelMessage
  | Claim_row claim_filter
  | Finalize_row seconds message_key extraction_status "string option" "seconds option"
  | Sweep_stale seconds seconds
  | Reset_channel seconds string

fun queue_step :: "queue_event \<Rightarrow> queue \<Rightarrow> queue" where
  "queue_step (Upsert_message now m) q = upsert_channel_message now m q"
| "queue_step (Claim_row f) q = snd (claim_one f q)"
| "queue_step (Finalize_row now k s e t) q = finalize_one now s e t k q"
| "queue_step (Sweep_stale now stale) q = snd (sweep_stale_extracting now stale q)"
| "queue_step (Reset_channel now ch) q = reset_extraction_status now ch q"

fun claimed_by :: "queue_event \<Rightarrow> queue \<Rightarrow> message_key list" where
  "claimed_by (Claim_row f) q = (case fst (claim_one f q) of Some doc \<Rightarrow> [message_key doc] | None \<Rightarrow> [])"
| "claimed_by _ q = []"

text \<open>The keys handed to workers, in order.\<close>

fun claim_log :: "queue_event list \<Rightarrow> queue \<Rightarrow> message_key list" where
  "claim_log [] q = []"
| "claim_log (e # es) q = claimed_by e q @ claim_log es (queue_step e q)"

text \<open>What takes a row away from the worker that claimed it: its failure, the sweep once the claim is stale, a reset.\<close>

fun releases :: "message_key \<Rightarrow> queue_event \<Rightarrow> queue \<Rightarrow> bool" where
  "releases k (Finalize_row _ k' s _ _) q = (k' = k \<and> s = Failed)"
| "releases k (Sweep_stale now stale) q =
     list_ex (\<lambda>r. message_key r = k \<and> extraction_status r = Extracting \<and> cm_updated_at r < now - stale) q"
| "releases k (Reset_channel _ ch) q = (fst (snd k) = ch)"
| "releases k _ q = False"

fun retained :: "message_key \<Rightarrow> queue_event list \<Rightarrow> queue \<Rightarrow> bool" where
  "retained k [] q = True"
| "retained k (e # es) q = (\<not> releases k e q \<and> retained k es (queue_step e q))"

lemma claim_one_mark:
  "queue_ok q \<Longrightarrow> claim_one f q = (None, q) \<or>
     (\<exists>a. a \<in> set q \<and> claimable f a \<and> claim_one f q = (Some (mark_extracting (cf_now f) a), mark_rows (cf_now f) [a] q))"
  using due_rows_claim_one [of q f] set_row_mark by metis

lemma mark_rows_keys [simp]: "map message_key (mark_rows now rs q) = map message_key q"
  unfolding mark_rows_def by (rule map_keys) simp

text \<open>What one step does to one row.\<close>

fun row_step :: "queue_event \<Rightarrow> queue \<Rightarrow> ChannelMessage \<Rightarrow> ChannelMessage" where
  "row_step (Upsert_message now m) q r =
     (if message_key r = message_key m
      then r\<lparr>cm_fields := set_fields (cm_fields m) (cm_fields r), cm_updated_at := now\<rparr> else r)"
| "row_step (Claim_row f) q r = (if message_key r \<in> set (claimed_by (Claim_row f) q) then mark_extracting (cf_now f) r else r)"
| "row_step (Finalize_row now k s e t) q r =
     (if message_key r = k \<and> extraction_status r \<in> set (allowed_from s) then transition_row now s e t r else r)"
| "row_step (Sweep_stale now stale) q r =
     (if extraction_status r = Extracting \<and> cm_updated_at r < now - stale
      then r\<lparr>extraction_status := Pending, cm_updated_at := now, next_attempt_at := now\<rparr> else r)"
| "row_step (Reset_channel now ch) q r =
     (if cm_channel_id r = ch then r\<lparr>extraction_status := Pending, next_attempt_at := now, attempt_count := 0\<rparr> else r)"

fun new_rows :: "queue_event \<Rightarrow> queue \<Rightarrow> queue" where
  "new_rows (Upsert_message now m) q =
     (if message_key m \<in> set (map message_key q) then [] else [m\<lparr>cm_fields := set_fields (cm_fields m) [], cm_updated_at := now\<rparr>])"
| "new_rows _ q = []"

lemma queue_step_rows: "queue_ok q \<Longrightarrow> queue_step e q = map (row_step e q) q @ new_rows e q"
proof (cases e)
  case (Claim_row f)
  assume ok: "queue_ok q"
  from claim_one_mark [OF ok, of f] show ?thesis
  proof (elim disjE exE conjE)
    assume "claim_one f q = (None, q)"
    with Claim_row show ?thesis by (simp add: map_idI)
  next
    fix a
    assume a: "a \<in> set q" "claim_one f q = (Some (mark_extracting (cf_now f) a), mark_rows (cf_now f) [a] q)"
    have "message_key r = message_key a \<longleftrightarrow> r = a" if "r \<in> set q" for r using key_unique [OF ok that a(1)] by auto
    with a Claim_row show ?thesis by (simp add: mark_rows_def)
  qed
next
  case (Upsert_message now m)
  then show ?thesis
    by (auto simp: upsert_channel_message_def image_iff intro!: map_idI [symmetric])
qed (simp_all add: finalize_one_def sweep_stale_extracting_def reset_extraction_status_def Let_def)

lemma row_step_key [simp]: "message_key (row_step e q r) = message_key r"
  by (cases e) simp_all

lemma queue_step_ok: "queue_ok q \<Longrightarrow> queue_ok (queue_step e q)"
proof -
  assume ok: "queue_ok q"
  have "map message_key (map (row_step e q) q) = map message_key q" by (rule map_keys) simp
  then have "map message_key (queue_step e q) = map message_key q @ map message_key (new_rows e q)"
    using queue_step_rows [OF ok] by simp
  with ok show ?thesis by (cases e) auto
qed

text \<open>A claim takes a row that is neither with a worker nor done.\<close>

lemma claimed_idle:
  "queue_ok q \<Longrightarrow> r \<in> set q \<Longrightarrow> message_key r \<in> set (claimed_by e q) \<Longrightarrow>
     (\<exists>f. e = Claim_row f \<and> claimable f r) \<and> extraction_status r \<in> {Pending, Failed}"
proof (cases e)
  case (Claim_row f)
  assume ok: "queue_ok q" and r: "r \<in> set q" "message_key r \<in> set (claimed_by e q)"
  from claim_one_mark [OF ok, of f] r(2) Claim_row obtain a where
    a: "a \<in> set q" "claimable f a" "message_key r = message_key a" by auto
  with key_unique [OF ok r(1) a(1)] Claim_row show ?thesis by (auto simp: claimable_def)
qed simp_all

lemma claimed_present: "queue_ok q \<Longrightarrow> k \<in> set (claimed_by e q) \<Longrightarrow> \<exists>r \<in> set q. message_key r = k"
proof (cases e)
  case (Claim_row f)
  assume "queue_ok q" "k \<in> set (claimed_by e q)"
  with claim_one_mark [of q f] Claim_row show ?thesis by auto
qed simp_all

definition taken :: "message_key \<Rightarrow> queue \<Rightarrow> bool" where
  "taken k q \<longleftrightarrow> (\<exists>r \<in> set q. message_key r = k \<and> extraction_status r \<in> {Extracting, Done})"

lemma taken_not_claimed: "queue_ok q \<Longrightarrow> taken k q \<Longrightarrow> k \<notin> set (claimed_by e q)"
  unfolding taken_def using claimed_idle by fastforce

lemma row_step_taken:
  assumes "queue_ok q" "r \<in> set q" "extraction_status r \<in> {Extracting, Done}" "\<not> releases (message_key r) e q"
  shows "extraction_status (row_step e q r) \<in> {Extracting, Done}"
proof (cases e)
  case (Sweep_stale now stale)
  with assms show ?thesis by (auto simp: list_ex_iff)
next
  case (Reset_channel now ch)
  with assms show ?thesis by (auto simp: message_key_def)
next
  case (Finalize_row now k s err t)
  with assms show ?thesis by (cases s) auto
qed (use assms in auto)

lemma taken_step:
  "queue_ok q \<Longrightarrow> taken k q \<Longrightarrow> \<not> releases k e q \<Longrightarrow> taken k (queue_step e q)"
  unfolding taken_def using row_step_taken [of q _ e] row_step_key by (fastforce simp: queue_step_rows)

lemma claimed_taken: "queue_ok q \<Longrightarrow> k \<in> set (claimed_by e q) \<Longrightarrow> taken k (queue_step e q)"
proof -
  assume ok: "queue_ok q" and k: "k \<in> set (claimed_by e q)"
  then obtain r where r: "r \<in> set q" "message_key r = k" using claimed_present by blast
  with claimed_idle [OF ok r(1), of e] k obtain f where "e = Claim_row f" by auto
  with k r(2) have "extraction_status (row_step e q r) = Extracting" by (simp del: claimed_by.simps)
  moreover have "row_step e q r \<in> set (queue_step e q)" using r(1) queue_step_rows [OF ok] by simp
  ultimately show ?thesis using r(2) row_step_key unfolding taken_def by blast
qed

lemma taken_no_claims: "queue_ok q \<Longrightarrow> taken k q \<Longrightarrow> retained k es q \<Longrightarrow> k \<notin> set (claim_log es q)"
proof (induction es arbitrary: q)
  case (Cons e es)
  then show ?case using taken_not_claimed taken_step queue_step_ok by (metis claim_log.simps(2) retained.simps(2) set_append Un_iff)
qed simp

lemma claimed_by_once: "count_list (claimed_by e q) k \<le> 1"
  by (cases e) (auto split: option.split)

lemma claims_at_most_once: "queue_ok q \<Longrightarrow> retained k es q \<Longrightarrow> count_list (claim_log es q) k \<le> 1"
proof (induction es arbitrary: q)
  case (Cons e es)
  show ?case
  proof (cases "k \<in> set (claimed_by e q)")
    case True
    then have "k \<notin> set (claim_log es (queue_step e q))"
      using Cons.prems claimed_taken queue_step_ok taken_no_claims by simp
    then show ?thesis using claimed_by_once [of e q k] by simp
  next
    case False
    with Cons queue_step_ok show ?thesis by simp
  qed
qed simp

text \<open>The retry budget: a row that waits or is with a worker has an attempt left.\<close>

definition budget_ok :: "nat \<Rightarrow> queue \<Rightarrow> bool" where
  "budget_ok n q \<longleftrightarrow> 0 < n \<and> queue_ok q \<and>
     (\<forall>r \<in> set q. attempt_count r \<le> n \<and> (extraction_status r \<in> {Pending, Extracting} \<longrightarrow> attempt_count r < n))"

fun queue_guard :: "nat \<Rightarrow> queue_event \<Rightarrow> bool" where
  "queue_guard n (Upsert_message now m) = (extraction_status m = Pending \<and> attempt_count m = 0)"
| "queue_guard n (Claim_row f) = (cf_max_retries f = n)"
| "queue_guard n (Finalize_row now k s e t) = (s = Done \<or> s = Failed)"
| "queue_guard n _ = True"

lemma row_step_budget:
  assumes "queue_ok q" "r \<in> set q" "queue_guard n e" "0 < n"
    "attempt_count r \<le> n" "extraction_status r \<in> {Pending, Extracting} \<longrightarrow> attempt_count r < n"
  shows "attempt_count (row_step e q r) \<le> n \<and>
    (extraction_status (row_step e q r) \<in> {Pending, Extracting} \<longrightarrow> attempt_count (row_step e q r) < n)"
proof (cases e)
  case (Claim_row f)
  show ?thesis
  proof (cases "message_key r \<in> set (claimed_by e q)")
    case True
    with claimed_idle [OF assms(1,2) True] Claim_row have "claimable f r" by auto
    with assms Claim_row True show ?thesis by (auto simp: claimable_def simp del: claimed_by.simps)
  qed (use assms Claim_row in \<open>auto simp del: claimed_by.simps\<close>)
next
  case (Finalize_row now k s err t)
  with assms show ?thesis by auto
qed (use assms in auto)

lemma budget_step: "budget_ok n q \<Longrightarrow> queue_guard n e \<Longrightarrow> budget_ok n (queue_step e q)"
proof -
  assume b: "budget_ok n q" and g: "queue_guard n e"
  then have ok: "queue_ok q" "0 < n" by (simp_all add: budget_ok_def)
  have "attempt_count r \<le> n \<and> (extraction_status r \<in> {Pending, Extracting} \<longrightarrow> attempt_count r < n)"
    if "r \<in> set (queue_step e q)" for r
  proof -
    from that queue_step_rows [OF ok(1), of e] consider r' where "r' \<in> set q" "r = row_step e q r'" | "r \<in> set (new_rows e q)"
      by auto
    then show ?thesis
    proof cases
      case 1
      with row_step_budget [OF ok(1) 1(1) g ok(2)] b show ?thesis by (simp add: budget_ok_def)
    next
      case 2
      with g ok(2) show ?thesis by (cases e) (auto split: if_splits)
    qed
  qed
  with ok queue_step_ok [OF ok(1), of e] show ?thesis by (simp add: budget_ok_def)
qed

interpretation queue_machine: invariant_machine queue_step "\<lambda>e q. queue_guard n e" "budget_ok n" for n
  by unfold_locales (rule budget_step)

lemma queue_admissible: "queue_machine.admissible n es q \<longleftrightarrow> list_all (queue_guard n) es"
  by (induction es arbitrary: q) simp_all

text \<open>A done row stays as it is until its channel is reset.\<close>

definition done_row :: "message_key \<Rightarrow> nat \<Rightarrow> queue \<Rightarrow> bool" where
  "done_row k n q \<longleftrightarrow> (\<exists>r \<in> set q. message_key r = k \<and> extraction_status r = Done \<and> attempt_count r = n)"

fun resets :: "message_key \<Rightarrow> queue_event \<Rightarrow> bool" where
  "resets k (Reset_channel now ch) = (fst (snd k) = ch)"
| "resets k _ = False"

lemma done_row_step:
  assumes "queue_ok q" "done_row k n q" "\<not> resets k e"
  shows "done_row k n (queue_step e q) \<and> k \<notin> set (claimed_by e q)"
proof -
  from assms(2) obtain r where r: "r \<in> set q" "message_key r = k" "extraction_status r = Done" "attempt_count r = n"
    by (auto simp: done_row_def)
  have k: "k \<notin> set (claimed_by e q)" using claimed_idle [OF assms(1) r(1), of e] r by auto
  have "extraction_status (row_step e q r) = Done \<and> attempt_count (row_step e q r) = n"
  proof (cases e)
    case (Finalize_row now k' s err t)
    with r show ?thesis by (cases s) auto
  next
    case (Reset_channel now ch)
    with r assms(3) show ?thesis by (auto simp: message_key_def)
  qed (use r k in \<open>auto simp del: claimed_by.simps\<close>)
  moreover have "row_step e q r \<in> set (queue_step e q)" using r(1) queue_step_rows [OF assms(1)] by simp
  ultimately show ?thesis using r(2) k row_step_key unfolding done_row_def by blast
qed

lemma done_row_run:
  "queue_ok q \<Longrightarrow> done_row k n q \<Longrightarrow> list_all (\<lambda>e. \<not> resets k e) es \<Longrightarrow>
     done_row k n (fold queue_step es q) \<and> k \<notin> set (claim_log es q)"
proof (induction es arbitrary: q)
  case (Cons e es)
  with done_row_step [of q k n e] queue_step_ok [of q e] Cons.IH [of "queue_step e q"] show ?case by simp
qed simp

section \<open>Properties\<close>

text \<open>A message as a sync writes it, and the query of a worker.\<close>

definition sample_message :: "string \<Rightarrow> string \<Rightarrow> seconds \<Rightarrow> ChannelMessage" where
  "sample_message ch m t = \<lparr>cm_source_id = ''slack'', cm_channel_id = ch, cm_message_id = m, cm_fields = [(''content'', JStr m)],
     extraction_status = Pending, attempt_count = 0, next_attempt_at = t, last_error = None, cm_created_at = t, cm_updated_at = t\<rparr>"

definition sample_filter :: "seconds \<Rightarrow> claim_filter" where
  "sample_filter now = \<lparr>cf_now = now, cf_settle_seconds = 2, cf_max_retries = 5, cf_channel = None, cf_purging = [''gone'']\<rparr>"

lemmas sample_defs = sample_message_def sample_filter_def

text \<open>
  Property C36. A claim takes exactly the rows that are due, earliest first: the loop of single
  find-and-update calls returns the first \<^verbatim>\<open>batch_size\<close> claimable rows in the order of their next
  attempt, marked as extracting, and changes no other row. For a channel that is being purged it
  takes nothing.
\<close>

theorem claim_takes_due_rows:
  assumes "queue_ok q"
  shows "claim_pending_messages_for_extraction batch_size f q =
    (let taken_rows = (if \<exists>c. cf_channel f = Some c \<and> c \<in> set (cf_purging f) then []
                       else take batch_size (sort_key next_attempt_at (filter (claimable f) q)))
     in (map (mark_extracting (cf_now f)) taken_rows,
         map (\<lambda>r. if r \<in> set taken_rows then mark_extracting (cf_now f) r else r) q))"
  using claim_loop_spec [OF assms, of batch_size f]
  by (auto simp: claim_pending_messages_for_extraction_def due_rows_def mark_rows_def Let_def split: option.split)

theorem claim_takes_due_rows_witness:
  "map cm_message_id (fst (claim_pending_messages_for_extraction 2 (sample_filter 20)
     [sample_message ''c'' ''late'' 9, sample_message ''gone'' ''x'' 1, sample_message ''c'' ''first'' 3, sample_message ''c'' ''next'' 5]))
   = [''first'', ''next'']"
  by (subst claim_takes_due_rows) (simp_all add: sample_defs message_key_def claimable_def channel_in_scope_def mark_extracting_def)

text \<open>
  Property C2. A row is with one worker at a time: in every interleaving of upserts, claims,
  finalisations, sweeps and resets, by any number of workers, a row that no event takes away from
  its worker (its failure, a sweep that finds its claim stale, a reset of its channel) is handed out
  at most once.
\<close>

theorem claims_exclusive:
  assumes "queue_ok q" "retained k es q"
  shows "count_list (claim_log es q) k \<le> 1"
  using assms by (rule claims_at_most_once)

definition two_workers :: "queue_event list" where
  "two_workers = [Upsert_message 0 (sample_message ''c'' ''m'' 0), Claim_row (sample_filter 10), Claim_row (sample_filter 11),
     Sweep_stale 20 600, Upsert_message 30 (sample_message ''c'' ''m'' 0), Claim_row (sample_filter 40),
     Finalize_row 50 (''slack'', ''c'', ''m'') Done None None, Claim_row (sample_filter 60)]"

lemma two_workers_log:
  "retained (''slack'', ''c'', ''m'') two_workers []" "claim_log two_workers [] = [(''slack'', ''c'', ''m'')]"
  by code_simp+

theorem claims_exclusive_witness:
  "count_list (claim_log two_workers []) (''slack'', ''c'', ''m'') \<le> 1 \<and> claim_log two_workers [] \<noteq> []"
  using claims_exclusive [of "[]" "(''slack'', ''c'', ''m'')" two_workers] two_workers_log by simp



text \<open>
  Work that is done is not done again: as long as its channel is not reset, a row in
  status done keeps its status and attempt count and is never handed to a worker, even when a
  repeated sync delivers the message again.
\<close>

theorem done_rows_final:
  assumes "queue_ok q" "done_row k n q" "list_all (\<lambda>e. \<not> resets k e) es"
  shows "done_row k n (fold queue_step es q) \<and> k \<notin> set (claim_log es q)"
  using assms by (rule done_row_run)

theorem done_rows_final_witness:
  "done_row (''slack'', ''c'', ''m'') 0 (fold queue_step two_workers [(sample_message ''c'' ''m'' 0)\<lparr>extraction_status := Done\<rparr>])"
  using done_rows_final [of "[(sample_message ''c'' ''m'' 0)\<lparr>extraction_status := Done\<rparr>]" "(''slack'', ''c'', ''m'')" 0 two_workers]
  by (simp add: done_row_def message_key_def two_workers_def sample_defs)

end
