(* ===== verification/Batch_Processor.thy ===== *)
theory Batch_Processor
  imports Adaptive_Batcher Extraction_Queue
begin

text \<open>
  The frame of \<^verbatim>\<open>services/batch_processor.py\<close>: how \<^verbatim>\<open>process_messages\<close> cuts a channel's messages into
  batches, runs them and assembles the result that the extraction worker reads. The run of a single
  batch (agents, model calls, retries, stores) is an argument that says how it ended. A batch that
  ends well on the agent path, under a worker job, marks its own rows done in the queue; the flag
  says whether that best-effort write went through. Batches finish in any order in the code and are
  sorted by number at the end; they are taken in the order of their numbers here.
\<close>

section \<open>Model\<close>

record NormalizedMessage =
  nm_content :: string
  nm_author :: string
  nm_platform :: string
  nm_channel_id :: string
  nm_channel_name :: string
  nm_message_id :: string
  nm_timestamp :: seconds
  nm_thread_id :: json
  nm_attachments :: "json list"
  nm_reactions :: "json list"
  nm_reply_count :: int
  nm_raw_metadata :: "(string, json) dict"
  nm_author_name :: string
  nm_author_image :: string
  nm_guild_id :: string

definition source_id_of :: "NormalizedMessage \<Rightarrow> string" where
  "source_id_of m = nm_platform m"

definition keys_for_batch :: "NormalizedMessage list \<Rightarrow> message_key list" where
  "keys_for_batch batch = map (\<lambda>m. (source_id_of m, nm_channel_id m, nm_message_id m)) batch"

fun thread_batches :: "('m \<Rightarrow> bool) \<Rightarrow> int \<Rightarrow> 'm list \<Rightarrow> 'm list \<Rightarrow> 'm list list" where
  "thread_batches is_reply batch_size current [] = (if current = [] then [] else [current])"
| "thread_batches is_reply batch_size current (msg # msgs) =
     (if \<not> is_reply msg \<and> int (length current) \<ge> batch_size
      then current # thread_batches is_reply batch_size [msg] msgs
      else thread_batches is_reply batch_size (current @ [msg]) msgs)"

definition thread_aware_batches :: "int \<Rightarrow> NormalizedMessage list \<Rightarrow> NormalizedMessage list list" where
  "thread_aware_batches batch_size messages = thread_batches (\<lambda>m. json_truthy (nm_thread_id m)) batch_size [] messages"

record BatchBreakdown =
  bd_batch_num :: nat
  bd_error :: "string option"
  bd_keys :: "message_key list"

record BatchResult =
  batch_breakdowns :: "BatchBreakdown list"
  batch_errors :: "string list"
  fact_ids :: "string list"

definition BatchResult_empty :: BatchResult where
  "BatchResult_empty = \<lparr>batch_breakdowns = [], batch_errors = [], fact_ids = []\<rparr>"

definition succeeded_keys :: "BatchResult \<Rightarrow> message_key list" where
  "succeeded_keys r = concat (map bd_keys (filter (\<lambda>b. bd_error b = None) (batch_breakdowns r)))"

definition failed_breakdowns :: "BatchResult \<Rightarrow> BatchBreakdown list" where
  "failed_breakdowns r = filter (\<lambda>b. bd_error b \<noteq> None) (batch_breakdowns r)"

definition failed_keys :: "BatchResult \<Rightarrow> message_key list" where
  "failed_keys r = concat (map bd_keys (failed_breakdowns r))"


text \<open>
  How a single batch ends: on the agent path with the ids of its facts, on the batch-API path with
  the breakdown's error field, or with an exception.
\<close>

datatype batch_run = Batch_done bool "string list" | Batch_api "string option" | Batch_raised string

definition add_batch ::
    "seconds \<Rightarrow> nat \<Rightarrow> NormalizedMessage list \<Rightarrow> batch_run \<Rightarrow> BatchResult \<times> queue \<Rightarrow> BatchResult \<times> queue" where
  "add_batch now idx batch outcome = (\<lambda>(result, q).
     (let keys = keys_for_batch batch;
          add = (\<lambda>err. result\<lparr>batch_breakdowns := batch_breakdowns result @ [\<lparr>bd_batch_num = idx, bd_error = err, bd_keys = keys\<rparr>],
                   batch_errors := batch_errors result @ (case err of Some e \<Rightarrow> if e = [] then [] else [e] | None \<Rightarrow> [])\<rparr>)
      in case outcome of
           Batch_done mirrored ids \<Rightarrow>
             ((add None)\<lparr>fact_ids := fact_ids result @ ids\<rparr>,
              if mirrored then snd (finalize_extraction_status_bulk now keys Done None None q) else q)
         | Batch_api err \<Rightarrow> (add err, q)
         | Batch_raised e \<Rightarrow>
             (result\<lparr>batch_breakdowns := batch_breakdowns result @ [\<lparr>bd_batch_num = idx, bd_error = Some e, bd_keys = keys\<rparr>],
                batch_errors := batch_errors result @ [e]\<rparr>, q)))"

fun run_batches ::
    "(nat \<Rightarrow> NormalizedMessage list \<Rightarrow> batch_run) \<Rightarrow> seconds \<Rightarrow> nat \<Rightarrow> NormalizedMessage list list \<Rightarrow> BatchResult \<times> queue \<Rightarrow> BatchResult \<times> queue" where
  "run_batches run now idx [] acc = acc"
| "run_batches run now idx (b # bs) acc = run_batches run now (Suc idx) bs (add_batch now idx b (run idx b) acc)"

datatype batch_outcome = Returned BatchResult | Raised string | Torn_down string

text \<open>
  \<open>start\<close> is the exception of the set-up before the first batch, when there is one.
\<close>

definition process_messages ::
    "(NormalizedMessage list \<Rightarrow> NormalizedMessage list list) \<Rightarrow> (nat \<Rightarrow> NormalizedMessage list \<Rightarrow> batch_run) \<Rightarrow>
     batch_outcome option \<Rightarrow> nat \<Rightarrow> seconds \<Rightarrow> NormalizedMessage list \<Rightarrow> queue \<Rightarrow> batch_outcome \<times> queue" where
  "process_messages batches run start offset now messages q =
     (case start of
        Some (Raised e) \<Rightarrow> (Raised e, q)
      | Some (Torn_down e) \<Rightarrow> (Torn_down e, q)
      | _ \<Rightarrow> apfst Returned (run_batches run now (offset + 1) (batches messages) (BatchResult_empty, q)))"

section \<open>Batchers\<close>

text \<open>What the processor relies on in a batcher: no message is lost and none is added.\<close>

locale batcher =
  fixes batches :: "'m list \<Rightarrow> 'm list list"
  assumes batches_keep: "mset (concat (batches ms)) = mset ms"
begin

lemma batches_set: "set (concat (batches ms)) = set ms"
  using arg_cong [OF batches_keep, of set_mset ms] by (simp only: set_mset_mset)

lemma batches_lose_nothing: "m \<in> set ms \<Longrightarrow> \<exists>b \<in> set (batches ms). m \<in> set b"
  using batches_set [of ms] by auto

end

lemma concat_thread_batches: "concat (thread_batches is_reply n current msgs) = current @ msgs"
  by (induction is_reply n current msgs rule: thread_batches.induct) auto

interpretation thread_batcher: batcher "thread_aware_batches batch_size" for batch_size
  by unfold_locales (simp add: thread_aware_batches_def concat_thread_batches)

interpretation token_batcher: batcher "token_aware_batches float_of iso_of L" for float_of iso_of L
  by unfold_locales (rule token_batches_mset)

section \<open>Rows only move forward\<close>

text \<open>What finishing batches may do to the queue: a row under extraction may become done or failed, nothing else changes.\<close>

definition finishes :: "ChannelMessage \<Rightarrow> ChannelMessage \<Rightarrow> bool" where
  "finishes r r' \<longleftrightarrow> r' = r \<or>
     message_key r' = message_key r \<and> extraction_status r = Extracting \<and> extraction_status r' \<in> {Done, Failed}"

definition advances :: "queue \<Rightarrow> queue \<Rightarrow> bool" where
  "advances q q' = list_all2 finishes q q'"

lemma finishes_trans: "finishes a b \<Longrightarrow> finishes b c \<Longrightarrow> finishes a c"
  by (auto simp: finishes_def)

lemma advances_refl [simp]: "advances q q"
  by (simp add: advances_def list.rel_refl finishes_def)

lemma advances_trans: "advances q q' \<Longrightarrow> advances q' q'' \<Longrightarrow> advances q q''"
  unfolding advances_def by (rule list_all2_trans [OF finishes_trans])

lemma advances_map: "(\<And>r. finishes r (g r)) \<Longrightarrow> advances q (map g q)"
  by (simp add: advances_def list_all2_map2 list.rel_refl)

lemma advances_row: "advances q q' \<Longrightarrow> r' \<in> set q' \<Longrightarrow> \<exists>r \<in> set q. finishes r r'"
  by (auto simp: advances_def list_all2_conv_all_nth in_set_conv_nth) (metis nth_mem)

lemma advances_keys: "advances q q' \<Longrightarrow> map message_key q' = map message_key q"
  by (auto simp: advances_def finishes_def list_all2_conv_all_nth intro!: nth_equalityI)

lemma finalize_one_advances: "s = Done \<or> s = Failed \<Longrightarrow> advances q (finalize_one now s e t k q)"
  unfolding finalize_one_def by (rule advances_map) (auto simp: finishes_def)

lemma finalize_bulk_fold:
  "s = Done \<or> s = Failed \<Longrightarrow> snd (finalize_extraction_status_bulk now keys s e t q) = fold (finalize_one now s e t) keys q"
proof -
  assume s: "s = Done \<or> s = Failed"
  have "snd (fold (\<lambda>key (n, q). (n + c key q, finalize_one now s e t key q)) keys (n, q)) = fold (finalize_one now s e t) keys q"
    for c and n :: nat
    by (induction keys arbitrary: n q) simp_all
  with s show ?thesis by (auto simp: finalize_extraction_status_bulk_def)
qed

lemma finalize_fold_advances: "s = Done \<or> s = Failed \<Longrightarrow> advances q (fold (finalize_one now s e t) keys q)"
proof (induction keys arbitrary: q)
  case (Cons k keys)
  from advances_trans [OF finalize_one_advances [OF Cons.prems] Cons.IH [OF Cons.prems]] show ?case by simp
qed simp

text \<open>Rows that are no longer under extraction.\<close>

definition finished :: "message_key set \<Rightarrow> queue \<Rightarrow> bool" where
  "finished K q \<longleftrightarrow> (\<forall>r \<in> set q. message_key r \<in> K \<longrightarrow> extraction_status r \<noteq> Extracting)"

lemma finished_advances: "finished K q \<Longrightarrow> advances q q' \<Longrightarrow> finished K q'"
  unfolding finished_def
proof (intro ballI impI)
  fix r'
  assume f: "\<forall>r \<in> set q. message_key r \<in> K \<longrightarrow> extraction_status r \<noteq> Extracting" and "advances q q'" "r' \<in> set q'" "message_key r' \<in> K"
  then obtain r where "r \<in> set q" "finishes r r'" using advances_row by blast
  with f \<open>message_key r' \<in> K\<close> show "extraction_status r' \<noteq> Extracting" by (auto simp: finishes_def)
qed

lemma finished_Un: "finished (K \<union> K') q \<longleftrightarrow> finished K q \<and> finished K' q"
  by (auto simp: finished_def)

lemma row_finalize_key: "message_key (if b then transition_row now s e t r else r) = message_key r"
  by simp

lemma finalize_one_finished: "s = Done \<or> s = Failed \<Longrightarrow> finished {k} (finalize_one now s e t k q)"
proof -
  assume s: "s = Done \<or> s = Failed"
  then have "set (allowed_from s) = {Extracting}" by auto
  then have "extraction_status (if message_key r = k \<and> extraction_status r \<in> set (allowed_from s)
      then transition_row now s e t r else r) \<noteq> Extracting" if "message_key r = k" for r
    using that s by (cases "extraction_status r = Extracting") auto
  then have "extraction_status r' \<noteq> Extracting" if "r' \<in> set (finalize_one now s e t k q)" "message_key r' = k" for r'
    using that unfolding finalize_one_def set_map by (elim imageE) (simp only: row_finalize_key not_False_eq_True)
  then show ?thesis by (simp add: finished_def)
qed

lemma finalize_fold_finished: "s = Done \<or> s = Failed \<Longrightarrow> finished (set keys) (fold (finalize_one now s e t) keys q)"
proof (induction keys arbitrary: q)
  case Nil
  show ?case by (simp add: finished_def)
next
  case (Cons k keys)
  have "finished {k} (fold (finalize_one now s e t) keys (finalize_one now s e t k q))"
    by (rule finished_advances [OF finalize_one_finished [OF Cons.prems] finalize_fold_advances [OF Cons.prems]])
  with Cons finished_Un [of "{k}" "set keys"] show ?case by simp
qed

section \<open>The processor\<close>

lemma add_batch_advances: "advances (snd acc) (snd (add_batch now idx batch outcome acc))"
  by (cases outcome; cases acc)
     (auto simp: add_batch_def Let_def finalize_bulk_fold intro: finalize_fold_advances)

lemma run_batches_advances: "advances (snd acc) (snd (run_batches run now idx bs acc))"
proof (induction bs arbitrary: idx acc)
  case (Cons b bs)
  from advances_trans [OF add_batch_advances Cons.IH] show ?case by simp
qed simp

lemma keys_split:
  "set (succeeded_keys r) \<union> set (failed_keys r) = (\<Union>b \<in> set (batch_breakdowns r). set (bd_keys b))"
  by (auto simp: succeeded_keys_def failed_keys_def failed_breakdowns_def) blast

lemma add_batch_keys:
  "(\<Union>b \<in> set (batch_breakdowns (fst (add_batch now idx batch outcome acc))). set (bd_keys b)) =
     (\<Union>b \<in> set (batch_breakdowns (fst acc)). set (bd_keys b)) \<union> set (keys_for_batch batch)"
  by (cases outcome; cases acc) (auto simp: add_batch_def Let_def)

lemma run_batches_keys:
  "(\<Union>b \<in> set (batch_breakdowns (fst (run_batches run now idx bs acc))). set (bd_keys b)) =
     (\<Union>b \<in> set (batch_breakdowns (fst acc)). set (bd_keys b)) \<union> set (keys_for_batch (concat bs))"
  by (induction bs arbitrary: idx acc) (auto simp: add_batch_keys keys_for_batch_def)

text \<open>
  What the extraction worker relies on: rows only move forward, and a result with errors accounts
  for every message.
\<close>

locale batch_processing =
  fixes process :: "string \<Rightarrow> seconds \<Rightarrow> NormalizedMessage list \<Rightarrow> queue \<Rightarrow> batch_outcome \<times> queue"
  assumes process_advances: "advances q (snd (process ch now ms q))"
    and process_covers: "fst (process ch now ms q) = Returned r \<Longrightarrow> batch_errors r \<noteq> [] \<Longrightarrow>
      set (keys_for_batch ms) \<subseteq> set (succeeded_keys r) \<union> set (failed_keys r)"

lemma process_messages_laws:
  assumes "\<And>ms. mset (concat (batches ms)) = mset (ms :: NormalizedMessage list)"
  shows "advances q (snd (process_messages batches run start offset now ms q))"
    and "fst (process_messages batches run start offset now ms q) = Returned r \<Longrightarrow>
      set (keys_for_batch ms) = set (succeeded_keys r) \<union> set (failed_keys r)"
proof -
  have "set (concat (batches ms)) = set ms" using arg_cong [OF assms, of set_mset ms] by (simp only: set_mset_mset)
  then have k: "set (keys_for_batch (concat (batches ms))) = set (keys_for_batch ms)" by (simp add: keys_for_batch_def)
  show "advances q (snd (process_messages batches run start offset now ms q))"
    using run_batches_advances [of "(BatchResult_empty, q)" run now "offset + 1" "batches ms"]
    by (simp add: process_messages_def split: option.split batch_outcome.split)
  assume "fst (process_messages batches run start offset now ms q) = Returned r"
  then have "r = fst (run_batches run now (offset + 1) (batches ms) (BatchResult_empty, q))"
    by (auto simp: process_messages_def split: option.splits batch_outcome.splits)
  with run_batches_keys [of run now "offset + 1" "batches ms" "(BatchResult_empty, q)"] k
  show "set (keys_for_batch ms) = set (succeeded_keys r) \<union> set (failed_keys r)"
    by (simp add: keys_split BatchResult_empty_def)
qed

text \<open>The processor with the thread-aware batcher, a run of each batch per channel, and what it does before them.\<close>

definition thread_processor ::
    "int \<Rightarrow> (string \<Rightarrow> nat \<Rightarrow> NormalizedMessage list \<Rightarrow> batch_run) \<Rightarrow> (string \<Rightarrow> batch_outcome option) \<Rightarrow> (string \<Rightarrow> nat) \<Rightarrow>
     string \<Rightarrow> seconds \<Rightarrow> NormalizedMessage list \<Rightarrow> queue \<Rightarrow> batch_outcome \<times> queue" where
  "thread_processor batch_size run start offset ch now ms q =
     process_messages (thread_aware_batches batch_size) (run ch) (start ch) (offset ch) now ms q"

interpretation thread_processing: batch_processing "thread_processor batch_size run start offset" for batch_size run start offset
proof unfold_locales
  show "advances q (snd (thread_processor batch_size run start offset ch now ms q))" for ch now ms q
    unfolding thread_processor_def by (rule process_messages_laws(1) [OF thread_batcher.batches_keep])
  show "set (keys_for_batch ms) \<subseteq> set (succeeded_keys r) \<union> set (failed_keys r)"
    if "fst (thread_processor batch_size run start offset ch now ms q) = Returned r" "batch_errors r \<noteq> []" for ch now ms q r
    using process_messages_laws(2) [OF thread_batcher.batches_keep] that(1) by (auto simp: thread_processor_def)
qed

end
