(* ===== verification/Extraction_Worker.thy ===== *)
theory Extraction_Worker
  imports Batch_Processor Pipeline_Events
begin

text \<open>
  The background worker of \<^verbatim>\<open>services/extraction_worker.py\<close> over the queue of
  \<^verbatim>\<open>Extraction_Queue\<close>: a tick claims rows, groups them by channel, runs the batch processor on each
  channel's messages and finalises the rows. The batch processor is an argument: it returns a
  result, raises an exception that the worker catches, or is torn down by one it does not catch
  (a cancellation), which leaves the channel's task. The channels of a tick run concurrently in the
  code; they own disjoint rows and are taken in the order of the dictionary here. Subscribers are
  started as tasks of their own, so an emission is recorded as an event. The refresh of the
  progress document after a tick is display only and left out.
\<close>

section \<open>Rows as messages\<close>

text \<open>
  Conversions of the language on values that are not strings: \<^verbatim>\<open>str(v)\<close>, \<^verbatim>\<open>fromisoformat\<close>, \<^verbatim>\<open>int\<close> of a
  float literal, and \<^verbatim>\<open>dict(v)\<close>; \<^const>\<open>None\<close> is an exception.
\<close>

record py_conversions =
  conv_str :: "json \<Rightarrow> string"
  conv_iso :: "string \<Rightarrow> seconds option"
  conv_trunc :: "string \<Rightarrow> int option"
  conv_dict :: "json \<Rightarrow> (string, json) dict option"

definition str_field :: "py_conversions \<Rightarrow> (string, json) dict \<Rightarrow> string \<Rightarrow> string" where
  "str_field cv d k =
     (let v = json_get d k in if json_truthy v then (case v of JStr s \<Rightarrow> s | _ \<Rightarrow> conv_str cv v) else [])"

fun list_of_json :: "json \<Rightarrow> json list option" where
  "list_of_json (JList xs) = Some xs"
| "list_of_json (JStr s) = Some (map (\<lambda>c. JStr [c]) s)"
| "list_of_json (JObj d) = Some (map (\<lambda>(k, _). JStr k) d)"
| "list_of_json _ = None"

fun int_of_json :: "py_conversions \<Rightarrow> json \<Rightarrow> int option" where
  "int_of_json cv (JInt n) = Some n"
| "int_of_json cv (JBool b) = Some (if b then 1 else 0)"
| "int_of_json cv (JStr s) = py_parse_int s"
| "int_of_json cv (JFloat t) = conv_trunc cv t"
| "int_of_json cv _ = None"

definition iso_with_offset :: "string \<Rightarrow> string" where
  "iso_with_offset s = concat (map (\<lambda>c. if c = CHR ''Z'' then ''+00:00'' else [c]) s)"

definition doc_timestamp :: "py_conversions \<Rightarrow> ChannelMessage \<Rightarrow> seconds option" where
  "doc_timestamp cv doc = (case json_get (cm_fields doc) ''timestamp'' of JStr s \<Rightarrow> conv_iso cv (iso_with_offset s) | _ \<Rightarrow> None)"

definition doc_to_normalized_message :: "py_conversions \<Rightarrow> ChannelMessage \<Rightarrow> NormalizedMessage option" where
  "doc_to_normalized_message cv doc =
     (let d = cm_fields doc; str = str_field cv d in
      case (doc_timestamp cv doc, list_of_json (json_or (json_get d ''attachments'') (JList [])),
            list_of_json (json_or (json_get d ''reactions'') (JList [])),
            int_of_json cv (json_or (json_get d ''reply_count'') (JInt 0)),
            conv_dict cv (json_or (json_get d ''raw_metadata'') (JObj [])))
      of (Some timestamp, Some attachments, Some reactions, Some reply_count, Some raw_metadata) \<Rightarrow>
           Some \<lparr>nm_content = str ''content'', nm_author = str ''author'',
             nm_platform = (if cm_source_id doc = [] then ''unknown'' else cm_source_id doc),
             nm_channel_id = cm_channel_id doc, nm_channel_name = str ''channel_name'', nm_message_id = cm_message_id doc,
             nm_timestamp = timestamp, nm_thread_id = json_get d ''thread_id'', nm_attachments = attachments,
             nm_reactions = reactions, nm_reply_count = reply_count, nm_raw_metadata = raw_metadata,
             nm_author_name = str ''author_name'', nm_author_image = str ''author_image'', nm_guild_id = str ''guild_id''\<rparr>
       | _ \<Rightarrow> None)"

section \<open>Backoff\<close>

definition RETRY_BACKOFF_SCHEDULE :: "int list" where
  "RETRY_BACKOFF_SCHEDULE = [5, 30, 90, 180, 360]"

definition MAX_RETRIES :: nat where
  "MAX_RETRIES = length RETRY_BACKOFF_SCHEDULE"

definition TICK_SECONDS :: int where
  "TICK_SECONDS = 10"

definition STALE_SECONDS :: int where
  "STALE_SECONDS = 600"

definition retry_backoff_seconds :: "int \<Rightarrow> int" where
  "retry_backoff_seconds n =
     (if n \<le> 0 then RETRY_BACKOFF_SCHEDULE ! 0
      else if n - 1 < int (length RETRY_BACKOFF_SCHEDULE) then RETRY_BACKOFF_SCHEDULE ! nat (n - 1)
      else last RETRY_BACKOFF_SCHEDULE)"

text \<open>\<^verbatim>\<open>d.setdefault(k, []).append(x)\<close>.\<close>

definition setdefault_append :: "'k \<Rightarrow> 'v \<Rightarrow> ('k, 'v list) dict \<Rightarrow> ('k, 'v list) dict" where
  "setdefault_append k x d = AList.update k ((case map_of d k of Some xs \<Rightarrow> xs | None \<Rightarrow> []) @ [x]) d"

definition by_offset :: "(message_key \<times> nat) list \<Rightarrow> (int, message_key list) dict" where
  "by_offset keys_with_attempts =
     fold (\<lambda>(key, attempts). setdefault_append (retry_backoff_seconds (int attempts + 1)) key) keys_with_attempts []"

definition finalize_failed :: "seconds \<Rightarrow> (message_key \<times> nat) list \<Rightarrow> string \<Rightarrow> queue \<Rightarrow> queue" where
  "finalize_failed now keys_with_attempts error q =
     fold (\<lambda>(offset, keys) q. snd (finalize_extraction_status_bulk now keys Failed (Some (take 500 error))
              (Some (now + of_int offset)) q)) (by_offset keys_with_attempts) q"

section \<open>One channel's batch\<close>

type_synonym batch_processor = "string \<Rightarrow> seconds \<Rightarrow> NormalizedMessage list \<Rightarrow> queue \<Rightarrow> batch_outcome \<times> queue"

text \<open>What a channel's task leaves: its tally and the facts it announces, or the exception that ended it.\<close>

datatype channel_result = Tally nat nat "string list option" | Crashed string

definition valid_docs :: "py_conversions \<Rightarrow> ChannelMessage list \<Rightarrow> ChannelMessage list" where
  "valid_docs cv docs = filter (\<lambda>d. doc_to_normalized_message cv d \<noteq> None) docs"

definition keys_with_attempts :: "ChannelMessage list \<Rightarrow> (message_key \<times> nat) list" where
  "keys_with_attempts docs = map (\<lambda>d. (message_key d, attempt_count d)) docs"

definition error_summary :: "string list \<Rightarrow> string" where
  "error_summary es = py_join ''; '' (map (take 100) (take 3 es))"

definition sub_batch_error :: "BatchResult \<Rightarrow> string" where
  "sub_batch_error r =
     (let errs = map (\<lambda>b. take 100 (the (bd_error b))) (failed_breakdowns r) in
      ''sub_batch_errors='' @ py_str_int (int (length (failed_keys r))) @ '': '' @
        (if errs \<noteq> [] then py_join ''; '' (take 3 errs) else ''unknown''))"

text \<open>A result with errors: rows are finalised by the sub-batch they were in, all as failed when none is named.\<close>

definition finalize_by_sub_batch ::
    "seconds \<Rightarrow> (message_key \<times> nat) list \<Rightarrow> BatchResult \<Rightarrow> queue \<Rightarrow> channel_result \<times> queue" where
  "finalize_by_sub_batch now attempts r q =
     (let ok = succeeded_keys r; bad = failed_keys r in
      if ok = [] \<and> bad = [] then
        (Tally 0 (length attempts) None,
         finalize_failed now attempts
           (''batch_errors='' @ py_str_int (int (length (batch_errors r))) @ '': '' @ error_summary (batch_errors r)) q)
      else
        let q1 = (if ok \<noteq> [] then snd (finalize_extraction_status_bulk now ok Done None None q) else q);
            bad_attempts = map (\<lambda>k. (k, case map_of (rev attempts) k of Some a \<Rightarrow> a | None \<Rightarrow> 0)) bad;
            q2 = (if bad \<noteq> [] then finalize_failed now bad_attempts (sub_batch_error r) q1 else q1)
        in (Tally (length ok) (length bad) (if ok \<noteq> [] then Some (fact_ids r) else None), q2))"

definition process_channel_batch ::
    "py_conversions \<Rightarrow> batch_processor \<Rightarrow> seconds \<Rightarrow> string \<Rightarrow> ChannelMessage list \<Rightarrow> queue \<Rightarrow> channel_result \<times> queue" where
  "process_channel_batch cv process now channel_id docs q =
     (let valid = valid_docs cv docs; keys = map message_key valid; attempts = keys_with_attempts valid in
      if valid = [] then (Tally 0 0 None, q)
      else case process channel_id now (map (the \<circ> doc_to_normalized_message cv) valid) q of (outcome, q) \<Rightarrow>
        (case outcome of
           Torn_down e \<Rightarrow> (Crashed e, q)
         | Raised e \<Rightarrow> (Tally 0 (length keys) None, finalize_failed now attempts e q)
         | Returned r \<Rightarrow>
             if batch_errors r \<noteq> [] then finalize_by_sub_batch now attempts r q
             else
               (case finalize_extraction_status_bulk now keys Done None None q of
                  (modified, q1) \<Rightarrow> (Tally modified 0 (Some (fact_ids r)), q1))))"

section \<open>The tick\<close>

record tick_counters =
  tc_claimed :: nat
  tc_succeeded :: nat
  tc_failed :: nat
  tc_channels :: nat

record worker_settings =
  sync_batch_size :: nat
  ingest_batch_concurrency :: nat
  settle_seconds :: seconds

definition by_channel :: "ChannelMessage list \<Rightarrow> (string, ChannelMessage list) dict" where
  "by_channel docs = fold (\<lambda>d. setdefault_append (cm_channel_id d) d) docs []"

definition tick_filter :: "worker_settings \<Rightarrow> seconds \<Rightarrow> string option \<Rightarrow> string list \<Rightarrow> claim_filter" where
  "tick_filter st now channel_id purging = \<lparr>cf_now = now, cf_settle_seconds = settle_seconds st,
     cf_max_retries = MAX_RETRIES, cf_channel = channel_id, cf_purging = purging\<rparr>"

fun process_channels ::
    "py_conversions \<Rightarrow> batch_processor \<Rightarrow> seconds \<Rightarrow> (string, ChannelMessage list) dict \<Rightarrow> queue \<Rightarrow> channel_result list \<times> queue" where
  "process_channels cv process now [] q = ([], q)"
| "process_channels cv process now ((ch, docs) # rest) q =
     (case process_channel_batch cv process now ch docs q of
        (r, q1) \<Rightarrow> apfst (Cons r) (process_channels cv process now rest q1))"

fun tally_results ::
    "seconds \<Rightarrow> ((string \<times> ChannelMessage list) \<times> channel_result) list \<Rightarrow> tick_counters \<Rightarrow> queue \<Rightarrow> tick_counters \<times> queue" where
  "tally_results now [] c q = (c, q)"
| "tally_results now (((ch, docs), Crashed e) # rest) c q =
     tally_results now rest (c\<lparr>tc_failed := tc_failed c + length docs\<rparr>)
       (finalize_failed now (keys_with_attempts docs) (''worker_task_crashed: '' @ e) q)"
| "tally_results now ((_, Tally ok fail _) # rest) c q =
     tally_results now rest (c\<lparr>tc_succeeded := tc_succeeded c + ok, tc_failed := tc_failed c + fail\<rparr>) q"

fun announced :: "((string \<times> ChannelMessage list) \<times> channel_result) list \<Rightarrow> (string \<times> string list) list" where
  "announced [] = []"
| "announced (((ch, _), Tally _ _ (Some fs)) # rest) = (ch, fs) # announced rest"
| "announced (_ # rest) = announced rest"

definition queue_drained :: "queue \<Rightarrow> string \<Rightarrow> bool" where
  "queue_drained q ch \<longleftrightarrow> count_status ch Pending q = 0 \<and> count_status ch Extracting q = 0"

record tick_result =
  tr_counters :: tick_counters
  tr_memory_changed :: "(string \<times> string list) list"
  tr_memory_settled :: "string list"
  tr_queue :: queue
  tr_events :: PipelineEventBuffer

definition record_claims :: "seconds \<Rightarrow> (string, ChannelMessage list) dict \<Rightarrow> PipelineEventBuffer \<Rightarrow> PipelineEventBuffer" where
  "record_claims now channels b =
     fold (\<lambda>(ch, docs). PipelineEventBuffer_record now ch ''fetch'' (''Claimed '' @ py_str_int (int (length docs)) @ '' pending rows'')
             None ''legacy'' None) channels b"

definition tick ::
    "py_conversions \<Rightarrow> batch_processor \<Rightarrow> worker_settings \<Rightarrow> seconds \<Rightarrow> seconds \<Rightarrow> string option \<Rightarrow> string list \<Rightarrow>
     queue \<Rightarrow> PipelineEventBuffer \<Rightarrow> tick_result" where
  "tick cv process st now done_at channel_id purging q events =
     (case claim_pending_messages_for_extraction (sync_batch_size st * ingest_batch_concurrency st)
             (tick_filter st now channel_id purging) q of
        (claimed, q1) \<Rightarrow>
          let counters = \<lparr>tc_claimed = length claimed, tc_succeeded = 0, tc_failed = 0, tc_channels = 0\<rparr> in
          if claimed = [] then
            \<lparr>tr_counters = counters, tr_memory_changed = [], tr_memory_settled = [], tr_queue = q1, tr_events = events\<rparr>
          else
            let channels = by_channel claimed;
                counters = counters\<lparr>tc_channels := length channels\<rparr>;
                (results, q2) = process_channels cv process done_at channels q1;
                (counters, q3) = tally_results done_at (zip channels results) counters q2
            in \<lparr>tr_counters = counters, tr_memory_changed = announced (zip channels results),
                tr_memory_settled = filter (queue_drained q3) (map fst channels), tr_queue = q3,
                tr_events = record_claims now channels events\<rparr>)"

section \<open>Worker state\<close>

record ExtractionWorker =
  tick_records :: "(seconds \<times> nat \<times> nat \<times> nat) list"
  tick_samples :: "(seconds \<times> nat \<times> nat) list"
  recent_failures :: "(string \<times> string \<times> string \<times> int) list"
  kick_event :: "bool option"
  kick_received_count :: nat

definition ExtractionWorker_init :: ExtractionWorker where
  "ExtractionWorker_init = \<lparr>tick_records = [], tick_samples = [], recent_failures = [], kick_event = None, kick_received_count = 0\<rparr>"

definition record_tick_metrics :: "seconds \<Rightarrow> tick_counters \<Rightarrow> ExtractionWorker \<Rightarrow> ExtractionWorker" where
  "record_tick_metrics now c w =
     (let records = tick_records w @ [(now, tc_claimed c, tc_succeeded c, tc_failed c)];
          samples = tick_samples w @ [(now, tc_succeeded c, tc_failed c)]
      in w\<lparr>tick_records := filter (\<lambda>r. fst r \<ge> now - 60 * 60) records,
           tick_samples := (if length samples > 60 then drop (length samples - 60) samples else samples)\<rparr>)"

definition tick_samples_for_eta :: "ExtractionWorker \<Rightarrow> (seconds \<times> int) list" where
  "tick_samples_for_eta w = map (\<lambda>(ts, succ, _). (ts, int succ)) (tick_samples w)"

definition record_failure :: "int \<Rightarrow> string \<Rightarrow> string \<Rightarrow> string \<Rightarrow> ExtractionWorker \<Rightarrow> ExtractionWorker" where
  "record_failure now message_id channel_id error_class w =
     (let fs = recent_failures w @ [(message_id, channel_id, error_class, now)]
      in w\<lparr>recent_failures := (if length fs > 10 then drop (length fs - 10) fs else fs)\<rparr>)"

definition kick :: "bool \<Rightarrow> ExtractionWorker \<Rightarrow> ExtractionWorker" where
  "kick loop_running w =
     (let w' = w\<lparr>kick_received_count := kick_received_count w + 1\<rparr>
      in if loop_running then w'\<lparr>kick_event := Some True\<rparr> else w')"

text \<open>Without a kick the wait ends by its timeout.\<close>

definition wait_for_kick :: "bool \<Rightarrow> ExtractionWorker \<Rightarrow> bool \<times> ExtractionWorker" where
  "wait_for_kick kicked_meanwhile w =
     (kick_event w = Some True \<or> kicked_meanwhile, w\<lparr>kick_event := Some False\<rparr>)"

definition claim_rate :: "seconds \<Rightarrow> seconds \<Rightarrow> ExtractionWorker \<Rightarrow> rat" where
  "claim_rate now window w =
     (if window > 0 then of_nat (sum_list (map (\<lambda>(_, c, _, _). c) (filter (\<lambda>r. fst r \<ge> now - window) (tick_records w)))) / window
      else 0)"

definition success_rate_5min :: "seconds \<Rightarrow> ExtractionWorker \<Rightarrow> rat" where
  "success_rate_5min now w =
     (let last_5min = filter (\<lambda>r. fst r \<ge> now - 5 * 60) (tick_records w);
          ok = sum_list (map (\<lambda>(_, _, s, _). s) last_5min); bad = sum_list (map (\<lambda>(_, _, _, f). f) last_5min)
      in if ok + bad \<noteq> 0 then of_nat ok / of_nat (ok + bad) else 1)"

definition sweep_stale :: "seconds \<Rightarrow> queue \<Rightarrow> nat \<times> queue" where
  "sweep_stale now q = sweep_stale_extracting now (of_int STALE_SECONDS) q"

section \<open>Finalising failures\<close>

definition dict_values :: "('k, 'v list) dict \<Rightarrow> 'v set" where
  "dict_values d = (\<Union>p \<in> set d. set (snd p))"

lemma dict_values_simps [simp]:
  "dict_values [] = {}" "dict_values ((k, xs) # d) = set xs \<union> dict_values d"
  by (auto simp: dict_values_def)

lemma setdefault_append_values: "dict_values (setdefault_append k x d) = insert x (dict_values d)"
  unfolding setdefault_append_def
proof (induction d)
  case (Cons p d)
  obtain k' xs where p: "p = (k', xs)" by (cases p)
  with Cons show ?case by (cases "k' = k") (simp_all add: Un_commute insert_commute)
qed simp

lemma by_offset_values: "dict_values (by_offset ka) = fst ` set ka"
proof -
  have "dict_values (fold (\<lambda>(key, a). setdefault_append (retry_backoff_seconds (int a + 1)) key) ka d)
      = fst ` set ka \<union> dict_values d" for d
    by (induction ka arbitrary: d) (simp_all add: case_prod_unfold setdefault_append_values)
  from this [of "[]"] show ?thesis by (simp add: by_offset_def)
qed

lemma finalize_groups:
  "advances q (fold (\<lambda>(offset, keys). fold (finalize_one now Failed e (Some (now + of_int offset))) keys) gs q) \<and>
   finished (dict_values gs)
     (fold (\<lambda>(offset, keys). fold (finalize_one now Failed e (Some (now + of_int offset))) keys) gs q)"
proof (induction gs arbitrary: q)
  case Nil
  show ?case by (simp add: finished_def)
next
  case (Cons g gs)
  obtain offset keys where g: "g = (offset, keys)" by (cases g)
  let ?q = "fold (finalize_one now Failed e (Some (now + of_int offset))) keys q"
  have "advances q ?q" "finished (set keys) ?q" using finalize_fold_advances finalize_fold_finished by auto
  with Cons.IH [of ?q] show ?case
    using advances_trans finished_advances by (auto simp: g finished_Un)
qed

lemma finalize_failed_fold:
  "finalize_failed now ka e q =
     fold (\<lambda>(offset, keys). fold (finalize_one now Failed (Some (take 500 e)) (Some (now + of_int offset))) keys) (by_offset ka) q"
  unfolding finalize_failed_def by (rule fold_cong) (auto simp: finalize_bulk_fold fun_eq_iff)

lemma finalize_failed_advances: "advances q (finalize_failed now ka e q)"
  and finalize_failed_finished: "finished (fst ` set ka) (finalize_failed now ka e q)"
  using finalize_groups [of q now "Some (take 500 e)" "by_offset ka"] by (simp_all add: finalize_failed_fold by_offset_values)

lemma keys_with_attempts_keys: "fst ` set (keys_with_attempts docs) = message_key ` set docs"
  by (force simp: keys_with_attempts_def)

section \<open>Ticks\<close>

lemma valid_message_key:
  assumes "d \<in> set (valid_docs cv docs)" "cm_source_id d \<noteq> []"
  shows "message_key d \<in> set (keys_for_batch (map (the \<circ> doc_to_normalized_message cv) (valid_docs cv docs)))"
proof -
  let ?m = "the (doc_to_normalized_message cv d)"
  from assms(1) have "doc_to_normalized_message cv d = Some ?m" by (auto simp: valid_docs_def)
  then have "nm_platform ?m = cm_source_id d" "nm_channel_id ?m = cm_channel_id d" "nm_message_id ?m = cm_message_id d"
    using assms(2) by (auto simp: doc_to_normalized_message_def Let_def split: option.splits)
  with assms(1) show ?thesis by (force simp: keys_for_batch_def source_id_of_def message_key_def)
qed

lemma finished_mono: "finished K q \<Longrightarrow> K' \<subseteq> K \<Longrightarrow> finished K' q"
  by (auto simp: finished_def)

lemma finalize_done_advances: "advances q (snd (finalize_extraction_status_bulk now ks Done e t q))"
  and finalize_done_finished: "finished (set ks) (snd (finalize_extraction_status_bulk now ks Done e t q))"
  by (simp_all add: finalize_bulk_fold finalize_fold_advances finalize_fold_finished)

lemma sub_batch_advances: "advances q (snd (finalize_by_sub_batch now ka r q))"
proof -
  have "advances q (finalize_failed now ka' e (snd (finalize_extraction_status_bulk now ks Done None None q)))" for ka' e ks
    by (rule advances_trans [OF finalize_done_advances finalize_failed_advances])
  then show ?thesis
    by (simp add: finalize_by_sub_batch_def Let_def finalize_failed_advances finalize_done_advances)
qed

lemma sub_batch_finished:
  assumes "fst ` set ka \<subseteq> set (succeeded_keys r) \<union> set (failed_keys r)"
  shows "finished (fst ` set ka) (snd (finalize_by_sub_batch now ka r q))"
proof (cases "succeeded_keys r = [] \<and> failed_keys r = []")
  case True
  then show ?thesis by (simp add: finalize_by_sub_batch_def Let_def finalize_failed_finished)
next
  case False
  let ?q1 = "if succeeded_keys r \<noteq> [] then snd (finalize_extraction_status_bulk now (succeeded_keys r) Done None None q) else q"
  let ?ba = "map (\<lambda>k. (k, case map_of (rev ka) k of Some a \<Rightarrow> a | None \<Rightarrow> 0)) (failed_keys r)"
  have 1: "finished (set (succeeded_keys r)) ?q1"
    using finalize_done_finished by (simp add: finished_def)
  have 2: "fst ` set ?ba = set (failed_keys r)" by (simp add: image_image)
  let ?q2 = "if failed_keys r \<noteq> [] then finalize_failed now ?ba (sub_batch_error r) ?q1 else ?q1"
  have "finished (set (succeeded_keys r)) ?q2"
    using 1 finished_advances [OF 1 finalize_failed_advances, of now ?ba "sub_batch_error r"] by presburger
  moreover have "finished (set (failed_keys r)) ?q2"
  proof (cases "failed_keys r = []")
    case False
    then show ?thesis using finalize_failed_finished [of ?ba now "sub_batch_error r" ?q1] unfolding 2 by simp
  qed (simp add: finished_def)
  ultimately have "finished (set (succeeded_keys r) \<union> set (failed_keys r)) ?q2" by (simp only: finished_Un)
  then have "finished (fst ` set ka) ?q2" by (rule finished_mono [OF _ assms])
  moreover have "snd (finalize_by_sub_batch now ka r q) = ?q2"
    using False by (simp add: finalize_by_sub_batch_def Let_def)
  ultimately show ?thesis by simp
qed

lemma by_channel_values: "dict_values (by_channel docs) = set docs"
proof -
  have "dict_values (fold (\<lambda>d. setdefault_append (cm_channel_id d) d) docs acc) = set docs \<union> dict_values acc" for acc
    by (induction docs arbitrary: acc) (simp_all add: setdefault_append_values)
  from this [of "[]"] show ?thesis by (simp add: by_channel_def)
qed

lemma tally_results_spec:
  "advances q (snd (tally_results now xs c q)) \<and>
   (\<forall>((ch, ds), res) \<in> set xs. (\<exists>e. res = Crashed e) \<longrightarrow> finished (message_key ` set ds) (snd (tally_results now xs c q)))"
proof (induction now xs c q rule: tally_results.induct)
  case (2 now ch docs e rest c q)
  let ?q = "finalize_failed now (keys_with_attempts docs) (''worker_task_crashed: '' @ e) q"
  have "finished (message_key ` set docs) ?q" "advances q ?q"
    using finalize_failed_finished [of "keys_with_attempts docs"] finalize_failed_advances by (simp_all add: keys_with_attempts_keys)
  with "2.IH" show ?case using advances_trans finished_advances by auto
qed auto

lemma by_channel_keys: "set (map fst (by_channel docs)) = cm_channel_id ` set docs"
proof -
  have "set (map fst (fold (\<lambda>d. setdefault_append (cm_channel_id d) d) docs acc)) = cm_channel_id ` set docs \<union> set (map fst acc)" for acc
  proof (induction docs arbitrary: acc)
    case (Cons d docs)
    have "set (map fst (setdefault_append (cm_channel_id d) d acc)) = insert (cm_channel_id d) (set (map fst acc))"
      unfolding setdefault_append_def by (rule dict_keys_update)
    with Cons show ?case by (simp del: set_map)
  qed simp
  from this [of "[]"] show ?thesis by (simp add: by_channel_def)
qed

lemma claimed_rows:
  assumes "queue_ok q" "claim_pending_messages_for_extraction n f q = (claimed, q1)"
  shows "queue_ok q1 \<and> (\<forall>d \<in> set claimed. d \<in> set q1 \<and> extraction_status d = Extracting \<and> (\<exists>r \<in> set q. cm_source_id d = cm_source_id r))"
proof -
  consider "claimed = []" "q1 = q" |
    "claimed = map (mark_extracting (cf_now f)) (take n (due_rows f q))" "q1 = mark_rows (cf_now f) (take n (due_rows f q)) q"
  proof -
    have "claim_pending_messages_for_extraction n f q = ([], q) \<or> claim_pending_messages_for_extraction n f q = claim_loop n f q"
      by (simp add: claim_pending_messages_for_extraction_def split: option.split)
    then show ?thesis using that assms(2) unfolding claim_loop_spec [OF assms(1)] by (metis prod.inject)
  qed
  then show ?thesis
  proof cases
    case 2
    let ?S = "take n (due_rows f q)"
    have sub: "set ?S \<subseteq> set q" using due_rows_set [of f q] by (auto dest: in_set_takeD)
    have "queue_ok q1" unfolding 2(2) mark_rows_keys by (rule assms(1))
    moreover have "mark_extracting (cf_now f) s \<in> set q1" if "s \<in> set ?S" for s
      using that sub unfolding 2(2) mark_rows_def set_map by (intro image_eqI [of _ _ s]) auto
    moreover have "cm_source_id (mark_extracting (cf_now f) s) = cm_source_id s" for s by (simp add: mark_extracting_def)
    ultimately show ?thesis unfolding 2(1) using sub by auto
  qed (use assms(1) in auto)
qed

context batch_processing
begin

lemma process_batch_advances: "advances q (snd (process_channel_batch cv process now ch docs q))"
proof -
  obtain o' q' where p: "process ch now (map (the \<circ> doc_to_normalized_message cv) (valid_docs cv docs)) q = (o', q')"
    by (metis surj_pair)
  with process_advances have adv: "advances q q'" by (metis snd_conv)
  note steps = finalize_failed_advances finalize_done_advances sub_batch_advances
  from steps [THEN advances_trans [OF adv]] adv show ?thesis
    by (simp add: process_channel_batch_def Let_def p case_prod_unfold split: batch_outcome.split)
qed

lemma process_batch_finished:
  assumes "\<forall>d \<in> set docs. cm_source_id d \<noteq> []"
  shows "(\<exists>e. fst (process_channel_batch cv process now ch docs q) = Crashed e) \<or>
    finished (message_key ` set (valid_docs cv docs)) (snd (process_channel_batch cv process now ch docs q))"
proof -
  let ?ms = "map (the \<circ> doc_to_normalized_message cv) (valid_docs cv docs)" and ?ka = "keys_with_attempts (valid_docs cv docs)"
  obtain o' q' where p: "process ch now ?ms q = (o', q')" by (metis surj_pair)
  have "message_key ` set (valid_docs cv docs) \<subseteq> set (keys_for_batch ?ms)"
    using valid_message_key assms by (auto simp: valid_docs_def)
  then have cover: "fst ` set ?ka \<subseteq> set (succeeded_keys r) \<union> set (failed_keys r)" if "o' = Returned r" "batch_errors r \<noteq> []" for r
    using process_covers [of ch now ?ms q r] p that by (auto simp: keys_with_attempts_keys)
  show ?thesis
    using finalize_failed_finished [of ?ka] sub_batch_finished [OF cover] finalize_done_finished [of "map message_key (valid_docs cv docs)"]
    by (auto simp: process_channel_batch_def Let_def p case_prod_unfold keys_with_attempts_keys finished_def split: batch_outcome.split)
qed

lemma process_channels_spec:
  assumes "\<forall>(ch, docs) \<in> set chs. \<forall>d \<in> set docs. cm_source_id d \<noteq> []"
  shows "length (fst (process_channels cv process now chs q)) = length chs \<and>
    advances q (snd (process_channels cv process now chs q)) \<and>
    (\<forall>((ch, docs), res) \<in> set (zip chs (fst (process_channels cv process now chs q))).
       (\<exists>e. res = Crashed e) \<or> finished (message_key ` set (valid_docs cv docs)) (snd (process_channels cv process now chs q)))"
  using assms
proof (induction chs arbitrary: q)
  case (Cons c chs)
  obtain ch docs where c: "c = (ch, docs)" by (cases c)
  let ?p = "process_channel_batch cv process now ch docs q"
  have IH: "length (fst (process_channels cv process now chs (snd ?p))) = length chs"
    "advances (snd ?p) (snd (process_channels cv process now chs (snd ?p)))"
    "\<forall>((ch, docs), res) \<in> set (zip chs (fst (process_channels cv process now chs (snd ?p)))).
       (\<exists>e. res = Crashed e) \<or> finished (message_key ` set (valid_docs cv docs)) (snd (process_channels cv process now chs (snd ?p)))"
    using Cons.IH [of "snd ?p"] Cons.prems by auto
  have "\<forall>d \<in> set docs. cm_source_id d \<noteq> []" using Cons.prems c by auto
  from process_batch_finished [OF this, of cv now ch q]
  have "(\<exists>e. fst ?p = Crashed e) \<or>
      finished (message_key ` set (valid_docs cv docs)) (snd (process_channels cv process now chs (snd ?p)))"
    using finished_advances [OF _ IH(2)] by blast
  with IH process_batch_advances [of q cv now ch docs] advances_trans show ?case
    by (auto simp: c case_prod_unfold)
qed simp

lemma tick_batch_finished:
  assumes "docs \<noteq> []" "\<forall>d \<in> set docs. cm_source_id d \<noteq> []"
    and results: "process_channels cv process now (by_channel docs) q = (rs, q2)"
    and tally: "tally_results now (zip (by_channel docs) rs) c q2 = (c', q3)"
  shows "advances q q3 \<and> finished (message_key ` set (valid_docs cv docs)) q3"
proof -
  have vals: "dict_values (by_channel docs) = set docs" by (rule by_channel_values)
  then have "\<forall>(ch, ds) \<in> set (by_channel docs). \<forall>d \<in> set ds. cm_source_id d \<noteq> []"
    using assms(2) by (fastforce simp: dict_values_def)
  from process_channels_spec [OF this, of cv now q] results
  have p: "length rs = length (by_channel docs)" "advances q q2"
    "\<forall>((ch, ds), res) \<in> set (zip (by_channel docs) rs). (\<exists>e. res = Crashed e) \<or> finished (message_key ` set (valid_docs cv ds)) q2"
    by auto
  from tally_results_spec [of q2 now "zip (by_channel docs) rs" c] tally
  have t: "advances q2 q3" "\<forall>((ch, ds), res) \<in> set (zip (by_channel docs) rs). (\<exists>e. res = Crashed e) \<longrightarrow> finished (message_key ` set ds) q3"
    by auto
  have "finished (message_key ` set (valid_docs cv docs)) q3"
    unfolding finished_def
  proof (intro ballI impI)
    fix r
    assume r: "r \<in> set q3" "message_key r \<in> message_key ` set (valid_docs cv docs)"
    then obtain d where d: "d \<in> set docs" "doc_to_normalized_message cv d \<noteq> None" "message_key d = message_key r"
      by (auto simp: valid_docs_def)
    from d(1) vals obtain ch ds where ds: "(ch, ds) \<in> set (by_channel docs)" "d \<in> set ds"
      by (auto simp flip: vals simp: dict_values_def)
    from ds(1) p(1) obtain res where res: "((ch, ds), res) \<in> set (zip (by_channel docs) rs)"
      by (metis in_set_impl_in_set_zip1)
    show "extraction_status r \<noteq> Extracting"
    proof (cases "\<exists>e. res = Crashed e")
      case True
      with t(2) res have "finished (message_key ` set ds) q3" by blast
      with r(1) ds(2) d(3) show ?thesis unfolding finished_def by (metis imageI)
    next
      case False
      with p(3) res have "finished (message_key ` set (valid_docs cv ds)) q2" by blast
      moreover have "message_key r \<in> message_key ` set (valid_docs cv ds)" 
        using ds(2) d(2) unfolding d(3) [symmetric] by (intro imageI) (simp add: valid_docs_def)
      ultimately show ?thesis using finished_advances [OF _ t(1)] r(1) unfolding finished_def by blast
    qed
  qed
  with p(2) t(1) show ?thesis using advances_trans by blast
qed

lemma tick_advances_claims:
  assumes "queue_ok q" "\<forall>r \<in> set q. cm_source_id r \<noteq> []"
    and claim: "claim_pending_messages_for_extraction (sync_batch_size st * ingest_batch_concurrency st)
      (tick_filter st now channel_id purging) q = (claimed, q1)"
  shows "advances q1 (tr_queue (tick cv process st now done_at channel_id purging q ev)) \<and>
    finished (message_key ` set (valid_docs cv claimed)) (tr_queue (tick cv process st now done_at channel_id purging q ev))"
proof (cases "claimed = []")
  case True
  then show ?thesis by (simp add: tick_def claim Let_def finished_def valid_docs_def)
next
  case False
  obtain rs q2 where r: "process_channels cv process done_at (by_channel claimed) q1 = (rs, q2)" by (metis surj_pair)
  obtain c q3 where t: "tally_results done_at (zip (by_channel claimed) rs)
      (\<lparr>tc_claimed = length claimed, tc_succeeded = 0, tc_failed = 0, tc_channels = length (by_channel claimed)\<rparr>) q2 = (c, q3)"
    by (metis surj_pair)
  have "\<forall>d \<in> set claimed. cm_source_id d \<noteq> []"
    using claimed_rows [OF assms(1) claim] assms(2) by auto
  from tick_batch_finished [OF False this r t] False show ?thesis
    by (simp add: tick_def claim Let_def r t)
qed

lemma tick_claims_done:
  assumes "queue_ok q" "\<forall>r \<in> set q. cm_source_id r \<noteq> []"
    and claim: "claim_pending_messages_for_extraction (sync_batch_size st * ingest_batch_concurrency st)
      (tick_filter st now channel_id purging) q = (claimed, q1)"
    and r: "r \<in> set (tr_queue (tick cv process st now done_at channel_id purging q ev))"
      "message_key r \<in> message_key ` set (valid_docs cv claimed)"
  shows "extraction_status r \<in> {Done, Failed}"
proof -
  note t = tick_advances_claims [OF assms(1-3), of cv done_at ev]
  from r(2) obtain d where d: "d \<in> set claimed" "message_key d = message_key r" by (auto simp: valid_docs_def)
  from advances_row [OF conjunct1 [OF t] r(1)] obtain r0 where r0: "r0 \<in> set q1" "finishes r0 r" by blast
  from claimed_rows [OF assms(1) claim] d(1) have q1: "queue_ok q1" "d \<in> set q1" "extraction_status d = Extracting" by auto
  from r0(2) d(2) have "message_key r0 = message_key d" by (auto simp: finishes_def)
  from key_unique [OF q1(1) r0(1) q1(2) this] q1(3) have "extraction_status r0 = Extracting" by simp
  moreover have "extraction_status r \<noteq> Extracting" using t r unfolding finished_def by blast
  ultimately show ?thesis using r0(2) by (auto simp: finishes_def)
qed

lemma tick_settles:
  assumes "queue_ok q" "\<forall>r \<in> set q. cm_source_id r \<noteq> []"
    and claim: "claim_pending_messages_for_extraction (sync_batch_size st * ingest_batch_concurrency st)
      (tick_filter st now channel_id purging) q = (claimed, q1)"
    and c: "\<exists>d \<in> set claimed. cm_channel_id d = c"
      "\<forall>r \<in> set q1. cm_channel_id r = c \<longrightarrow> extraction_status r \<in> {Done, Failed} \<or> r \<in> set (valid_docs cv claimed)"
  shows "c \<in> set (tr_memory_settled (tick cv process st now done_at channel_id purging q ev))"
proof -
  let ?t = "tick cv process st now done_at channel_id purging q ev"
  have "extraction_status r \<in> {Done, Failed}" if r: "r \<in> set (tr_queue ?t)" "cm_channel_id r = c" for r
  proof -
    from advances_row [OF _ r(1)] tick_advances_claims [OF assms(1-3)] obtain r0 where r0: "r0 \<in> set q1" "finishes r0 r" by blast
    then have "message_key r = message_key r0" by (auto simp: finishes_def)
    then have "cm_channel_id r0 = c" using r(2) by (simp add: message_key_def)
    with c(2) r0(1) consider "extraction_status r0 \<in> {Done, Failed}" | "r0 \<in> set (valid_docs cv claimed)" by blast
    then show ?thesis
    proof cases
      case 1
      with r0(2) show ?thesis by (auto simp: finishes_def)
    next
      case 2
      with tick_claims_done [OF assms(1-3) r(1)] \<open>message_key r = message_key r0\<close> show ?thesis by blast
    qed
  qed
  then have "queue_drained (tr_queue ?t) c" by (fastforce simp: queue_drained_def count_status_def filter_empty_conv)
  moreover from c(1) have "claimed \<noteq> []" "c \<in> set (map fst (by_channel claimed))" using by_channel_keys [of claimed] by auto
  ultimately show ?thesis by (auto simp: tick_def claim Let_def case_prod_unfold)
qed

end

section \<open>Backoff of each row\<close>

lemma setdefault_append_group:
  "(k', xs) \<in> set (setdefault_append k x d) \<Longrightarrow> y \<in> set xs \<Longrightarrow>
     k' = k \<and> y = x \<or> (\<exists>ys. (k', ys) \<in> set d \<and> y \<in> set ys)"
  unfolding setdefault_append_def
proof (induction d)
  case (Cons p d)
  obtain k0 xs0 where p: "p = (k0, xs0)" by (cases p)
  with Cons show ?case by (cases "k0 = k") auto
qed simp

lemma by_offset_group:
  "(offset, ks) \<in> set (by_offset ka) \<Longrightarrow> k \<in> set ks \<Longrightarrow> \<exists>a. (k, a) \<in> set ka \<and> offset = retry_backoff_seconds (int a + 1)"
proof -
  have "(offset, ks) \<in> set (fold (\<lambda>(key, a). setdefault_append (retry_backoff_seconds (int a + 1)) key) ka d) \<Longrightarrow> k \<in> set ks \<Longrightarrow>
      (\<exists>a. (k, a) \<in> set ka \<and> offset = retry_backoff_seconds (int a + 1)) \<or> (\<exists>ys. (offset, ys) \<in> set d \<and> k \<in> set ys)" for d
  proof (induction ka arbitrary: d)
    case (Cons p ka)
    obtain key a where p: "p = (key, a)" by (cases p)
    from Cons.IH [of "setdefault_append (retry_backoff_seconds (int a + 1)) key d"] Cons.prems p
    consider "\<exists>a. (k, a) \<in> set ka \<and> offset = retry_backoff_seconds (int a + 1)" |
      ys where "(offset, ys) \<in> set (setdefault_append (retry_backoff_seconds (int a + 1)) key d)" "k \<in> set ys" by auto
    then show ?case
    proof cases
      case 2
      from setdefault_append_group [OF this] p show ?thesis by auto
    qed auto
  qed auto
  from this [of "[]"] show "(offset, ks) \<in> set (by_offset ka) \<Longrightarrow> k \<in> set ks \<Longrightarrow> ?thesis" by (simp add: by_offset_def)
qed

text \<open>The failure of one row.\<close>

definition fail_row :: "seconds \<Rightarrow> string option \<Rightarrow> message_key list \<Rightarrow> int \<Rightarrow> ChannelMessage \<Rightarrow> ChannelMessage" where
  "fail_row now e keys offset r =
     (if message_key r \<in> set keys \<and> extraction_status r = Extracting
      then transition_row now Failed e (Some (now + of_int offset)) r else r)"

lemma finalize_fold_rows:
  "fold (finalize_one now Failed e (Some (now + of_int offset))) keys q = map (fail_row now e keys offset) q"
proof (induction keys arbitrary: q)
  case Nil
  show ?case by (simp add: fail_row_def)
next
  case (Cons k keys)
  have "fail_row now e keys offset (if message_key r = k \<and> extraction_status r \<in> set (allowed_from Failed)
      then transition_row now Failed e (Some (now + of_int offset)) r else r) = fail_row now e (k # keys) offset r" for r
    by (auto simp: fail_row_def)
  with Cons [of "finalize_one now Failed e (Some (now + of_int offset)) k q"] show ?case by (simp add: finalize_one_def)
qed

lemma fold_map_rows: "fold (\<lambda>g. map (h g)) gs q = map (fold h gs) q"
  by (induction gs arbitrary: q) (simp_all add: comp_def)

lemma fail_row_not_extracting: "extraction_status r \<noteq> Extracting \<Longrightarrow> fold (\<lambda>(o', ks). fail_row now e ks o') gs r = r"
  by (induction gs) (auto simp: fail_row_def)

lemma fold_fail_row:
  assumes "extraction_status r = Extracting" "\<forall>(o', ks) \<in> set gs. message_key r \<in> set ks \<longrightarrow> o' = offset"
  shows "fold (\<lambda>(o', ks). fail_row now e ks o') gs r =
    (if message_key r \<in> dict_values gs then transition_row now Failed e (Some (now + of_int offset)) r else r)"
  using assms
proof (induction gs)
  case (Cons g gs)
  obtain o' ks where g: "g = (o', ks)" by (cases g)
  show ?case
  proof (cases "message_key r \<in> set ks")
    case True
    with Cons.prems g have "fail_row now e ks o' r = transition_row now Failed e (Some (now + of_int offset)) r" by (simp add: fail_row_def)
    with True g show ?thesis by (simp add: fail_row_not_extracting)
  next
    case False
    with Cons g show ?thesis by (simp add: fail_row_def)
  qed
qed simp

lemma finalize_failed_rows:
  assumes "distinct (map fst ka)"
  shows "finalize_failed now ka e q =
    map (\<lambda>r. case map_of ka (message_key r) of
               Some a \<Rightarrow> if extraction_status r = Extracting
                         then transition_row now Failed (Some (take 500 e)) (Some (now + of_int (retry_backoff_seconds (int a + 1)))) r else r
             | None \<Rightarrow> r) q"
proof -
  let ?e = "Some (take 500 e)"
  have "finalize_failed now ka e q = map (fold (\<lambda>(o', ks). fail_row now ?e ks o') (by_offset ka)) q"
    unfolding finalize_failed_fold finalize_fold_rows by (subst fold_map_rows [symmetric]) (simp add: case_prod_unfold)
  also have "\<dots> = map (\<lambda>r. case map_of ka (message_key r) of
               Some a \<Rightarrow> if extraction_status r = Extracting
                         then transition_row now Failed ?e (Some (now + of_int (retry_backoff_seconds (int a + 1)))) r else r
             | None \<Rightarrow> r) q"
  proof (rule map_cong [OF refl])
    fix r
    show "fold (\<lambda>(o', ks). fail_row now ?e ks o') (by_offset ka) r = (case map_of ka (message_key r) of
        Some a \<Rightarrow> if extraction_status r = Extracting
                  then transition_row now Failed ?e (Some (now + of_int (retry_backoff_seconds (int a + 1)))) r else r
      | None \<Rightarrow> r)"
    proof (cases "extraction_status r = Extracting")
      case ext: True
      show ?thesis
      proof (cases "map_of ka (message_key r)")
        case None
        then have "message_key r \<notin> fst ` set ka" by (simp add: map_of_eq_None_iff)
        then have "message_key r \<notin> dict_values (by_offset ka)" by (simp add: by_offset_values)
        moreover from this have "\<forall>(o', ks) \<in> set (by_offset ka). message_key r \<in> set ks \<longrightarrow> o' = 0" by (auto simp: dict_values_def)
        ultimately show ?thesis using fold_fail_row [OF ext, of "by_offset ka" 0 now ?e] None by simp
      next
        case (Some a)
        have "a' = a" if "(message_key r, a') \<in> set ka" for a'
          using that Some assms by simp
        then have "\<forall>(o', ks) \<in> set (by_offset ka). message_key r \<in> set ks \<longrightarrow> o' = retry_backoff_seconds (int a + 1)"
          using by_offset_group by fastforce
        from fold_fail_row [OF ext this, of now ?e] Some show ?thesis
          by (simp add: by_offset_values ext) (metis map_of_SomeD fst_conv imageI)
      qed
    next
      case False
      then show ?thesis by (simp add: fail_row_not_extracting split: option.split)
    qed
  qed
  finally show ?thesis .
qed

section \<open>Rows that are not messages\<close>

lemma malformed_claim:
  assumes "claimable f r" "cf_channel f = None" "0 < n"
  shows "claim_pending_messages_for_extraction n f [r] = ([mark_extracting (cf_now f) r], [mark_extracting (cf_now f) r])"
proof -
  obtain m where n: "n = Suc m" using assms(3) by (cases n) auto
  have "due_rows f [r] = [r]" using assms(1) by (simp add: due_rows_def)
  with claim_loop_spec [of "[r]" n f] n assms(2) show ?thesis
    by (simp add: claim_pending_messages_for_extraction_def mark_rows_def)
qed

section \<open>Properties\<close>

text \<open>A worker for the examples: timestamps parse, and a batch of one channel ends as given.\<close>

definition plain_conversions :: py_conversions where
  "plain_conversions = \<lparr>conv_str = (\<lambda>_. []), conv_iso = (\<lambda>_. Some 0), conv_trunc = (\<lambda>_. None),
     conv_dict = (\<lambda>j. case j of JObj d \<Rightarrow> Some d | _ \<Rightarrow> None)\<rparr>"

definition sample_settings :: worker_settings where
  "sample_settings = \<lparr>sync_batch_size = 10, ingest_batch_concurrency = 2, settle_seconds = 2\<rparr>"

definition stamped :: "string \<Rightarrow> string \<Rightarrow> ChannelMessage" where
  "stamped ch m = (sample_message ch m 0)\<lparr>cm_fields := [(''timestamp'', JStr ''2026-01-01T00:00:00Z''), (''content'', JStr m)]\<rparr>"

definition sample_tick :: "(string \<Rightarrow> batch_run) \<Rightarrow> queue \<Rightarrow> tick_result" where
  "sample_tick outcome q = tick plain_conversions (thread_processor 10 (\<lambda>ch _ _. outcome ch) (\<lambda>_. None) (\<lambda>_. 0)) sample_settings
     10 70 None [] q PipelineEventBuffer_init"



text \<open>
  The settled event is not missed: when a tick claims from a channel and leaves nothing of
  it waiting (every other row is done or failed, every claimed row is well-formed), the tick emits
  \<^verbatim>\<open>memory_settled\<close> for that channel.
\<close>

theorem tick_announces_settled:
  assumes "queue_ok q" "\<forall>r \<in> set q. cm_source_id r \<noteq> []"
    and "claim_pending_messages_for_extraction (sync_batch_size st * ingest_batch_concurrency st)
      (tick_filter st now channel_id purging) q = (claimed, q1)"
    and "\<exists>d \<in> set claimed. cm_channel_id d = c"
    and "\<forall>r \<in> set q1. cm_channel_id r = c \<longrightarrow> extraction_status r \<in> {Done, Failed} \<or> r \<in> set (valid_docs cv claimed)"
  shows "c \<in> set (tr_memory_settled (tick cv (thread_processor batch_size run start offset) st now done_at channel_id purging q ev))"
  using assms by (rule thread_processing.tick_settles)

lemma sample_claim:
  "claim_pending_messages_for_extraction 20 (tick_filter sample_settings 10 None []) [stamped ''a'' ''m'']
     = ([mark_extracting 10 (stamped ''a'' ''m'')], [mark_extracting 10 (stamped ''a'' ''m'')])"
  by (subst malformed_claim) (simp_all add: claimable_def channel_in_scope_def tick_filter_def stamped_def sample_message_def sample_settings_def)

lemma sample_valid: "doc_to_normalized_message plain_conversions (mark_extracting 10 (stamped ''a'' ''m'')) \<noteq> None"
  by code_simp

theorem tick_announces_settled_witness: "''a'' \<in> set (tr_memory_settled (sample_tick (\<lambda>_. Batch_api (Some ''quota'')) [stamped ''a'' ''m'']))"
  unfolding sample_tick_def
proof (rule tick_announces_settled)
  show "claim_pending_messages_for_extraction (sync_batch_size sample_settings * ingest_batch_concurrency sample_settings)
      (tick_filter sample_settings 10 None []) [stamped ''a'' ''m'']
    = ([mark_extracting 10 (stamped ''a'' ''m'')], [mark_extracting 10 (stamped ''a'' ''m'')])"
    using sample_claim by (simp add: sample_settings_def)
  show "\<forall>r \<in> set [mark_extracting 10 (stamped ''a'' ''m'')]. cm_channel_id r = ''a'' \<longrightarrow>
      extraction_status r \<in> {Done, Failed} \<or> r \<in> set (valid_docs plain_conversions [mark_extracting 10 (stamped ''a'' ''m'')])"
    using sample_valid by (simp add: valid_docs_def)
qed (simp_all add: stamped_def sample_message_def)

text \<open>
  Failures are scheduled row by row: finalising failed rows in groups of equal delay has the
  effect of finalising each row by itself. A row under extraction becomes failed, with one attempt
  more and its next attempt after the delay of its own attempt count; other rows do not change.
\<close>

theorem failed_rows_backoff:
  assumes "distinct (map fst ka)"
  shows "finalize_failed now ka e q =
    map (\<lambda>r. case map_of ka (message_key r) of
               Some a \<Rightarrow> if extraction_status r = Extracting
                         then r\<lparr>extraction_status := Failed, cm_updated_at := now, last_error := Some (take 500 e),
                                next_attempt_at := now + of_int (retry_backoff_seconds (int a + 1)), attempt_count := attempt_count r + 1\<rparr>
                         else r
             | None \<Rightarrow> r) q"
  unfolding finalize_failed_rows [OF assms] transition_row_def by (simp split: option.split)

theorem failed_rows_backoff_witness:
  "map next_attempt_at (finalize_failed 100 [((''slack'', ''a'', ''m''), 0), ((''slack'', ''a'', ''n''), 3)] ''err''
     [mark_extracting 10 (stamped ''a'' ''m''), mark_extracting 10 (stamped ''a'' ''n'')]) = [105, 280]"
  by (subst failed_rows_backoff)
     (simp_all add: stamped_def sample_message_def message_key_def mark_extracting_def retry_backoff_seconds_def RETRY_BACKOFF_SCHEDULE_def)

text \<open>
  A row that does not convert to a message is never finished: each tick claims it, skips it
  and leaves it under extraction, its channel does not settle, and once the claim is stale the sweep
  makes it pending again with the same attempt count, ready for the next tick.
\<close>

theorem malformed_row_cycles:
  assumes "claimable (tick_filter st now None purging) r" "doc_to_normalized_message cv (mark_extracting now r) = None"
    "0 < sync_batch_size st * ingest_batch_concurrency st" "now + of_int STALE_SECONDS < later"
  shows "let t = tick cv process st now done_at None purging [r] ev in
    tr_memory_settled t = [] \<and> tc_claimed (tr_counters t) = 1 \<and> tc_succeeded (tr_counters t) = 0 \<and> tc_failed (tr_counters t) = 0 \<and>
    snd (sweep_stale later (tr_queue t)) = [r\<lparr>extraction_status := Pending, cm_updated_at := later, next_attempt_at := later\<rparr>]"
proof -
  have "claim_pending_messages_for_extraction (sync_batch_size st * ingest_batch_concurrency st) (tick_filter st now None purging) [r]
      = ([mark_extracting now r], [mark_extracting now r])"
    using malformed_claim [OF assms(1) _ assms(3)] by (simp add: tick_filter_def)
  moreover have "by_channel [mark_extracting now r] = [(cm_channel_id r, [mark_extracting now r])]"
    by (simp add: by_channel_def setdefault_append_def)
  moreover have "valid_docs cv [mark_extracting now r] = []" using assms(2) by (simp add: valid_docs_def)
  moreover have "now < later - of_int STALE_SECONDS" using assms(4) by simp
  ultimately show ?thesis
    by (simp add: tick_def Let_def process_channel_batch_def queue_drained_def count_status_def sweep_stale_def
        sweep_stale_extracting_def mark_extracting_def)
qed

theorem malformed_row_cycles_witness:
  "map extraction_status (tr_queue (tick plain_conversions (\<lambda>_ _ _ q. (Raised ''x'', q)) sample_settings 10 20 None []
     [sample_message ''a'' ''m'' 0] PipelineEventBuffer_init)) = [Extracting] \<and>
   tr_memory_settled (tick plain_conversions (\<lambda>_ _ _ q. (Raised ''x'', q)) sample_settings 10 20 None []
     [sample_message ''a'' ''m'' 0] PipelineEventBuffer_init) = []"
proof
  show "map extraction_status (tr_queue (tick plain_conversions (\<lambda>_ _ _ q. (Raised ''x'', q)) sample_settings 10 20 None []
     [sample_message ''a'' ''m'' 0] PipelineEventBuffer_init)) = [Extracting]" by code_simp
  have "doc_to_normalized_message plain_conversions (mark_extracting 10 (sample_message ''a'' ''m'' 0)) = None" by code_simp
  then show "tr_memory_settled (tick plain_conversions (\<lambda>_ _ _ q. (Raised ''x'', q)) sample_settings 10 20 None []
     [sample_message ''a'' ''m'' 0] PipelineEventBuffer_init) = []"
    using malformed_row_cycles [of sample_settings 10 "[]" "sample_message ''a'' ''m'' 0" plain_conversions 700
        "\<lambda>_ _ _ q. (Raised ''x'', q)" 20 PipelineEventBuffer_init]
    by (simp add: Let_def claimable_def channel_in_scope_def tick_filter_def sample_message_def sample_settings_def STALE_SECONDS_def)
qed

text \<open>
  A batch that marks its own rows done leaves nothing for the worker to count: the tick
  reports no success although its message is done, so the sample it contributes to the throughput
  estimate is an empty one.
\<close>

theorem mirrored_success_not_counted:
  "let t = sample_tick (\<lambda>_. Batch_done True [''fact'']) [stamped ''a'' ''m''] in
   map extraction_status (tr_queue t) = [Done] \<and> tc_claimed (tr_counters t) = 1 \<and>
   tc_succeeded (tr_counters t) = 0 \<and> tc_failed (tr_counters t) = 0 \<and>
   tick_samples_for_eta (record_tick_metrics 80 (tr_counters t) ExtractionWorker_init) = [(80, 0)]"
  by code_simp

end
