(* ===== verification/Channel_Purge.thy ===== *)
theory Channel_Purge
  imports Extraction_Worker
begin

text \<open>
  The hard purge of a channel: the durable lock of \<^verbatim>\<open>stores/mongodb_store.py\<close> (\<^verbatim>\<open>claim_purge\<close> and its
  readers), the ordered fan-out over the stores of \<^verbatim>\<open>services/channel_deletion.py\<close>, and the reaper of
  \<^verbatim>\<open>services/scheduler.py\<close> that runs unfinished purges again. A call on a store is an argument that
  returns a value or raises and may change the world either way; the lock documents are explicit.
\<close>

section \<open>The lock\<close>

record purge_lock =
  lock_started_at :: "seconds option"
  lock_owner :: "string option"

type_synonym purge_locks = "(string, purge_lock) dict"

definition PURGE_LOCK_STALE_AFTER_S :: seconds where
  "PURGE_LOCK_STALE_AFTER_S = 900"

definition claim_purge :: "seconds \<Rightarrow> seconds \<Rightarrow> string option \<Rightarrow> string \<Rightarrow> purge_locks \<Rightarrow> bool \<times> purge_locks" where
  "claim_purge now stale_after_s owner channel_id locks =
     (let fresh = (\<lambda>l. \<lparr>lock_started_at = Some now, lock_owner = (case owner of Some o' \<Rightarrow> Some o' | None \<Rightarrow> lock_owner l)\<rparr>) in
      case map_of locks channel_id of
        None \<Rightarrow> (True, AList.update channel_id (fresh \<lparr>lock_started_at = None, lock_owner = None\<rparr>) locks)
      | Some l \<Rightarrow>
          if (case lock_started_at l of None \<Rightarrow> True | Some t \<Rightarrow> t < now - stale_after_s)
          then (True, AList.update channel_id (fresh l) locks)
          else (False, locks))"

definition release_purge :: "string \<Rightarrow> purge_locks \<Rightarrow> purge_locks" where
  "release_purge channel_id locks = AList.delete channel_id locks"

definition lock_fresh :: "seconds \<Rightarrow> seconds \<Rightarrow> purge_lock \<Rightarrow> bool" where
  "lock_fresh now stale_after_s l = (case lock_started_at l of Some t \<Rightarrow> t \<ge> now - stale_after_s | None \<Rightarrow> False)"

definition is_purging :: "seconds \<Rightarrow> seconds \<Rightarrow> string \<Rightarrow> purge_locks \<Rightarrow> bool" where
  "is_purging now stale_after_s channel_id locks =
     (case map_of locks channel_id of Some l \<Rightarrow> lock_fresh now stale_after_s l | None \<Rightarrow> False)"

definition get_purging_channel_ids :: "seconds \<Rightarrow> seconds \<Rightarrow> purge_locks \<Rightarrow> string list" where
  "get_purging_channel_ids now stale_after_s locks =
     map fst (filter (\<lambda>(ch, l). lock_fresh now stale_after_s l \<and> ch \<noteq> []) locks)"

definition list_stale_purge_locks :: "seconds \<Rightarrow> seconds \<Rightarrow> purge_locks \<Rightarrow> string list" where
  "list_stale_purge_locks now older_than_s locks =
     map fst (filter (\<lambda>(ch, l). (case lock_started_at l of Some t \<Rightarrow> t < now - older_than_s | None \<Rightarrow> False) \<and> ch \<noteq> []) locks)"

section \<open>The fan-out\<close>

text \<open>A call: the value or the message of the exception, and the world after it.\<close>

type_synonym ('w, 'a) call = "'w \<Rightarrow> (string + 'a) \<times> 'w"

record 'w purge_calls =
  cancel_sync :: "string \<Rightarrow> ('w, bool) call"
  cancel_consolidation_call :: "string \<Rightarrow> ('w, bool) call"
  list_connections :: "('w, (string \<times> string list) list) call"
  update_connection :: "string \<Rightarrow> string list \<Rightarrow> ('w, unit) call"
  delete_policy :: "string \<Rightarrow> ('w, bool) call"
  deregister_jobs :: "string \<Rightarrow> ('w, unit) call"
  graph_delete_channel_data :: "string \<Rightarrow> ('w, (string, int) dict) call"
  graph_delete_channel_wiki :: "string \<Rightarrow> ('w, int) call"
  weaviate_delete :: "string \<Rightarrow> ('w, int) call"
  qa_history_delete :: "string \<Rightarrow> ('w, int) call"
  wiki_pages_delete :: "string \<Rightarrow> ('w, int) call"
  wiki_cache_delete :: "string \<Rightarrow> ('w, int) call"
  chat_history_delete :: "string \<Rightarrow> ('w, int) call"
  mongodb_purge :: "string \<Rightarrow> ('w, (string, int) dict) call"
  media_delete :: "(string \<Rightarrow> ('w, (string, int) dict) call) option"
  purge_audit :: "string \<Rightarrow> (string, int) dict \<Rightarrow> (string, string) dict \<Rightarrow> string list \<Rightarrow> ('w, unit) call"
  release_fails :: "'w \<Rightarrow> string option"

record 'w fanout =
  fo_counts :: "(string, int) dict"
  fo_errors :: "(string, string) dict"
  fo_unlinked_from :: "string list"
  fo_sync_cancelled :: bool
  fo_world :: 'w

definition add_count :: "string \<Rightarrow> int \<Rightarrow> 'w fanout \<Rightarrow> 'w fanout" where
  "add_count k n fo = fo\<lparr>fo_counts := AList.update k n (fo_counts fo)\<rparr>"

definition get_count :: "(string, int) dict \<Rightarrow> string \<Rightarrow> int" where
  "get_count d k = (case map_of d k of Some n \<Rightarrow> n | None \<Rightarrow> 0)"

text \<open>One stage in its own \<^verbatim>\<open>try\<close>: an exception is recorded under the name of the stage.\<close>

definition stage :: "string \<Rightarrow> ('w, 'a) call \<Rightarrow> ('a \<Rightarrow> 'w fanout \<Rightarrow> 'w fanout) \<Rightarrow> 'w fanout \<Rightarrow> 'w fanout" where
  "stage name c record_result fo =
     (case c (fo_world fo) of
        (Inl e, w) \<Rightarrow> fo\<lparr>fo_world := w, fo_errors := AList.update name e (fo_errors fo)\<rparr>
      | (Inr v, w) \<Rightarrow> record_result v (fo\<lparr>fo_world := w\<rparr>))"

fun update_all :: "'w purge_calls \<Rightarrow> string \<Rightarrow> (string \<times> string list) list \<Rightarrow> string option \<Rightarrow> 'w \<Rightarrow> string option \<times> 'w" where
  "update_all calls channel_id [] err w = (err, w)"
| "update_all calls channel_id ((conn, selected) # rest) err w =
     (case update_connection calls conn (filter (\<lambda>c. c \<noteq> channel_id) selected) w of
        (Inl e, w') \<Rightarrow> update_all calls channel_id rest (case err of Some e0 \<Rightarrow> Some e0 | None \<Rightarrow> Some e) w'
      | (Inr _, w') \<Rightarrow> update_all calls channel_id rest err w')"

definition unlink_connections :: "'w purge_calls \<Rightarrow> string \<Rightarrow> ('w, string list) call" where
  "unlink_connections calls channel_id w =
     (case list_connections calls w of
        (Inl e, w') \<Rightarrow> (Inl e, w')
      | (Inr connections, w') \<Rightarrow>
          let to_unlink = filter (\<lambda>(_, selected). channel_id \<in> set selected) connections in
          (case update_all calls channel_id to_unlink None w' of
             (Some e, w'') \<Rightarrow> (Inl e, w'')
           | (None, w'') \<Rightarrow> (Inr (map fst to_unlink), w'')))"

definition merge_mongo_counts :: "(string, int) dict \<Rightarrow> 'w fanout \<Rightarrow> 'w fanout" where
  "merge_mongo_counts d fo =
     (let fo' = fold (\<lambda>(k, v). add_count k v) d fo in
      if get_count (fo_counts fo') ''imported_messages_error'' \<noteq> 0
      then fo'\<lparr>fo_errors := AList.update ''imported_messages'' ''legacy delete failed'' (fo_errors fo')\<rparr> else fo')"

definition purge_stages :: "'w purge_calls \<Rightarrow> string \<Rightarrow> ('w fanout \<Rightarrow> 'w fanout) list" where
  "purge_stages calls ch =
    [stage ''cancel_sync'' (cancel_sync calls ch) (\<lambda>b fo. fo\<lparr>fo_sync_cancelled := b\<rparr>),
     stage ''cancel_consolidation'' (cancel_consolidation_call calls ch) (\<lambda>_ fo. fo),
     stage ''unlink_connections'' (unlink_connections calls ch) (\<lambda>ids fo. fo\<lparr>fo_unlinked_from := fo_unlinked_from fo @ ids\<rparr>),
     stage ''delete_channel_policy'' (delete_policy calls ch) (\<lambda>_. add_count ''channel_policy_deleted'' 1),
     stage ''deregister_channel_jobs'' (deregister_jobs calls ch) (\<lambda>_ fo. fo),
     stage ''delete_channel_data'' (graph_delete_channel_data calls ch)
       (\<lambda>d fo. fold (\<lambda>k. add_count k (get_count d k)) [''events_deleted'', ''media_deleted'', ''entities_deleted''] fo),
     stage ''delete_channel_wiki_graph'' (graph_delete_channel_wiki calls ch) (add_count ''wiki_graph_deleted''),
     stage ''weaviate_delete_by_channel'' (weaviate_delete calls ch) (add_count ''weaviate_deleted''),
     stage ''qa_history_delete_by_channel'' (qa_history_delete calls ch) (add_count ''qa_history_deleted''),
     stage ''delete_all_for_channel_all_langs'' (wiki_pages_delete calls ch) (add_count ''wiki_pages_deleted''),
     stage ''wiki_cache_delete_all_for_channel'' (wiki_cache_delete calls ch) (add_count ''wiki_cache_deleted''),
     stage ''chat_history_delete_by_channel'' (chat_history_delete calls ch) (add_count ''chat_history_deleted''),
     stage ''mongodb_purge_channel'' (mongodb_purge calls ch) merge_mongo_counts,
     (case media_delete calls of
        None \<Rightarrow> (\<lambda>fo. fo)
      | Some c \<Rightarrow> stage ''media_blob_store_delete_by_channel'' (c ch)
          (\<lambda>d fo. add_count ''channel_media_refs'' (get_count d ''refs_deleted'')
                    (add_count ''channel_media_blobs'' (get_count d ''blobs_deleted'') fo)))]"

definition purge_fanout :: "'w purge_calls \<Rightarrow> string \<Rightarrow> 'w \<Rightarrow> 'w fanout" where
  "purge_fanout calls ch w = fold (\<lambda>s fo. s fo) (purge_stages calls ch)
     \<lparr>fo_counts = [], fo_errors = [], fo_unlinked_from = [], fo_sync_cancelled = False, fo_world = w\<rparr>"

section \<open>The purge and the reaper\<close>

datatype purge_status = Purge_completed | Purge_partial | Purge_already_in_progress

definition purge_channel ::
    "'w purge_calls \<Rightarrow> seconds \<Rightarrow> string \<Rightarrow> string \<Rightarrow> purge_locks \<times> 'w \<Rightarrow> purge_status \<times> purge_locks \<times> 'w" where
  "purge_channel calls now principal_id channel_id = (\<lambda>(locks, w).
     case claim_purge now PURGE_LOCK_STALE_AFTER_S (Some principal_id) channel_id locks of
       (False, locks') \<Rightarrow> (Purge_already_in_progress, locks', w)
     | (True, locks') \<Rightarrow>
         let f = purge_fanout calls channel_id w;
             fo = stage ''audit'' (purge_audit calls channel_id (fo_counts f) (fo_errors f) (fo_unlinked_from f)) (\<lambda>_ fo. fo) f
         in if fo_errors fo \<noteq> [] then (Purge_partial, locks', fo_world fo)
            else case release_fails calls (fo_world fo) of
                   Some e \<Rightarrow> (Purge_partial, locks', fo_world fo)
                 | None \<Rightarrow> (Purge_completed, release_purge channel_id locks', fo_world fo))"

definition purge_reaper_tick :: "'w purge_calls \<Rightarrow> seconds \<Rightarrow> seconds \<Rightarrow> purge_locks \<times> 'w \<Rightarrow> purge_locks \<times> 'w" where
  "purge_reaper_tick calls now threshold_s s =
     fold (\<lambda>channel_id s. snd (purge_channel calls now ''reaper'' channel_id s)) (list_stale_purge_locks now threshold_s (fst s)) s"

text \<open>The reset subset: graph, vectors and sync state, then the flip of the messages.\<close>

definition reset_fanout ::
    "'w purge_calls \<Rightarrow> (string \<Rightarrow> ('w, unit) call) \<Rightarrow> seconds \<Rightarrow> string \<Rightarrow> 'w \<Rightarrow> queue \<Rightarrow> (string, int) dict \<times> string list \<times> 'w \<times> queue" where
  "reset_fanout calls clear_sync_state now ch w q =
     (let run = (\<lambda>msg c record_result (results, errors, w).
            case c w of
              (Inl (e :: string), w') \<Rightarrow> (results, errors @ [msg], w')
            | (Inr v, w') \<Rightarrow> (record_result v results, errors, w'));
          s1 = run ''delete_channel_data failed'' (graph_delete_channel_data calls ch)
                 (\<lambda>d res. fold (\<lambda>k. AList.update k (get_count d k)) [''events_deleted'', ''media_deleted'', ''entities_deleted''] res) ([], [], w);
          s2 = run ''weaviate.delete_by_channel failed'' (\<lambda>w. map_prod (map_sum id (\<lambda>n. [(''n'', n)])) id (weaviate_delete calls ch w))
                 (\<lambda>d res. AList.update ''weaviate_deleted'' (get_count d ''n'') res) s1;
          s3 = run ''clear_channel_sync_state failed'' (\<lambda>w. map_prod (map_sum id (\<lambda>_. [])) id (clear_sync_state ch w))
                 (\<lambda>_ res. AList.update ''sync_state_cleared'' 1 res) s2
      in case s3 of (results, errors, w') \<Rightarrow>
           (AList.update ''messages_marked_pending'' (int (length (filter (\<lambda>r. cm_channel_id r = ch) q))) results,
            errors, w', reset_extraction_status now ch q))"

section \<open>Exclusion\<close>

datatype lock_event = Claim_purge seconds "string option" string | Release_purge string

fun lock_step :: "lock_event \<Rightarrow> purge_locks \<Rightarrow> purge_locks" where
  "lock_step (Claim_purge now owner ch) locks = snd (claim_purge now PURGE_LOCK_STALE_AFTER_S owner ch locks)"
| "lock_step (Release_purge ch) locks = release_purge ch locks"

text \<open>The times at which a claim of the channel's lock is won.\<close>

fun purge_wins :: "string \<Rightarrow> lock_event list \<Rightarrow> purge_locks \<Rightarrow> seconds list" where
  "purge_wins ch [] locks = []"
| "purge_wins ch (e # es) locks =
     (case e of
        Claim_purge now owner c \<Rightarrow>
          if c = ch \<and> fst (claim_purge now PURGE_LOCK_STALE_AFTER_S owner c locks) then [now] else []
      | Release_purge c \<Rightarrow> []) @ purge_wins ch es (lock_step e locks)"

definition started :: "purge_locks \<Rightarrow> string \<Rightarrow> seconds option" where
  "started locks ch = (case map_of locks ch of None \<Rightarrow> None | Some l \<Rightarrow> lock_started_at l)"

lemma claim_purge_spec:
  "fst (claim_purge now stale owner ch locks) \<longleftrightarrow> (case started locks ch of None \<Rightarrow> True | Some t \<Rightarrow> t < now - stale)"
  "started (snd (claim_purge now stale owner ch locks)) =
     (if fst (claim_purge now stale owner ch locks) then (started locks)(ch \<mapsto> now) else started locks)"
  by (auto simp: claim_purge_def started_def Let_def fun_eq_iff split: option.splits)

lemma claim_purge_other: "c \<noteq> ch \<Longrightarrow> map_of (snd (claim_purge now stale owner c locks)) ch = map_of locks ch"
  by (simp add: claim_purge_def Let_def split: option.split)

lemma wins_after: "started locks ch = Some t \<Longrightarrow> list_all (\<lambda>e. e \<noteq> Release_purge ch) es \<Longrightarrow>
  \<forall>b \<in> set (purge_wins ch es locks). t + PURGE_LOCK_STALE_AFTER_S < b"
proof (induction es arbitrary: locks t)
  case (Cons e es)
  show ?case
  proof (cases e)
    case (Release_purge c)
    then have "c \<noteq> ch" using Cons.prems(2) by auto
    then have "started (lock_step e locks) ch = Some t" using Cons.prems(1) Release_purge by (simp add: started_def release_purge_def)
    with Cons.IH Cons.prems Release_purge show ?thesis by simp
  next
    case (Claim_purge now owner c)
    let ?cl = "claim_purge now PURGE_LOCK_STALE_AFTER_S owner c locks"
    show ?thesis
    proof (cases "c = ch \<and> fst ?cl")
      case True
      have "t < now - PURGE_LOCK_STALE_AFTER_S" using claim_purge_spec(1) Cons.prems(1) True by (metis option.simps(5))
      then have now: "t + PURGE_LOCK_STALE_AFTER_S < now" by simp
      have "started (lock_step e locks) ch = Some now" using Claim_purge True by (auto simp: claim_purge_spec(2))
      from Cons.IH [OF this] Cons.prems(2) have "\<forall>b \<in> set (purge_wins ch es (lock_step e locks)). now + PURGE_LOCK_STALE_AFTER_S < b" by simp
      moreover have "0 < PURGE_LOCK_STALE_AFTER_S" by (simp add: PURGE_LOCK_STALE_AFTER_S_def)
      ultimately have "t + PURGE_LOCK_STALE_AFTER_S < b" if "b \<in> set (purge_wins ch es (lock_step e locks))" for b
        using now that by fastforce
      with now show ?thesis using Claim_purge True by auto
    next
      case False
      then have "started (lock_step e locks) ch = Some t" using Cons.prems(1) Claim_purge by (auto simp: claim_purge_spec(2))
      with Cons.IH Cons.prems Claim_purge False show ?thesis by auto
    qed
  qed
qed simp

lemma wins_spaced: "list_all (\<lambda>e. e \<noteq> Release_purge ch) es \<Longrightarrow>
  sorted_wrt (\<lambda>a b. a + PURGE_LOCK_STALE_AFTER_S < b) (purge_wins ch es locks)"
proof (induction es arbitrary: locks)
  case (Cons e es)
  have IH: "sorted_wrt (\<lambda>a b. a + PURGE_LOCK_STALE_AFTER_S < b) (purge_wins ch es (lock_step e locks))"
    using Cons by simp
  show ?case
  proof (cases e)
    case (Claim_purge now owner c)
    show ?thesis
    proof (cases "c = ch \<and> fst (claim_purge now PURGE_LOCK_STALE_AFTER_S owner c locks)")
      case True
      then have "started (lock_step e locks) ch = Some now" using Claim_purge by (auto simp: claim_purge_spec(2))
      from wins_after [OF this, of es] Cons.prems IH show ?thesis using Claim_purge True by simp
    qed (use IH Claim_purge in auto)
  qed (use IH in simp)
qed simp

section \<open>Stages\<close>

text \<open>The effects of the stages' calls, in order.\<close>

definition purge_effects :: "'w purge_calls \<Rightarrow> string \<Rightarrow> ('w \<Rightarrow> 'w) list" where
  "purge_effects calls ch =
    [snd \<circ> cancel_sync calls ch, snd \<circ> cancel_consolidation_call calls ch, snd \<circ> unlink_connections calls ch,
     snd \<circ> delete_policy calls ch, snd \<circ> deregister_jobs calls ch, snd \<circ> graph_delete_channel_data calls ch,
     snd \<circ> graph_delete_channel_wiki calls ch, snd \<circ> weaviate_delete calls ch, snd \<circ> qa_history_delete calls ch,
     snd \<circ> wiki_pages_delete calls ch, snd \<circ> wiki_cache_delete calls ch, snd \<circ> chat_history_delete calls ch,
     snd \<circ> mongodb_purge calls ch, (case media_delete calls of None \<Rightarrow> id | Some c \<Rightarrow> snd \<circ> c ch)]"

lemma add_count_world [simp]: "fo_world (add_count k n fo) = fo_world fo" "fo_errors (add_count k n fo) = fo_errors fo"
  by (simp_all add: add_count_def)

lemma stage_world:
  "(\<And>v fo. fo_world (r v fo) = fo_world fo) \<Longrightarrow> fo_world (stage name c r fo) = snd (c (fo_world fo))"
  by (auto simp: stage_def split: prod.split sum.split)

lemma merge_mongo_world [simp]: "fo_world (merge_mongo_counts d fo) = fo_world fo"
proof -
  have "fo_world (fold (\<lambda>(k, v). add_count k v) d fo) = fo_world fo"
    by (induction d arbitrary: fo) (simp_all add: case_prod_unfold)
  then show ?thesis by (simp add: merge_mongo_counts_def Let_def)
qed

lemma purge_fanout_world: "fo_world (purge_fanout calls ch w) = fold (\<lambda>f w. f w) (purge_effects calls ch) w"
  by (simp add: purge_fanout_def purge_stages_def purge_effects_def stage_world split: option.split)

section \<open>Runs of the purge\<close>

lemma purge_channel_locks:
  "map_of (fst (snd (purge_channel calls now p ch (locks, w)))) =
     (case fst (purge_channel calls now p ch (locks, w)) of
        Purge_already_in_progress \<Rightarrow> map_of locks
      | Purge_completed \<Rightarrow> (map_of locks)(ch := None)
      | Purge_partial \<Rightarrow> (map_of locks)(ch \<mapsto> \<lparr>lock_started_at = Some now, lock_owner = Some p\<rparr>))"
  by (auto simp: purge_channel_def claim_purge_def release_purge_def Let_def fun_eq_iff split: option.splits if_splits)

lemma purge_channel_refused:
  "fst (purge_channel calls now p ch (locks, w)) = Purge_already_in_progress \<longleftrightarrow>
     \<not> fst (claim_purge now PURGE_LOCK_STALE_AFTER_S (Some p) ch locks)"
  by (cases "claim_purge now PURGE_LOCK_STALE_AFTER_S (Some p) ch locks")
     (auto simp: purge_channel_def Let_def split: bool.splits option.splits)

text \<open>Stores that work: no stage, audit or release raises.\<close>

definition calls_succeed :: "'w purge_calls \<Rightarrow> bool" where
  "calls_succeed calls \<longleftrightarrow>
     (\<forall>ch w. fo_errors (purge_fanout calls ch w) = []) \<and>
     (\<forall>ch cs es ids w. \<exists>w'. purge_audit calls ch cs es ids w = (Inr (), w')) \<and> (\<forall>w. release_fails calls w = None)"

lemma purge_channel_completes:
  assumes "calls_succeed calls" "fst (claim_purge now PURGE_LOCK_STALE_AFTER_S (Some p) ch locks)"
  shows "fst (purge_channel calls now p ch (locks, w)) = Purge_completed"
proof -
  let ?f = "purge_fanout calls ch w"
  obtain w' where a: "purge_audit calls ch (fo_counts ?f) [] (fo_unlinked_from ?f) (fo_world ?f) = (Inr (), w')"
    using assms(1) unfolding calls_succeed_def by blast
  have e: "fo_errors ?f = []" using assms(1) by (simp add: calls_succeed_def)
  obtain l where "claim_purge now PURGE_LOCK_STALE_AFTER_S (Some p) ch locks = (True, l)" using assms(2) by (metis prod.collapse)
  then show ?thesis using assms(1) e a by (simp add: purge_channel_def stage_def Let_def calls_succeed_def)
qed

lemma stale_claimable:
  "ch \<in> set (list_stale_purge_locks now PURGE_LOCK_STALE_AFTER_S locks) \<Longrightarrow> dict_ok locks \<Longrightarrow>
     \<exists>t. started locks ch = Some t \<and> t < now - PURGE_LOCK_STALE_AFTER_S"
  by (auto simp: list_stale_purge_locks_def started_def split: option.splits) (metis eq_key_imp_eq_value)

lemma reap_all:
  assumes "calls_succeed calls" "\<forall>ch \<in> set chs. \<exists>t. started (fst s) ch = Some t \<and> t < now - PURGE_LOCK_STALE_AFTER_S" "distinct chs"
  shows "map_of (fst (fold (\<lambda>ch s. snd (purge_channel calls now p ch s)) chs s)) = (\<lambda>ch. if ch \<in> set chs then None else map_of (fst s) ch)"
  using assms
proof (induction chs arbitrary: s)
  case (Cons c chs)
  obtain locks w where s: "s = (locks, w)" by (cases s)
  from Cons.prems(2) s have "fst (claim_purge now PURGE_LOCK_STALE_AFTER_S (Some p) c locks)"
    by (auto simp: claim_purge_spec(1))
  from purge_channel_completes [OF Cons.prems(1) this, of w] purge_channel_locks [of calls now p c locks w] s
  have m: "map_of (fst (snd (purge_channel calls now p c s))) = (map_of locks)(c := None)" by simp
  then have "\<forall>ch \<in> set chs. \<exists>t. started (fst (snd (purge_channel calls now p c s))) ch = Some t \<and> t < now - PURGE_LOCK_STALE_AFTER_S"
    using Cons.prems(2,3) s by (auto simp: started_def)
  from Cons.IH [OF Cons.prems(1) this] Cons.prems(3) m s show ?case by (auto simp: fun_eq_iff)
qed auto

section \<open>Properties\<close>

text \<open>
  Property C3. A channel is purged by one run at a time: whatever users, the reaper and other
  processes do, two claims of a channel's lock that both succeed, with no release between them, are
  more than the staleness bound apart, so the second one found the first one stale.
\<close>

theorem purge_exclusive:
  assumes "list_all (\<lambda>e. e \<noteq> Release_purge ch) es"
  shows "sorted_wrt (\<lambda>a b. a + PURGE_LOCK_STALE_AFTER_S < b) (purge_wins ch es locks)"
  using assms by (rule wins_spaced)

theorem purge_exclusive_witness:
  "sorted_wrt (\<lambda>a b. a + PURGE_LOCK_STALE_AFTER_S < b)
     (purge_wins ''c'' [Claim_purge 0 (Some ''u'') ''c'', Claim_purge 1 (Some ''v'') ''c'', Release_purge ''d'', Claim_purge 901 None ''c''] []) \<and>
   purge_wins ''c'' [Claim_purge 0 (Some ''u'') ''c'', Claim_purge 1 (Some ''v'') ''c'', Release_purge ''d'', Claim_purge 901 None ''c''] [] = [0, 901]"
  using purge_exclusive [of "''c''" "[Claim_purge 0 (Some ''u'') ''c'', Claim_purge 1 (Some ''v'') ''c'', Release_purge ''d'', Claim_purge 901 None ''c'']" "[]"]
  by (simp add: claim_purge_def release_purge_def PURGE_LOCK_STALE_AFTER_S_def)

text \<open>
  One failing store does not stop a purge: the fan-out makes every call of every stage,
  in the documented order, whichever of them raise.
\<close>

theorem purge_runs_every_stage:
  "fo_world (purge_fanout calls ch w) = fold (\<lambda>f w. f w) (purge_effects calls ch) w"
  by (rule purge_fanout_world)

text \<open>
  The lock survives exactly the runs that did not finish: a completed purge removes it, a
  partial one leaves it under the time and name of the run, a refused one does not touch it, and no
  run changes the lock of another channel.
\<close>

theorem purge_lock_outcome:
  "map_of (fst (snd (purge_channel calls now p ch (locks, w)))) =
     (case fst (purge_channel calls now p ch (locks, w)) of
        Purge_already_in_progress \<Rightarrow> map_of locks
      | Purge_completed \<Rightarrow> (map_of locks)(ch := None)
      | Purge_partial \<Rightarrow> (map_of locks)(ch \<mapsto> \<lparr>lock_started_at = Some now, lock_owner = Some p\<rparr>))"
  by (rule purge_channel_locks)


definition working_calls :: "unit purge_calls" where
  "working_calls = \<lparr>cancel_sync = (\<lambda>_ w. (Inr False, w)), cancel_consolidation_call = (\<lambda>_ w. (Inr False, w)),
     list_connections = (\<lambda>w. (Inr [(''k1'', [''c'', ''d''])], w)), update_connection = (\<lambda>_ _ w. (Inr (), w)),
     delete_policy = (\<lambda>_ w. (Inr True, w)), deregister_jobs = (\<lambda>_ w. (Inr (), w)),
     graph_delete_channel_data = (\<lambda>_ w. (Inr [(''events_deleted'', 2)], w)), graph_delete_channel_wiki = (\<lambda>_ w. (Inr 0, w)),
     weaviate_delete = (\<lambda>_ w. (Inr 3, w)), qa_history_delete = (\<lambda>_ w. (Inr 0, w)), wiki_pages_delete = (\<lambda>_ w. (Inr 1, w)),
     wiki_cache_delete = (\<lambda>_ w. (Inr 1, w)), chat_history_delete = (\<lambda>_ w. (Inr 0, w)),
     mongodb_purge = (\<lambda>_ w. (Inr [(''channel_messages'', 7)], w)), media_delete = None,
     purge_audit = (\<lambda>_ _ _ _ w. (Inr (), w)), release_fails = (\<lambda>_. None)\<rparr>"

lemma working_calls_succeed: "calls_succeed working_calls"
  by (auto simp: calls_succeed_def purge_fanout_def purge_stages_def working_calls_def stage_def unlink_connections_def
      merge_mongo_counts_def get_count_def add_count_def Let_def)


text \<open>
  The worker leaves a channel that is being purged alone: with the set of purging channels
  that it reads at the start, a tick claims no row of a channel whose lock is not stale.
\<close>

theorem worker_respects_purge:
  assumes "queue_ok q" "is_purging now PURGE_LOCK_STALE_AFTER_S ch locks" "ch \<noteq> []"
  shows "ch \<notin> cm_channel_id ` set (fst (claim_pending_messages_for_extraction n
      (tick_filter st now channel_id (get_purging_channel_ids now PURGE_LOCK_STALE_AFTER_S locks)) q))"
proof -
  let ?f = "tick_filter st now channel_id (get_purging_channel_ids now PURGE_LOCK_STALE_AFTER_S locks)"
  have ch: "ch \<in> set (cf_purging ?f)"
    using assms(2,3) map_of_SomeD [of locks ch]
    by (auto simp: tick_filter_def get_purging_channel_ids_def is_purging_def split: option.splits) force
  have "claim_pending_messages_for_extraction n ?f q = ([], q) \<or>
      fst (claim_pending_messages_for_extraction n ?f q) = map (mark_extracting now) (take n (due_rows ?f q)) \<and> (cf_channel ?f = Some c \<longrightarrow> c \<noteq> ch)" for c
    using claim_loop_spec [OF assms(1), of n ?f] ch
    by (auto simp: claim_pending_messages_for_extraction_def tick_filter_def split: option.splits)
  moreover have "cm_channel_id r \<noteq> ch" if "r \<in> set (take n (due_rows ?f q))" "\<forall>c. cf_channel ?f = Some c \<longrightarrow> c \<noteq> ch" for r
    using that ch due_rows_set [of ?f q] by (auto simp: claimable_def channel_in_scope_def dest!: in_set_takeD split: option.splits)
  ultimately show ?thesis by fastforce
qed

theorem worker_respects_purge_witness:
  "''a'' \<notin> cm_channel_id ` set (fst (claim_pending_messages_for_extraction 5
      (tick_filter sample_settings 100 None (get_purging_channel_ids 100 PURGE_LOCK_STALE_AFTER_S
         [(''a'', \<lparr>lock_started_at = Some 50, lock_owner = None\<rparr>)]))
      [stamped ''a'' ''m'', stamped ''b'' ''n'']))"
  by (rule worker_respects_purge)
     (simp_all add: stamped_def sample_message_def message_key_def is_purging_def lock_fresh_def PURGE_LOCK_STALE_AFTER_S_def)

end
