(* ===== verification/Pipeline_Orchestrator.thy ===== *)
theory Pipeline_Orchestrator
  imports Sync_Policy
begin

text \<open>
  The consolidation orchestrator of \<^verbatim>\<open>services/pipeline_orchestrator.py\<close>: which sync triggers a
  consolidation, the registry that keeps one consolidation task per channel, and the gate that owes
  a channel its deferred summary. One event loop runs the coroutines, so the code between two
  awaits is atomic; the step relation below interleaves these pieces in every order. Tasks are named
  by numbers. \<open>oc_live\<close> are the tasks that have not ended (\<^verbatim>\<open>not task.done()\<close>), and \<open>oc_dirty\<close> the
  channels whose clusters were assigned and not summarised since; the code does not keep it, it says
  what the gate is for. The consolidation service itself is not modelled.
\<close>

section \<open>Model\<close>

datatype task_phase = Spawned | Clustering | Finishing

record task =
  tk_id :: nat
  tk_channel :: string
  tk_phase :: task_phase

record orchestrator =
  oc_tasks :: "(string, nat) dict"
  oc_pending_summary :: "string set"
  oc_purging_snapshot :: "string set"
  oc_live :: "task list"
  oc_next :: nat
  oc_counters :: "(string, int) dict"
  oc_summarizers :: "(string \<times> nat option) list"
  oc_dirty :: "string set"

definition orchestrator_init :: orchestrator where
  "orchestrator_init = \<lparr>oc_tasks = [], oc_pending_summary = {}, oc_purging_snapshot = {}, oc_live = [], oc_next = 0,
     oc_counters = [], oc_summarizers = [], oc_dirty = {}\<rparr>"

definition task_alive :: "orchestrator \<Rightarrow> nat \<Rightarrow> bool" where
  "task_alive s t = list_ex (\<lambda>k. tk_id k = t) (oc_live s)"

definition refresh_purging_snapshot :: "string set option \<Rightarrow> orchestrator \<Rightarrow> orchestrator" where
  "refresh_purging_snapshot fetched s = (case fetched of Some ids \<Rightarrow> s\<lparr>oc_purging_snapshot := ids\<rparr> | None \<Rightarrow> s)"

definition spawn_consolidation :: "string \<Rightarrow> orchestrator \<Rightarrow> orchestrator" where
  "spawn_consolidation ch s =
     (if ch \<in> oc_purging_snapshot s then s
      else if (case map_of (oc_tasks s) ch of Some t \<Rightarrow> task_alive s t | None \<Rightarrow> False) then s
      else s\<lparr>oc_live := oc_live s @ [\<lparr>tk_id = oc_next s, tk_channel = ch, tk_phase = Spawned\<rparr>],
             oc_tasks := AList.update ch (oc_next s) (oc_tasks s), oc_next := Suc (oc_next s)\<rparr>)"

definition increment_sync_counter :: "string \<Rightarrow> orchestrator \<Rightarrow> int \<times> orchestrator" where
  "increment_sync_counter ch s =
     (let n = (case map_of (oc_counters s) ch of Some c \<Rightarrow> c | None \<Rightarrow> 0) + 1
      in (n, s\<lparr>oc_counters := AList.update ch n (oc_counters s)\<rparr>))"

definition reset_sync_counter :: "string \<Rightarrow> orchestrator \<Rightarrow> orchestrator" where
  "reset_sync_counter ch s =
     (if map_of (oc_counters s) ch = None then s else s\<lparr>oc_counters := AList.update ch 0 (oc_counters s)\<rparr>)"

definition on_ingestion_complete :: "string set option \<Rightarrow> ResolvedPolicy \<Rightarrow> string \<Rightarrow> orchestrator \<Rightarrow> orchestrator" where
  "on_ingestion_complete fetched policy ch s =
     (let s = refresh_purging_snapshot fetched s in
      case strategy (rp_consolidation policy) of
        Some Consolidate_after_every_sync \<Rightarrow> spawn_consolidation ch s
      | Some Consolidate_after_n_syncs \<Rightarrow>
          (case increment_sync_counter ch s of
             (count, s') \<Rightarrow>
               let threshold = (case after_n_syncs (rp_consolidation policy) of Some n \<Rightarrow> if n \<noteq> 0 then n else 3 | None \<Rightarrow> 3) in
               if count \<ge> threshold then spawn_consolidation ch s' else s')
      | _ \<Rightarrow> s)"

definition set_phase :: "nat \<Rightarrow> task_phase \<Rightarrow> orchestrator \<Rightarrow> orchestrator" where
  "set_phase t ph s = s\<lparr>oc_live := map (\<lambda>k. if tk_id k = t then k\<lparr>tk_phase := ph\<rparr> else k) (oc_live s)\<rparr>"

text \<open>The pieces of \<^verbatim>\<open>_run_consolidation\<close>: up to the clustering, after it, and the \<^verbatim>\<open>finally\<close>.\<close>

definition run_start :: "bool \<Rightarrow> task \<Rightarrow> orchestrator \<Rightarrow> orchestrator" where
  "run_start on_settle k s =
     (let s = set_phase (tk_id k) Clustering s in
      if on_settle then s\<lparr>oc_pending_summary := insert (tk_channel k) (oc_pending_summary s)\<rparr> else s)"

definition run_clustered :: "bool \<Rightarrow> task \<Rightarrow> orchestrator \<Rightarrow> orchestrator" where
  "run_clustered on_settle k s =
     (let s = reset_sync_counter (tk_channel k) (set_phase (tk_id k) Finishing s) in
      if on_settle then s\<lparr>oc_dirty := insert (tk_channel k) (oc_dirty s)\<rparr> else s)"

definition run_end :: "task \<Rightarrow> orchestrator \<Rightarrow> orchestrator" where
  "run_end k s = s\<lparr>oc_live := filter (\<lambda>j. tk_id j \<noteq> tk_id k) (oc_live s), oc_tasks := AList.delete (tk_channel k) (oc_tasks s)\<rparr>"

definition consolidate_only :: "bool \<Rightarrow> string set option \<Rightarrow> string \<Rightarrow> orchestrator \<Rightarrow> orchestrator" where
  "consolidate_only on_settle fetched ch s =
     (let s = refresh_purging_snapshot fetched s;
          s = (if on_settle then s\<lparr>oc_pending_summary := insert ch (oc_pending_summary s)\<rparr> else s)
      in spawn_consolidation ch s)"

definition trigger_consolidation :: "string set option \<Rightarrow> string \<Rightarrow> orchestrator \<Rightarrow> orchestrator" where
  "trigger_consolidation fetched ch s = spawn_consolidation ch (refresh_purging_snapshot fetched s)"

text \<open>\<^verbatim>\<open>cancel_consolidation\<close> up to its await, and after it.\<close>

definition cancel_request :: "string \<Rightarrow> orchestrator \<Rightarrow> nat option \<times> orchestrator" where
  "cancel_request ch s =
     (case map_of (oc_tasks s) ch of
        Some t \<Rightarrow> if task_alive s t then (Some t, s) else (None, s\<lparr>oc_tasks := AList.delete ch (oc_tasks s)\<rparr>)
      | None \<Rightarrow> (None, s))"

definition cancel_resume :: "string \<Rightarrow> orchestrator \<Rightarrow> orchestrator" where
  "cancel_resume ch s = s\<lparr>oc_tasks := AList.delete ch (oc_tasks s)\<rparr>"

text \<open>\<^verbatim>\<open>summarize_settled_for_channel\<close> up to its first await, and the pass itself.\<close>

definition summarize_gate :: "string \<Rightarrow> orchestrator \<Rightarrow> orchestrator" where
  "summarize_gate ch s =
     (if ch \<notin> oc_pending_summary s then s
      else s\<lparr>oc_pending_summary := oc_pending_summary s - {ch},
             oc_summarizers := oc_summarizers s @
               [(ch, case map_of (oc_tasks s) ch of Some t \<Rightarrow> if task_alive s t then Some t else None | None \<Rightarrow> None)]\<rparr>)"

definition summarize_pass :: "string \<Rightarrow> nat option \<Rightarrow> orchestrator \<Rightarrow> orchestrator" where
  "summarize_pass ch awaited s =
     s\<lparr>oc_summarizers := remove1 (ch, awaited) (oc_summarizers s), oc_dirty := oc_dirty s - {ch}\<rparr>"

definition summarize_failure :: "string \<Rightarrow> nat option \<Rightarrow> orchestrator \<Rightarrow> orchestrator" where
  "summarize_failure ch awaited s = s\<lparr>oc_summarizers := remove1 (ch, awaited) (oc_summarizers s)\<rparr>"

section \<open>Interleavings\<close>

definition summarizer_ready :: "orchestrator \<Rightarrow> nat option \<Rightarrow> bool" where
  "summarizer_ready s awaited = (case awaited of None \<Rightarrow> True | Some t \<Rightarrow> \<not> task_alive s t)"

text \<open>The steps of the event loop; a task that raises or is cancelled ends in any phase.\<close>

inductive orch_step :: "bool \<Rightarrow> orchestrator \<Rightarrow> orchestrator \<Rightarrow> bool" for on_settle where
  Refresh: "orch_step on_settle s (refresh_purging_snapshot fetched s)"
| Ingested: "orch_step on_settle s (on_ingestion_complete fetched policy ch s)"
| Consolidate_only: "orch_step on_settle s (consolidate_only on_settle fetched ch s)"
| Trigger: "orch_step on_settle s (trigger_consolidation fetched ch s)"
| Task_start: "k \<in> set (oc_live s) \<Longrightarrow> tk_phase k = Spawned \<Longrightarrow> orch_step on_settle s (run_start on_settle k s)"
| Task_clustered: "k \<in> set (oc_live s) \<Longrightarrow> tk_phase k = Clustering \<Longrightarrow> orch_step on_settle s (run_clustered on_settle k s)"
| Task_end: "k \<in> set (oc_live s) \<Longrightarrow> orch_step on_settle s (run_end k s)"
| Settled: "orch_step on_settle s (summarize_gate ch s)"
| Summarized: "(ch, awaited) \<in> set (oc_summarizers s) \<Longrightarrow> summarizer_ready s awaited \<Longrightarrow> orch_step on_settle s (summarize_pass ch awaited s)"

inductive orch_reachable :: "bool \<Rightarrow> orchestrator \<Rightarrow> bool" for on_settle where
  Initial: "orch_reachable on_settle orchestrator_init"
| Step: "orch_reachable on_settle s \<Longrightarrow> orch_step on_settle s s' \<Longrightarrow> orch_reachable on_settle s'"

text \<open>The registry is the live tasks, one per channel.\<close>

definition live_tasks :: "orchestrator \<Rightarrow> (nat \<times> string) list" where
  "live_tasks s = map (\<lambda>k. (tk_id k, tk_channel k)) (oc_live s)"

definition registry_inv :: "orchestrator \<Rightarrow> bool" where
  "registry_inv s \<longleftrightarrow>
     distinct (map fst (live_tasks s)) \<and> (\<forall>(t, ch) \<in> set (live_tasks s). t < oc_next s) \<and>
     (\<forall>ch t. map_of (oc_tasks s) ch = Some t \<longleftrightarrow> (t, ch) \<in> set (live_tasks s))"

text \<open>No clustering goes without a summary that is owed or on its way.\<close>

definition owed_inv :: "orchestrator \<Rightarrow> bool" where
  "owed_inv s \<longleftrightarrow>
     (\<forall>ch \<in> oc_dirty s. ch \<in> oc_pending_summary s \<or> ch \<in> fst ` set (oc_summarizers s)) \<and>
     (\<forall>k \<in> set (oc_live s). tk_phase k = Clustering \<longrightarrow>
        tk_channel k \<in> oc_pending_summary s \<or> (tk_channel k, Some (tk_id k)) \<in> set (oc_summarizers s))"

section \<open>The registry\<close>

lemma registry_cong:
  "live_tasks s' = live_tasks s \<Longrightarrow> oc_tasks s' = oc_tasks s \<Longrightarrow> oc_next s' = oc_next s \<Longrightarrow> registry_inv s' \<longleftrightarrow> registry_inv s"
  by (simp add: registry_inv_def)

lemma registry_same:
  "registry_inv s \<Longrightarrow> oc_live s' = oc_live s \<Longrightarrow> oc_tasks s' = oc_tasks s \<Longrightarrow> oc_next s' = oc_next s \<Longrightarrow> registry_inv s'"
  by (simp add: registry_inv_def live_tasks_def)

lemma owed_cong:
  "oc_live s' = oc_live s \<Longrightarrow> oc_pending_summary s' = oc_pending_summary s \<Longrightarrow> oc_summarizers s' = oc_summarizers s \<Longrightarrow>
     oc_dirty s' = oc_dirty s \<Longrightarrow> owed_inv s' \<longleftrightarrow> owed_inv s"
  by (simp add: owed_inv_def)

lemma refresh_simps [simp]:
  "oc_live (refresh_purging_snapshot f s) = oc_live s" "oc_tasks (refresh_purging_snapshot f s) = oc_tasks s"
  "oc_next (refresh_purging_snapshot f s) = oc_next s" "oc_pending_summary (refresh_purging_snapshot f s) = oc_pending_summary s"
  "oc_summarizers (refresh_purging_snapshot f s) = oc_summarizers s" "oc_dirty (refresh_purging_snapshot f s) = oc_dirty s"
  by (simp_all add: refresh_purging_snapshot_def split: option.split)

lemma counter_simps [simp]:
  "oc_live (snd (increment_sync_counter ch s)) = oc_live s" "oc_tasks (snd (increment_sync_counter ch s)) = oc_tasks s"
  "oc_next (snd (increment_sync_counter ch s)) = oc_next s"
  "oc_pending_summary (snd (increment_sync_counter ch s)) = oc_pending_summary s"
  "oc_summarizers (snd (increment_sync_counter ch s)) = oc_summarizers s" "oc_dirty (snd (increment_sync_counter ch s)) = oc_dirty s"
  "oc_live (reset_sync_counter ch s) = oc_live s" "oc_tasks (reset_sync_counter ch s) = oc_tasks s"
  "oc_next (reset_sync_counter ch s) = oc_next s" "oc_pending_summary (reset_sync_counter ch s) = oc_pending_summary s"
  "oc_summarizers (reset_sync_counter ch s) = oc_summarizers s" "oc_dirty (reset_sync_counter ch s) = oc_dirty s"
  by (simp_all add: increment_sync_counter_def reset_sync_counter_def Let_def)

lemma alive_iff: "task_alive s t \<longleftrightarrow> (\<exists>ch. (t, ch) \<in> set (live_tasks s))"
  by (force simp: task_alive_def list_ex_iff live_tasks_def)

lemma spawn_cases:
  "registry_inv s \<Longrightarrow> spawn_consolidation ch s = s \<or>
     map_of (oc_tasks s) ch = None \<and> live_tasks (spawn_consolidation ch s) = live_tasks s @ [(oc_next s, ch)] \<and>
     oc_tasks (spawn_consolidation ch s) = AList.update ch (oc_next s) (oc_tasks s) \<and> oc_next (spawn_consolidation ch s) = Suc (oc_next s)"
  by (cases "map_of (oc_tasks s) ch") (auto simp: spawn_consolidation_def live_tasks_def alive_iff registry_inv_def)

lemma spawn_registry: "registry_inv s \<Longrightarrow> registry_inv (spawn_consolidation ch s)"
proof -
  assume inv: "registry_inv s"
  from spawn_cases [OF inv, of ch] show ?thesis
  proof
    assume new: "map_of (oc_tasks s) ch = None \<and> live_tasks (spawn_consolidation ch s) = live_tasks s @ [(oc_next s, ch)] \<and>
      oc_tasks (spawn_consolidation ch s) = AList.update ch (oc_next s) (oc_tasks s) \<and> oc_next (spawn_consolidation ch s) = Suc (oc_next s)"
    have "c \<noteq> ch" if "(t, c) \<in> set (live_tasks s)" for t c
      using inv new that unfolding registry_inv_def by (metis option.distinct(1))
    then have "\<forall>(t, c) \<in> set (live_tasks s). t < oc_next s \<and> c \<noteq> ch"
      using inv by (auto simp: registry_inv_def)
    then have bounds: "\<And>t c. (t, c) \<in> set (live_tasks s) \<Longrightarrow> t < oc_next s \<and> c \<noteq> ch" by auto
    show ?thesis unfolding registry_inv_def
    proof (intro conjI allI)
      have "oc_next s \<notin> fst ` set (live_tasks s)" using bounds by force
      then show "distinct (map fst (live_tasks (spawn_consolidation ch s)))" using inv new by (simp add: registry_inv_def)
      show "\<forall>(t, c) \<in> set (live_tasks (spawn_consolidation ch s)). t < oc_next (spawn_consolidation ch s)"
        using bounds new by (auto intro: less_SucI)
      show "map_of (oc_tasks (spawn_consolidation ch s)) c = Some t \<longleftrightarrow> (t, c) \<in> set (live_tasks (spawn_consolidation ch s))" for c t
        using inv new bounds [of t c] by (auto simp: registry_inv_def)
    qed
  qed (use inv in simp)
qed

lemma spawn_owed: "owed_inv s \<Longrightarrow> owed_inv (spawn_consolidation ch s)"
  by (simp add: spawn_consolidation_def owed_inv_def)

lemma live_tasks_set_phase: "live_tasks (set_phase t ph s) = live_tasks s"
  by (simp add: live_tasks_def set_phase_def)

lemma set_phase_registry: "registry_inv s \<Longrightarrow> registry_inv (set_phase t ph s)"
  by (subst registry_cong [of _ s]) (simp_all add: live_tasks_set_phase, simp_all add: set_phase_def)

lemma live_tasks_run_end: "live_tasks (run_end k s) = filter (\<lambda>(t, _). t \<noteq> tk_id k) (live_tasks s)"
  by (simp add: live_tasks_def run_end_def filter_map comp_def)

lemma run_end_registry:
  assumes inv: "registry_inv s" and k: "k \<in> set (oc_live s)"
  shows "registry_inv (run_end k s)"
proof -
  have live: "(tk_id k, tk_channel k) \<in> set (live_tasks s)" using k by (force simp: live_tasks_def)
  have "t \<noteq> tk_id k \<longleftrightarrow> ch \<noteq> tk_channel k" if "(t, ch) \<in> set (live_tasks s)" for t ch
  proof -
    have "map_of (oc_tasks s) ch = Some t" "map_of (oc_tasks s) (tk_channel k) = Some (tk_id k)" "distinct (map fst (live_tasks s))"
      using inv that live by (auto simp: registry_inv_def)
    then show ?thesis using that live by (metis eq_key_imp_eq_value option.inject)
  qed
  then show ?thesis using inv
    unfolding registry_inv_def live_tasks_run_end by (auto simp: run_end_def distinct_map_filter)
qed

lemma ingested_cases:
  "\<exists>s'. (on_ingestion_complete f p ch s = s' \<or> on_ingestion_complete f p ch s = spawn_consolidation ch s') \<and>
     oc_live s' = oc_live s \<and> oc_tasks s' = oc_tasks s \<and> oc_next s' = oc_next s \<and>
     oc_pending_summary s' = oc_pending_summary s \<and> oc_summarizers s' = oc_summarizers s \<and> oc_dirty s' = oc_dirty s"
proof (cases "strategy (rp_consolidation p) = Some Consolidate_after_n_syncs")
  case True
  then show ?thesis
    by (intro exI [of _ "snd (increment_sync_counter ch (refresh_purging_snapshot f s))"])
       (simp add: on_ingestion_complete_def Let_def case_prod_unfold)
next
  case False
  then show ?thesis
    by (intro exI [of _ "refresh_purging_snapshot f s"])
       (simp add: on_ingestion_complete_def Let_def split: option.split ConsolidationStrategy.split)
qed

lemma orch_step_registry: "orch_step d s s' \<Longrightarrow> registry_inv s \<Longrightarrow> registry_inv s'"
proof (induction rule: orch_step.induct)
  case (Refresh s f)
  then show ?case by (rule registry_same) simp_all
next
  case (Ingested s f p ch)
  from ingested_cases [of f p ch s] obtain s1 where
    s1: "on_ingestion_complete f p ch s = s1 \<or> on_ingestion_complete f p ch s = spawn_consolidation ch s1"
      "oc_live s1 = oc_live s" "oc_tasks s1 = oc_tasks s" "oc_next s1 = oc_next s" by blast
  from registry_same [OF Ingested s1(2-4)] s1(1) spawn_registry show ?case by metis
next
  case (Consolidate_only s f ch)
  then have "registry_inv (let s = refresh_purging_snapshot f s in
      if d then s\<lparr>oc_pending_summary := insert ch (oc_pending_summary s)\<rparr> else s)"
    by (rule registry_same) (simp_all add: Let_def)
  then show ?case unfolding consolidate_only_def Let_def by (rule spawn_registry)
next
  case (Trigger s f ch)
  then have "registry_inv (refresh_purging_snapshot f s)" by (rule registry_same) simp_all
  then show ?case unfolding trigger_consolidation_def by (rule spawn_registry)
next
  case (Task_start k s)
  from registry_same [OF set_phase_registry [OF Task_start(3)]] show ?case by (simp add: run_start_def Let_def)
next
  case (Task_clustered k s)
  from registry_same [OF set_phase_registry [OF Task_clustered(3)]] show ?case by (simp add: run_clustered_def Let_def)
next
  case (Task_end k s)
  then show ?case by (simp add: run_end_registry)
next
  case (Settled s ch)
  then show ?case by (rule registry_same) (simp_all add: summarize_gate_def)
next
  case (Summarized ch a s)
  then show ?case by (intro registry_same [OF Summarized(3)]) (simp_all add: summarize_pass_def)
qed

section \<open>The summary gate\<close>

lemma owed_same:
  "owed_inv s \<Longrightarrow> oc_live s' = oc_live s \<Longrightarrow> oc_pending_summary s \<subseteq> oc_pending_summary s' \<Longrightarrow> oc_summarizers s' = oc_summarizers s \<Longrightarrow>
     oc_dirty s' = oc_dirty s \<Longrightarrow> owed_inv s'"
  by (auto simp: owed_inv_def)

lemma live_unique: "registry_inv s \<Longrightarrow> j \<in> set (oc_live s) \<Longrightarrow> k \<in> set (oc_live s) \<Longrightarrow> tk_id j = tk_id k \<Longrightarrow> j = k"
proof -
  assume "registry_inv s" and jk: "j \<in> set (oc_live s)" "k \<in> set (oc_live s)" "tk_id j = tk_id k"
  then have "distinct (map tk_id (oc_live s))" by (simp add: registry_inv_def live_tasks_def comp_def)
  then have "inj_on tk_id (set (oc_live s))" by (simp add: distinct_map)
  from inj_onD [OF this jk(3,1,2)] show ?thesis .
qed

lemma live_registered: "registry_inv s \<Longrightarrow> k \<in> set (oc_live s) \<Longrightarrow> map_of (oc_tasks s) (tk_channel k) = Some (tk_id k) \<and> task_alive s (tk_id k)"
  by (force simp: registry_inv_def alive_iff live_tasks_def)

lemma start_owed:
  assumes "registry_inv s" "owed_inv s" "k \<in> set (oc_live s)"
  shows "owed_inv (run_start True k s)"
proof -
  have "tk_channel j = tk_channel k" if "j \<in> set (oc_live s)" "tk_id j = tk_id k" for j
    using live_unique [OF assms(1) that(1) assms(3) that(2)] by simp
  then show ?thesis using assms(2) by (auto simp: owed_inv_def run_start_def set_phase_def Let_def split: if_splits)
qed

lemma clustered_owed:
  assumes "owed_inv s" "k \<in> set (oc_live s)" "tk_phase k = Clustering"
  shows "owed_inv (run_clustered True k s)"
proof -
  have "tk_channel k \<in> oc_pending_summary s \<or> tk_channel k \<in> fst ` set (oc_summarizers s)"
    using assms by (force simp: owed_inv_def)
  then show ?thesis using assms(1) by (auto simp: owed_inv_def run_clustered_def set_phase_def Let_def split: if_splits)
qed

lemma gate_owed:
  assumes "registry_inv s" "owed_inv s"
  shows "owed_inv (summarize_gate ch s)"
proof (cases "ch \<in> oc_pending_summary s")
  case True
  let ?aw = "case map_of (oc_tasks s) ch of Some t \<Rightarrow> if task_alive s t then Some t else None | None \<Rightarrow> None"
  have "?aw = Some (tk_id k)" if "k \<in> set (oc_live s)" "tk_channel k = ch" for k
    using live_registered [OF assms(1) that(1)] that(2) by simp
  then show ?thesis using True assms(2) by (auto simp: owed_inv_def summarize_gate_def)
next
  case False
  with assms(2) show ?thesis by (simp add: summarize_gate_def)
qed

lemma pass_owed:
  assumes "owed_inv s" "summarizer_ready s aw"
  shows "owed_inv (summarize_pass ch aw s)"
proof -
  have "(c, a) \<in> set (remove1 (ch, aw) xs)" if "(c, a) \<in> set xs" "(c, a) \<noteq> (ch, aw)" for c a and xs :: "(string \<times> nat option) list"
    using that by (simp add: in_set_remove1)
  moreover have "Some (tk_id k) \<noteq> aw" if "k \<in> set (oc_live s)" for k
    using that assms(2) by (auto simp: summarizer_ready_def task_alive_def list_ex_iff)
  ultimately show ?thesis using assms(1) by (fastforce simp: owed_inv_def summarize_pass_def)
qed

lemma orch_step_owed: "orch_step True s s' \<Longrightarrow> registry_inv s \<Longrightarrow> owed_inv s \<Longrightarrow> owed_inv s'"
proof (induction rule: orch_step.induct)
  case (Refresh s f)
  from owed_same [OF Refresh(2)] show ?case by simp
next
  case (Ingested s f p ch)
  from ingested_cases [of f p ch s] obtain s1 where
    s1: "on_ingestion_complete f p ch s = s1 \<or> on_ingestion_complete f p ch s = spawn_consolidation ch s1"
      "oc_live s1 = oc_live s" "oc_pending_summary s1 = oc_pending_summary s" "oc_summarizers s1 = oc_summarizers s" "oc_dirty s1 = oc_dirty s"
    by blast
  from owed_same [OF Ingested(2), of s1] s1 spawn_owed show ?case by auto
next
  case (Consolidate_only s f ch)
  show ?case unfolding consolidate_only_def Let_def
    by (intro spawn_owed owed_same [OF Consolidate_only(2)]) auto
next
  case (Trigger s f ch)
  show ?case unfolding trigger_consolidation_def by (intro spawn_owed owed_same [OF Trigger(2)]) simp_all
next
  case (Task_end k s)
  then show ?case by (auto simp: owed_inv_def run_end_def)
qed (simp_all add: start_owed clustered_owed gate_owed pass_owed)

lemma orch_reachable_inv: "orch_reachable d s \<Longrightarrow> registry_inv s \<and> (d \<longrightarrow> owed_inv s)"
proof (induction rule: orch_reachable.induct)
  case Initial
  show ?case by (simp add: registry_inv_def owed_inv_def orchestrator_init_def live_tasks_def)
next
  case (Step s s')
  then show ?case using orch_step_registry [of d s s'] orch_step_owed [of s s'] by (cases "d = True") simp_all
qed

lemma one_task: "registry_inv s \<Longrightarrow> distinct (map tk_channel (oc_live s))"
proof -
  assume inv: "registry_inv s"
  have "inj_on tk_channel (set (oc_live s))"
  proof (rule inj_onI)
    fix j k
    assume jk: "j \<in> set (oc_live s)" "k \<in> set (oc_live s)" "tk_channel j = tk_channel k"
    then have "tk_id j = tk_id k" using live_registered [OF inv jk(1)] live_registered [OF inv jk(2)] by simp
    with live_unique [OF inv jk(1,2)] show "j = k" by simp
  qed
  moreover have "distinct (oc_live s)"
    using inv by (simp add: registry_inv_def live_tasks_def comp_def distinct_map)
  ultimately show ?thesis by (simp add: distinct_map)
qed

section \<open>Properties\<close>

text \<open>Three steps of a sync: the consolidation is requested, starts, and has assigned its clusters.\<close>

definition after_request :: orchestrator where
  "after_request = consolidate_only True (Some {''gone''}) ''c'' orchestrator_init"

definition after_start :: orchestrator where
  "after_start = run_start True \<lparr>tk_id = 0, tk_channel = ''c'', tk_phase = Spawned\<rparr> after_request"

definition after_clustering :: orchestrator where
  "after_clustering = run_clustered True \<lparr>tk_id = 0, tk_channel = ''c'', tk_phase = Clustering\<rparr> (summarize_gate ''c'' after_start)"

lemmas sample_states = after_request_def after_start_def after_clustering_def consolidate_only_def spawn_consolidation_def
  refresh_purging_snapshot_def orchestrator_init_def run_start_def run_clustered_def summarize_gate_def set_phase_def task_alive_def
  reset_sync_counter_def

lemma sample_reachable: "orch_reachable True after_clustering"
proof -
  have "orch_reachable True after_request" unfolding after_request_def by (rule Step [OF Initial Consolidate_only])
  then have "orch_reachable True after_start" unfolding after_start_def
    by (rule Step [OF _ Task_start]) (simp_all add: sample_states)
  then have "orch_reachable True (summarize_gate ''c'' after_start)" by (rule Step [OF _ Settled])
  then show ?thesis unfolding after_clustering_def
    by (rule Step [OF _ Task_clustered]) (simp_all add: sample_states)
qed

text \<open>
  A channel has at most one consolidation at a time: in every interleaving of syncs, manual
  triggers, running tasks (which may fail or be cancelled at any point) and summary passes, no two
  live tasks belong to the same channel.
\<close>

theorem one_consolidation_per_channel:
  assumes "orch_reachable on_settle s"
  shows "distinct (map tk_channel (oc_live s))"
  using orch_reachable_inv [OF assms] one_task by blast

theorem one_consolidation_per_channel_witness:
  "distinct (map tk_channel (oc_live after_clustering)) \<and> oc_live after_clustering \<noteq> []"
  using one_consolidation_per_channel [OF sample_reachable] by (simp add: sample_states)



text \<open>
  A failed summary is forgotten: the mark is removed before the pass runs, so when the pass fails the
  clusters stay unsummarised and nothing owes the channel a summary.
\<close>

theorem failed_summary_forgotten:
  "let s = summarize_failure ''c'' (Some 0) (run_end \<lparr>tk_id = 0, tk_channel = ''c'', tk_phase = Finishing\<rparr> after_clustering)
   in oc_dirty s = {''c''} \<and> oc_pending_summary s = {} \<and> oc_summarizers s = [] \<and> oc_live s = []"
  by (simp add: sample_states summarize_failure_def run_end_def Let_def)

text \<open>
  The pop that ends a cancellation removes whatever is registered by then: a consolidation that was
  started while the cancellation waited becomes unregistered, and the next trigger runs beside it.
\<close>

theorem cancel_unregisters_successor:
  "let s = run_end \<lparr>tk_id = 0, tk_channel = ''c'', tk_phase = Spawned\<rparr> (trigger_consolidation None ''c'' orchestrator_init)
   in map tk_channel (oc_live (trigger_consolidation None ''c'' (cancel_resume ''c'' (trigger_consolidation None ''c'' s)))) = [''c'', ''c'']"
  by (simp add: sample_states trigger_consolidation_def run_end_def cancel_resume_def Let_def)

end
