(* ===== verification/Extraction_Lifecycle.thy ===== *)
theory Extraction_Lifecycle
  imports Extraction_Queue
begin

text \<open>
  The contract of the extraction queue, without rows, clocks, backoffs and payloads: a map from
  message keys to statuses, and the moves that the state machine of
  \<^verbatim>\<open>models/persistence.py\<close> and the recovery paths allow. A move that is not legal in a state is
  refused. The store of \<^theory_text>\<open>Extraction_Queue\<close> refines it.
\<close>

section \<open>The abstract machine\<close>

datatype life_move =
    Arrive message_key extraction_status
  | Take message_key
  | Settle message_key extraction_status
  | Give_back "message_key set"
  | Restart string
  | Stay

fun life_step :: "life_move \<Rightarrow> (message_key \<rightharpoonup> extraction_status) \<Rightarrow> (message_key \<rightharpoonup> extraction_status) option" where
  "life_step (Arrive k s) m = (if m k = None then Some (m(k \<mapsto> s)) else None)"
| "life_step (Take k) m = (if m k = Some Pending \<or> m k = Some Failed then Some (m(k \<mapsto> Extracting)) else None)"
| "life_step (Settle k s) m =
     (case m k of
        Some s0 \<Rightarrow> if s \<in> set (the (map_of EXTRACTION_STATUS_TRANSITIONS s0)) then Some (m(k \<mapsto> s)) else None
      | None \<Rightarrow> None)"
| "life_step (Give_back K) m =
     (if \<forall>k \<in> K. m k = Some Extracting then Some (\<lambda>k. if k \<in> K then Some Pending else m k) else None)"
| "life_step (Restart ch) m = Some (\<lambda>k. if fst (snd k) = ch \<and> m k \<noteq> None then Some Pending else m k)"
| "life_step Stay m = Some m"

fun life_run :: "life_move list \<Rightarrow> (message_key \<rightharpoonup> extraction_status) \<Rightarrow> (message_key \<rightharpoonup> extraction_status) option" where
  "life_run [] m = Some m"
| "life_run (a # as) m = (case life_step a m of None \<Rightarrow> None | Some m' \<Rightarrow> life_run as m')"

section \<open>The abstraction\<close>

definition row_of :: "queue \<Rightarrow> message_key \<Rightarrow> ChannelMessage option" where
  "row_of q = map_of (map (\<lambda>r. (message_key r, r)) q)"

definition status_of :: "queue \<Rightarrow> message_key \<rightharpoonup> extraction_status" where
  "status_of q = (\<lambda>k. map_option extraction_status (row_of q k))"

fun abstract_move :: "queue_event \<Rightarrow> queue \<Rightarrow> life_move" where
  "abstract_move (Upsert_message now m) q =
     (if row_of q (message_key m) = None then Arrive (message_key m) (extraction_status m) else Stay)"
| "abstract_move (Claim_row f) q = (case fst (claim_one f q) of Some doc \<Rightarrow> Take (message_key doc) | None \<Rightarrow> Stay)"
| "abstract_move (Finalize_row now k s e t) q =
     (case row_of q k of
        Some r \<Rightarrow> if extraction_status r \<in> set (allowed_from s) then Settle k s else Stay
      | None \<Rightarrow> Stay)"
| "abstract_move (Sweep_stale now stale) q =
     Give_back (message_key ` set (filter (\<lambda>r. extraction_status r = Extracting \<and> cm_updated_at r < now - stale) q))"
| "abstract_move (Reset_channel now ch) q = Restart ch"

fun life_trace :: "queue_event list \<Rightarrow> queue \<Rightarrow> life_move list" where
  "life_trace [] q = []"
| "life_trace (e # es) q = abstract_move e q # life_trace es (queue_step e q)"

lemma row_ofD: "row_of q k = Some r \<Longrightarrow> r \<in> set q \<and> message_key r = k"
  unfolding row_of_def by (auto dest: map_of_SomeD)

lemma row_of_None: "row_of q k = None \<longleftrightarrow> k \<notin> message_key ` set q"
  by (auto simp: row_of_def map_of_eq_None_iff image_iff)

lemma row_of_member: "queue_ok q \<Longrightarrow> r \<in> set q \<Longrightarrow> row_of q (message_key r) = Some r"
  by (metis key_unique option.exhaust row_ofD row_of_None image_eqI)

lemma row_of_map: "(\<And>r. message_key (g r) = message_key r) \<Longrightarrow> row_of (map g q) k = map_option g (row_of q k)"
  by (induction q) (simp_all add: row_of_def)

lemma row_of_append: "row_of (q @ q') k = (case row_of q k of Some r \<Rightarrow> Some r | None \<Rightarrow> row_of q' k)"
  by (simp add: row_of_def map_add_def split: option.split)

lemma status_of_step:
  "queue_ok q \<Longrightarrow> status_of (queue_step e q) k =
     (case row_of q k of Some r \<Rightarrow> Some (extraction_status (row_step e q r))
      | None \<Rightarrow> map_option extraction_status (row_of (new_rows e q) k))"
  by (simp add: status_of_def queue_step_rows row_of_append row_of_map option.map_comp split: option.split)

lemma row_of_Nil [simp]: "row_of [] k = None"
  by (simp add: row_of_def)

lemma status_of_moved:
  "queue_ok q \<Longrightarrow> new_rows e q = [] \<Longrightarrow>
     status_of (queue_step e q) k = map_option (\<lambda>r. extraction_status (row_step e q r)) (row_of q k)"
  by (simp add: status_of_step split: option.split)

lemma transitions_allowed:
  "s \<in> set (the (map_of EXTRACTION_STATUS_TRANSITIONS s0)) \<longleftrightarrow> s0 \<in> set (allowed_from s)"
  by (cases s; cases s0) (simp_all add: EXTRACTION_STATUS_TRANSITIONS_def)

section \<open>Refinement, operation by operation\<close>

lemma upsert_refines:
  assumes "queue_ok q"
  shows "life_step (abstract_move (Upsert_message now m) q) (status_of q) = Some (status_of (queue_step (Upsert_message now m) q))"
proof (cases "row_of q (message_key m) = None")
  case True
  then have n: "new_rows (Upsert_message now m) q = [m\<lparr>cm_fields := set_fields (cm_fields m) [], cm_updated_at := now\<rparr>]"
    by (simp add: row_of_None)
  have "status_of (queue_step (Upsert_message now m) q) k = ((status_of q)(message_key m \<mapsto> extraction_status m)) k" for k
    using True unfolding status_of_step [OF assms] n
    by (auto simp: status_of_def [of q] row_of_def [of "[_]"] split: option.split)
  with True show ?thesis by (simp add: status_of_def [of q] fun_eq_iff del: queue_step.simps)
next
  case False
  then have "new_rows (Upsert_message now m) q = []" by (simp add: row_of_None)
  from status_of_moved [OF assms this] False show ?thesis
    by (auto simp: status_of_def [of q] simp del: queue_step.simps intro!: ext option.map_cong0)
qed

lemma claim_refines:
  assumes "queue_ok q"
  shows "life_step (abstract_move (Claim_row f) q) (status_of q) = Some (status_of (queue_step (Claim_row f) q))"
proof (cases "fst (claim_one f q)")
  case None
  then show ?thesis using claim_one_mark [OF assms, of f] by auto
next
  case (Some doc)
  then obtain a where a: "a \<in> set q" "claimable f a" "message_key doc = message_key a"
    using claim_one_mark [OF assms, of f] by auto
  from row_of_member [OF assms a(1)] have r: "row_of q (message_key a) = Some a" .
  have "row_step (Claim_row f) q r = (if message_key r = message_key a then mark_extracting (cf_now f) r else r)" for r
    using Some a(3) by simp
  then have "status_of (queue_step (Claim_row f) q) k = ((status_of q)(message_key a \<mapsto> Extracting)) k" for k
    using r row_ofD [of q k]
    by (cases "row_of q k") (auto simp: status_of_moved [OF assms] status_of_def [of q] simp del: queue_step.simps row_step.simps)
  moreover have "status_of q (message_key a) = Some Pending \<or> status_of q (message_key a) = Some Failed"
    using r a(2) by (auto simp: status_of_def claimable_def)
  ultimately show ?thesis using Some a(3) by (simp add: fun_eq_iff del: queue_step.simps)
qed

lemma finalize_refines:
  assumes "queue_ok q"
  shows "life_step (abstract_move (Finalize_row now k s e t) q) (status_of q) =
    Some (status_of (queue_step (Finalize_row now k s e t) q))"
proof -
  let ?move = "\<lambda>r. extraction_status r \<in> set (allowed_from s)"
  have step: "status_of (queue_step (Finalize_row now k s e t) q) k' =
      map_option (\<lambda>r. if k' = k \<and> ?move r then s else extraction_status r) (row_of q k')" for k'
    using row_ofD [of q k']
    by (cases "row_of q k'") (auto simp: status_of_moved [OF assms] simp del: queue_step.simps allowed_from_simps)
  show ?thesis
  proof (cases "row_of q k")
    case None
    then have "status_of (queue_step (Finalize_row now k s e t) q) = status_of q"
      unfolding fun_eq_iff step by (auto simp: status_of_def [of q] intro!: option.map_cong0)
    with None show ?thesis by (simp del: queue_step.simps)
  next
    case (Some r)
    have "status_of (queue_step (Finalize_row now k s e t) q) = (if ?move r then (status_of q)(k \<mapsto> s) else status_of q)"
      unfolding fun_eq_iff step using Some by (auto simp: status_of_def [of q] intro!: option.map_cong0)
    with Some show ?thesis
      by (simp add: transitions_allowed status_of_def [of q] del: queue_step.simps allowed_from_simps)
  qed
qed

lemma sweep_refines:
  assumes "queue_ok q"
  shows "life_step (abstract_move (Sweep_stale now stale) q) (status_of q) =
    Some (status_of (queue_step (Sweep_stale now stale) q))"
proof -
  define K where "K = message_key ` set (filter (\<lambda>r. extraction_status r = Extracting \<and> cm_updated_at r < now - stale) q)"
  have K: "k \<in> K \<longleftrightarrow> (\<exists>r. row_of q k = Some r \<and> extraction_status r = Extracting \<and> cm_updated_at r < now - stale)" for k
    unfolding K_def using row_of_member [OF assms] row_ofD [of q k] by (auto simp: image_iff)
  have "status_of (queue_step (Sweep_stale now stale) q) k = (if k \<in> K then Some Pending else status_of q k)" for k
    unfolding K by (cases "row_of q k") (auto simp: status_of_moved [OF assms] status_of_def [of q] simp del: queue_step.simps)
  moreover have "\<forall>k \<in> K. status_of q k = Some Extracting"
    using K by (auto simp: status_of_def)
  moreover have "abstract_move (Sweep_stale now stale) q = Give_back K" by (simp add: K_def)
  ultimately show ?thesis by (simp add: fun_eq_iff del: queue_step.simps abstract_move.simps)
qed

lemma reset_refines:
  assumes "queue_ok q"
  shows "life_step (abstract_move (Reset_channel now ch) q) (status_of q) =
    Some (status_of (queue_step (Reset_channel now ch) q))"
proof -
  have "status_of (queue_step (Reset_channel now ch) q) k =
      (if fst (snd k) = ch \<and> status_of q k \<noteq> None then Some Pending else status_of q k)" for k
    using row_ofD [of q k]
    by (cases "row_of q k") (auto simp: status_of_moved [OF assms] status_of_def [of q] message_key_def simp del: queue_step.simps)
  then show ?thesis by (simp add: fun_eq_iff del: queue_step.simps)
qed

lemma queue_step_refines:
  "queue_ok q \<Longrightarrow> life_step (abstract_move e q) (status_of q) = Some (status_of (queue_step e q))"
  by (cases e) (simp_all only: upsert_refines claim_refines finalize_refines sweep_refines reset_refines)

lemma queue_run_refines:
  "queue_ok q \<Longrightarrow> life_run (life_trace es q) (status_of q) = Some (status_of (fold queue_step es q))"
  by (induction es arbitrary: q) (simp_all add: queue_step_refines queue_step_ok del: queue_step.simps abstract_move.simps)

section \<open>Property\<close>



end
