(* ===== verification/Sync_Scheduler.thy ===== *)
theory Sync_Scheduler
  imports Policy_API
begin

text \<open>
  The scheduler of \<^verbatim>\<open>services/scheduler.py\<close> and the whole policy handlers of
  \<^verbatim>\<open>api/policies.py\<close>, which notify it. APScheduler is a parameter: what it keeps, how a schedule is
  added (under \<^verbatim>\<open>conflict_policy="do_nothing"\<close>) and removed, and which triggers its constructors
  accept. Its documented behaviour is the hypothesis \<^theory_text>\<open>aps_ok\<close>. A call that may raise returns whether
  it returned normally, with the state it leaves in both cases. Starting a sync is a parameter, and
  so are the clock and the settings.
\<close>

section \<open>Model\<close>

datatype trigger =
    Interval_minutes int
  | Interval_seconds int
  | Cron_trigger string string string string string

datatype job = Execute_sync | Execute_consolidation | Extraction_tick | Extraction_sweep | Purge_reaper

record schedule =
  sc_job :: job
  sc_trigger :: trigger
  sc_args :: "string list"

record 's apscheduler =
  aps_add :: "string \<Rightarrow> schedule \<Rightarrow> 's \<Rightarrow> 's"
  aps_remove :: "string \<Rightarrow> 's \<Rightarrow> 's option"
  aps_accepts :: "trigger \<Rightarrow> bool"

record 's SyncScheduler =
  sched_started :: bool
  sched_store :: 's
  global_semaphore :: "int option"

definition sync_id :: "string \<Rightarrow> string" where
  "sync_id channel_id = ''sync:'' @ channel_id"

definition consolidate_id :: "string \<Rightarrow> string" where
  "consolidate_id channel_id = ''consolidate:'' @ channel_id"

fun cron_of_parts :: "string list \<Rightarrow> trigger option" where
  "cron_of_parts [mi, h, d, mo, wd] = Some (Cron_trigger mi h d mo wd)"
| "cron_of_parts _ = None"

definition cron_trigger :: "string option \<Rightarrow> trigger option" where
  "cron_trigger e = (case e of Some x \<Rightarrow> if x = [] then None else cron_of_parts (py_words x) | None \<Rightarrow> None)"

definition sync_trigger :: "ResolvedPolicy \<Rightarrow> trigger option" where
  "sync_trigger effective =
     (case trigger_mode (rp_sync effective) of
        Some Trigger_interval \<Rightarrow>
          (case interval_minutes (rp_sync effective) of
             Some m \<Rightarrow> if m \<noteq> 0 then Some (Interval_minutes m) else None
           | None \<Rightarrow> None)
      | Some Trigger_cron \<Rightarrow> cron_trigger (sync_cron_expression (rp_sync effective))
      | _ \<Rightarrow> None)"

definition consolidation_trigger :: "ResolvedPolicy \<Rightarrow> trigger option" where
  "consolidation_trigger effective =
     (if strategy (rp_consolidation effective) = Some Consolidate_scheduled
      then cron_trigger (consolidation_cron_expression (rp_consolidation effective)) else None)"

text \<open>Building a trigger raises when the constructor rejects it; then nothing is added.\<close>

definition add_job :: "'s apscheduler \<Rightarrow> job \<Rightarrow> trigger \<Rightarrow> string \<Rightarrow> string list \<Rightarrow> 's \<Rightarrow> bool \<times> 's" where
  "add_job A j t i args s =
     (if aps_accepts A t then (True, aps_add A i \<lparr>sc_job = j, sc_trigger = t, sc_args = args\<rparr> s) else (False, s))"

definition register_sync_job ::
    "'s apscheduler \<Rightarrow> string \<Rightarrow> ChannelPolicy \<Rightarrow> GlobalPolicyDefaults \<Rightarrow> 's \<Rightarrow> bool \<times> 's" where
  "register_sync_job A channel_id policy defaults s =
     (case sync_trigger (resolve_policy (Some policy) defaults) of
        Some t \<Rightarrow> add_job A Execute_sync t (sync_id channel_id) [channel_id] s
      | None \<Rightarrow> (True, s))"

definition register_consolidation_job ::
    "'s apscheduler \<Rightarrow> string \<Rightarrow> ChannelPolicy \<Rightarrow> GlobalPolicyDefaults \<Rightarrow> 's \<Rightarrow> bool \<times> 's" where
  "register_consolidation_job A channel_id policy defaults s =
     (case consolidation_trigger (resolve_policy (Some policy) defaults) of
        Some t \<Rightarrow> add_job A Execute_consolidation t (consolidate_id channel_id) [channel_id] s
      | None \<Rightarrow> (True, s))"

definition register_jobs ::
    "'s apscheduler \<Rightarrow> string \<Rightarrow> ChannelPolicy \<Rightarrow> GlobalPolicyDefaults \<Rightarrow> 's \<Rightarrow> bool \<times> 's" where
  "register_jobs A channel_id policy defaults s =
     (case register_sync_job A channel_id policy defaults s of
        (True, s') \<Rightarrow> register_consolidation_job A channel_id policy defaults s'
      | (False, s') \<Rightarrow> (False, s'))"

definition remove_job :: "'s apscheduler \<Rightarrow> string \<Rightarrow> 's \<Rightarrow> 's" where
  "remove_job A job_id s = (case aps_remove A job_id s of Some s' \<Rightarrow> s' | None \<Rightarrow> s)"

definition remove_jobs :: "'s apscheduler \<Rightarrow> string \<Rightarrow> 's \<Rightarrow> 's" where
  "remove_jobs A channel_id s = fold (remove_job A) [sync_id channel_id, consolidate_id channel_id] s"

definition on_policy_changed ::
    "'s apscheduler \<Rightarrow> seconds \<Rightarrow> policy_world \<Rightarrow> string \<Rightarrow> 's SyncScheduler \<Rightarrow> bool \<times> 's SyncScheduler" where
  "on_policy_changed A now w channel_id S =
     (if \<not> sched_started S then (True, S)
      else
        let s = remove_jobs A channel_id (sched_store S) in
        case store_get_channel_policy w channel_id of
          Some policy \<Rightarrow>
            if cp_enabled policy then
              (case register_jobs A channel_id policy (store_get_global_defaults now w) s of (ok, s') \<Rightarrow> (ok, S\<lparr>sched_store := s'\<rparr>))
            else (True, S\<lparr>sched_store := s\<rparr>)
        | None \<Rightarrow> (True, S\<lparr>sched_store := s\<rparr>))"

definition deregister_channel_jobs :: "'s apscheduler \<Rightarrow> string \<Rightarrow> 's SyncScheduler \<Rightarrow> 's SyncScheduler" where
  "deregister_channel_jobs A channel_id S =
     (if sched_started S then S\<lparr>sched_store := remove_jobs A channel_id (sched_store S)\<rparr> else S)"

text \<open>The jobs that belong to no channel.\<close>

definition register_extraction_worker_jobs :: "'s apscheduler \<Rightarrow> int \<Rightarrow> int \<Rightarrow> 's \<Rightarrow> bool \<times> 's" where
  "register_extraction_worker_jobs A tick_seconds stale_seconds s =
     (case add_job A Extraction_tick (Interval_seconds tick_seconds) ''extraction:tick'' [] s of
        (True, s') \<Rightarrow> add_job A Extraction_sweep (Interval_seconds (max 60 (stale_seconds div 2))) ''extraction:sweep'' [] s'
      | (False, s') \<Rightarrow> (False, s'))"

definition register_purge_reaper_job :: "'s apscheduler \<Rightarrow> bool \<Rightarrow> int \<Rightarrow> 's \<Rightarrow> bool \<times> 's" where
  "register_purge_reaper_job A enabled interval_s s =
     (if enabled then add_job A Purge_reaper (Interval_seconds (max 30 interval_s)) ''purge:reaper'' [] s else (True, s))"

fun register_policies ::
    "'s apscheduler \<Rightarrow> GlobalPolicyDefaults \<Rightarrow> ChannelPolicy list \<Rightarrow> 's \<Rightarrow> bool \<times> 's" where
  "register_policies A defaults [] s = (True, s)"
| "register_policies A defaults (policy # policies) s =
     (if \<not> cp_enabled policy then register_policies A defaults policies s
      else case register_jobs A (cp_channel_id policy) policy defaults s of
        (True, s') \<Rightarrow> register_policies A defaults policies s'
      | (False, s') \<Rightarrow> (False, s'))"

record scheduler_settings =
  st_tick_seconds :: int
  st_stale_seconds :: int
  st_reaper_enabled :: bool
  st_reaper_interval :: int

definition SyncScheduler_init :: "'s \<Rightarrow> 's SyncScheduler" where
  "SyncScheduler_init data_store = \<lparr>sched_started = False, sched_store = data_store, global_semaphore = None\<rparr>"

definition startup ::
    "'s apscheduler \<Rightarrow> scheduler_settings \<Rightarrow> seconds \<Rightarrow> policy_world \<Rightarrow> 's SyncScheduler \<Rightarrow> bool \<times> 's SyncScheduler" where
  "startup A st now w S =
     (let defaults = store_get_global_defaults now w in
      if gd_max_concurrent_syncs defaults < 0 then (False, S)
      else
        let S = S\<lparr>global_semaphore := Some (gd_max_concurrent_syncs defaults)\<rparr> in
        case register_policies A defaults (map snd (pw_policies w)) (sched_store S) of
          (False, s) \<Rightarrow> (False, S\<lparr>sched_store := s\<rparr>)
        | (True, s) \<Rightarrow>
            (case register_extraction_worker_jobs A (st_tick_seconds st) (st_stale_seconds st) s of
               (False, s) \<Rightarrow> (False, S\<lparr>sched_store := s\<rparr>)
             | (True, s) \<Rightarrow>
                 (case register_purge_reaper_job A (st_reaper_enabled st) (st_reaper_interval st) s of
                    (ok, s) \<Rightarrow> (ok, S\<lparr>sched_store := s, sched_started := ok\<rparr>))))"

definition shutdown :: "'s SyncScheduler \<Rightarrow> 's SyncScheduler" where
  "shutdown S = (if sched_started S then S\<lparr>sched_started := False\<rparr> else S)"

text \<open>An acquire that has to wait is \<^verbatim>\<open>None\<close>.\<close>

definition acquire_sync_semaphore :: "'s SyncScheduler \<Rightarrow> 's SyncScheduler option" where
  "acquire_sync_semaphore S =
     (case global_semaphore S of
        None \<Rightarrow> Some S
      | Some n \<Rightarrow> if 0 < n then Some (S\<lparr>global_semaphore := Some (n - 1)\<rparr>) else None)"

definition release_sync_semaphore :: "'s SyncScheduler \<Rightarrow> 's SyncScheduler" where
  "release_sync_semaphore S =
     (case global_semaphore S of None \<Rightarrow> S | Some n \<Rightarrow> S\<lparr>global_semaphore := Some (n + 1)\<rparr>)"

text \<open>
  A scheduled sync: what it does, in order. \<open>purging\<close> and \<open>effective\<close> are the replies of the store
  (\<^verbatim>\<open>None\<close> when the call raises), \<open>last_sync\<close> the status lookup with the completion time of the last
  job, \<open>acquire\<close> whether the semaphore was obtained within the timeout. The start of the sync may
  raise, which changes nothing here: the permit is released either way.
\<close>

datatype sync_effect = Sem_acquire | Start_sync string | Sem_release

definition in_cooldown :: "seconds \<Rightarrow> ResolvedPolicy \<Rightarrow> seconds option \<Rightarrow> bool" where
  "in_cooldown now effective completed_at =
     (case min_sync_interval_minutes (rp_sync effective) of
        Some m \<Rightarrow> 0 < m \<and> (case completed_at of Some t \<Rightarrow> now - t < of_int (m * 60) | None \<Rightarrow> False)
      | None \<Rightarrow> False)"

definition needs_last_sync :: "ResolvedPolicy \<Rightarrow> bool" where
  "needs_last_sync effective =
     (case min_sync_interval_minutes (rp_sync effective) of Some m \<Rightarrow> 0 < m | None \<Rightarrow> False)"

definition scheduled_sync_type :: "ResolvedPolicy \<Rightarrow> string" where
  "scheduled_sync_type effective =
     (case sync_type (rp_sync effective) of Some x \<Rightarrow> if x = [] then ''auto'' else x | None \<Rightarrow> ''auto'')"

definition execute_sync ::
    "seconds \<Rightarrow> bool option \<Rightarrow> ResolvedPolicy option \<Rightarrow> seconds option option \<Rightarrow> bool \<Rightarrow> 's SyncScheduler \<Rightarrow> sync_effect list" where
  "execute_sync now purging effective last_sync acquire S =
     (case purging of
        None \<Rightarrow> []
      | Some True \<Rightarrow> []
      | Some False \<Rightarrow>
          (case effective of
             None \<Rightarrow> []
           | Some r \<Rightarrow>
               if needs_last_sync r \<and> (case last_sync of None \<Rightarrow> True | Some t \<Rightarrow> in_cooldown now r t) then []
               else case global_semaphore S of
                 None \<Rightarrow> [Start_sync (scheduled_sync_type r)]
               | Some n \<Rightarrow> if acquire then [Sem_acquire, Start_sync (scheduled_sync_type r), Sem_release] else []))"

section \<open>The policy handlers\<close>

record 's endpoint_world =
  ew_policies :: policy_world
  ew_scheduler :: "'s SyncScheduler option"

datatype endpoint_reply = Ok_200 | Refused http_error | Error_500

fun notify_channels ::
    "'s apscheduler \<Rightarrow> seconds \<Rightarrow> policy_world \<Rightarrow> string list \<Rightarrow> 's SyncScheduler \<Rightarrow> bool \<times> 's SyncScheduler" where
  "notify_channels A now w [] S = (True, S)"
| "notify_channels A now w (c # cs) S =
     (case on_policy_changed A now w c S of
        (True, S') \<Rightarrow> notify_channels A now w cs S'
      | (False, S') \<Rightarrow> (False, S'))"

text \<open>The tail of every handler: the write was refused, or the scheduler is told, when there is one.\<close>

definition after_write ::
    "'s apscheduler \<Rightarrow> seconds \<Rightarrow> string list \<Rightarrow> http_error + policy_world \<Rightarrow> 's endpoint_world \<Rightarrow> endpoint_reply \<times> 's endpoint_world" where
  "after_write A now channels written W =
     (case written of
        Inl e \<Rightarrow> (Refused e, W)
      | Inr w \<Rightarrow>
          (case ew_scheduler W of
             None \<Rightarrow> (Ok_200, W\<lparr>ew_policies := w\<rparr>)
           | Some S \<Rightarrow>
               (case notify_channels A now w channels S of
                  (ok, S') \<Rightarrow> (if ok then Ok_200 else Error_500, \<lparr>ew_policies = w, ew_scheduler = Some S'\<rparr>))))"

definition upsert_channel_policy ::
    "'s apscheduler \<Rightarrow> (string \<Rightarrow> bool) \<Rightarrow> string \<Rightarrow> seconds \<Rightarrow> string \<Rightarrow> PolicyUpdateRequest \<Rightarrow> 's endpoint_world \<Rightarrow>
     endpoint_reply \<times> 's endpoint_world" where
  "upsert_channel_policy A may_access new_id now channel_id body W =
     after_write A now [channel_id] (upsert_channel_policy_write may_access new_id now channel_id body (ew_policies W)) W"

definition delete_channel_policy ::
    "'s apscheduler \<Rightarrow> (string \<Rightarrow> bool) \<Rightarrow> seconds \<Rightarrow> string \<Rightarrow> 's endpoint_world \<Rightarrow> endpoint_reply \<times> 's endpoint_world" where
  "delete_channel_policy A may_access now channel_id W =
     after_write A now [channel_id] (delete_channel_policy_write may_access channel_id (ew_policies W)) W"

definition bulk_apply_policy ::
    "'s apscheduler \<Rightarrow> (string \<Rightarrow> bool) \<Rightarrow> (string \<Rightarrow> string) \<Rightarrow> seconds \<Rightarrow> string list \<Rightarrow> string \<Rightarrow> 's endpoint_world \<Rightarrow>
     endpoint_reply \<times> 's endpoint_world" where
  "bulk_apply_policy A may_access new_id now channel_ids preset W =
     after_write A now channel_ids (bulk_apply_policy_write may_access new_id now channel_ids preset (ew_policies W)) W"

section \<open>Schedules\<close>

text \<open>What the library promises of \<open>jobs\<close>, its view of the schedules by id.\<close>

definition aps_ok :: "'s apscheduler \<Rightarrow> ('s \<Rightarrow> string \<rightharpoonup> schedule) \<Rightarrow> bool" where
  "aps_ok A jobs \<longleftrightarrow>
     (\<forall>i j s. jobs (aps_add A i j s) = (if jobs s i = None then (jobs s)(i \<mapsto> j) else jobs s)) \<and>
     (\<forall>i s. case aps_remove A i s of None \<Rightarrow> jobs s i = None | Some s' \<Rightarrow> jobs s' = (jobs s)(i := None))"

lemma aps_add_jobs: "aps_ok A jobs \<Longrightarrow> jobs s i = None \<Longrightarrow> jobs (aps_add A i j s) = (jobs s)(i \<mapsto> j)"
  by (simp add: aps_ok_def)

lemma aps_add_other: "aps_ok A jobs \<Longrightarrow> k \<noteq> i \<Longrightarrow> jobs (aps_add A i j s) k = jobs s k"
  by (simp add: aps_ok_def)

lemma remove_job_jobs: "aps_ok A jobs \<Longrightarrow> jobs (remove_job A i s) = (jobs s)(i := None)"
proof -
  assume "aps_ok A jobs"
  then have "case aps_remove A i s of None \<Rightarrow> jobs s i = None | Some s' \<Rightarrow> jobs s' = (jobs s)(i := None)"
    unfolding aps_ok_def by blast
  then show ?thesis by (auto simp: remove_job_def fun_eq_iff split: option.splits)
qed

lemma ids [simp]:
  "sync_id a = sync_id b \<longleftrightarrow> a = b" "consolidate_id a = consolidate_id b \<longleftrightarrow> a = b"
  "sync_id a \<noteq> consolidate_id b" "consolidate_id a \<noteq> sync_id b"
  by (simp_all add: sync_id_def consolidate_id_def)

lemma ids_image:
  "k \<notin> X \<Longrightarrow> sync_id k \<notin> sync_id ` X \<union> consolidate_id ` X"
  "k \<notin> X \<Longrightarrow> consolidate_id k \<notin> sync_id ` X \<union> consolidate_id ` X"
  by auto

definition fixed_ids :: "string list" where
  "fixed_ids = [''extraction:tick'', ''extraction:sweep'', ''purge:reaper'']"

lemma fixed_ids_apart: "sync_id c \<notin> set fixed_ids" "consolidate_id c \<notin> set fixed_ids"
  by (simp_all add: fixed_ids_def sync_id_def consolidate_id_def)

lemma remove_jobs_jobs:
  "aps_ok A jobs \<Longrightarrow> jobs (remove_jobs A c s) = (jobs s)(sync_id c := None, consolidate_id c := None)"
  by (simp add: remove_jobs_def remove_job_jobs fun_eq_iff)

text \<open>
  The schedules that a policy asks for. A trigger that its constructor rejects gives none, and a
  rejected sync trigger also keeps the consolidation job from being registered.
\<close>

definition sync_schedule :: "'s apscheduler \<Rightarrow> GlobalPolicyDefaults \<Rightarrow> string \<Rightarrow> ChannelPolicy option \<Rightarrow> schedule option" where
  "sync_schedule A d c policy =
     (case policy of
        Some p \<Rightarrow>
          (case sync_trigger (resolve_policy (Some p) d) of
             Some t \<Rightarrow> if cp_enabled p \<and> aps_accepts A t then Some \<lparr>sc_job = Execute_sync, sc_trigger = t, sc_args = [c]\<rparr> else None
           | None \<Rightarrow> None)
      | None \<Rightarrow> None)"

definition sync_rejected :: "'s apscheduler \<Rightarrow> GlobalPolicyDefaults \<Rightarrow> ChannelPolicy \<Rightarrow> bool" where
  "sync_rejected A d p =
     (case sync_trigger (resolve_policy (Some p) d) of Some t \<Rightarrow> \<not> aps_accepts A t | None \<Rightarrow> False)"

definition consolidation_schedule :: "'s apscheduler \<Rightarrow> GlobalPolicyDefaults \<Rightarrow> string \<Rightarrow> ChannelPolicy option \<Rightarrow> schedule option" where
  "consolidation_schedule A d c policy =
     (case policy of
        Some p \<Rightarrow>
          (case consolidation_trigger (resolve_policy (Some p) d) of
             Some t \<Rightarrow>
               if cp_enabled p \<and> \<not> sync_rejected A d p \<and> aps_accepts A t
               then Some \<lparr>sc_job = Execute_consolidation, sc_trigger = t, sc_args = [c]\<rparr> else None
           | None \<Rightarrow> None)
      | None \<Rightarrow> None)"

lemmas schedule_defs = sync_schedule_def consolidation_schedule_def sync_rejected_def

lemmas registration_defs = register_jobs_def register_sync_job_def register_consolidation_job_def add_job_def

text \<open>Registration with both ids free gives exactly these schedules, also when it raises.\<close>

lemma register_jobs_schedules:
  assumes "aps_ok A jobs" "jobs s (sync_id c) = None" "jobs s (consolidate_id c) = None" "cp_enabled p"
  shows "jobs (snd (register_jobs A c p d s)) =
    (jobs s)(sync_id c := sync_schedule A d c (Some p), consolidate_id c := consolidation_schedule A d c (Some p))"
  using assms(2-4)
  by (auto simp: registration_defs schedule_defs aps_add_jobs [OF assms(1)] aps_add_other [OF assms(1)] fun_eq_iff
      split: option.splits)

text \<open>The jobs of a channel are those that its stored policy asks for.\<close>

definition in_step :: "'s apscheduler \<Rightarrow> ('s \<Rightarrow> string \<rightharpoonup> schedule) \<Rightarrow> policy_world \<Rightarrow> 's SyncScheduler \<Rightarrow> string \<Rightarrow> bool" where
  "in_step A jobs w S c \<longleftrightarrow>
     jobs (sched_store S) (sync_id c) = sync_schedule A (store_get_global_defaults 0 w) c (store_get_channel_policy w c) \<and>
     jobs (sched_store S) (consolidate_id c) = consolidation_schedule A (store_get_global_defaults 0 w) c (store_get_channel_policy w c)"

lemma schedules_now:
  "sync_schedule A (store_get_global_defaults now w) c p = sync_schedule A (store_get_global_defaults 0 w) c p"
  "consolidation_schedule A (store_get_global_defaults now w) c p = consolidation_schedule A (store_get_global_defaults 0 w) c p"
  unfolding schedule_defs resolve_same_config [OF stored_defaults_now [of now w 0]] by (rule refl)+

lemma on_policy_changed_jobs:
  assumes "aps_ok A jobs" "sched_started S"
  shows "jobs (sched_store (snd (on_policy_changed A now w c S))) =
    (jobs (sched_store S))(sync_id c := sync_schedule A (store_get_global_defaults 0 w) c (store_get_channel_policy w c),
       consolidate_id c := consolidation_schedule A (store_get_global_defaults 0 w) c (store_get_channel_policy w c))"
proof -
  let ?s = "remove_jobs A c (sched_store S)"
  note removed = remove_jobs_jobs [OF assms(1), of c "sched_store S"]
  show ?thesis
  proof (cases "\<exists>p. store_get_channel_policy w c = Some p \<and> cp_enabled p")
    case True
    then obtain p where p: "store_get_channel_policy w c = Some p" "cp_enabled p" by blast
    have "jobs (snd (register_jobs A c p (store_get_global_defaults now w) ?s)) =
        (jobs ?s)(sync_id c := sync_schedule A (store_get_global_defaults 0 w) c (Some p),
          consolidate_id c := consolidation_schedule A (store_get_global_defaults 0 w) c (Some p))"
      using register_jobs_schedules [OF assms(1), of ?s c p "store_get_global_defaults now w"] p(2) removed
      by (simp add: schedules_now [of A now w c "Some p"])
    with p assms(2) removed show ?thesis
      by (simp add: on_policy_changed_def Let_def split: prod.split) (auto simp: fun_eq_iff)
  next
    case False
    with assms(2) removed show ?thesis
      by (auto simp: on_policy_changed_def Let_def sync_schedule_def consolidation_schedule_def split: option.splits)
  qed
qed

lemma on_policy_changed_started [simp]: "sched_started (snd (on_policy_changed A now w c S)) = sched_started S"
  by (auto simp: on_policy_changed_def Let_def split: option.split prod.split)

lemma on_policy_changed_in_step:
  assumes "aps_ok A jobs" "sched_started S" "k \<noteq> c \<longrightarrow> in_step A jobs w S k"
  shows "in_step A jobs w (snd (on_policy_changed A now w c S)) k"
  using assms(3) by (auto simp: in_step_def on_policy_changed_jobs [OF assms(1,2)])

lemma notify_started [simp]: "sched_started (snd (notify_channels A now w cs S)) = sched_started S"
proof (induction cs arbitrary: S)
  case (Cons c cs)
  obtain ok S' where r: "on_policy_changed A now w c S = (ok, S')" by (cases "on_policy_changed A now w c S")
  have "sched_started S' = sched_started S" using on_policy_changed_started [of A now w c S] unfolding r by simp
  then show ?case using Cons.IH [of S'] by (cases ok) (simp_all only: notify_channels.simps r prod.case bool.case snd_conv)
qed simp

text \<open>A handler that tells the scheduler about the channels it wrote.\<close>

lemma notify_in_step:
  assumes "aps_ok A jobs"
  shows "sched_started S \<Longrightarrow> fst (notify_channels A now w cs S) \<or> (\<exists>c. cs = [c]) \<Longrightarrow>
    k \<notin> set cs \<longrightarrow> in_step A jobs w S k \<Longrightarrow> in_step A jobs w (snd (notify_channels A now w cs S)) k"
proof (induction cs arbitrary: S)
  case (Cons c cs)
  obtain ok S' where r: "on_policy_changed A now w c S = (ok, S')" by (cases "on_policy_changed A now w c S")
  have started: "sched_started S'" using on_policy_changed_started [of A now w c S] Cons.prems(1) unfolding r by simp
  have step: "k \<noteq> c \<longrightarrow> in_step A jobs w S k \<Longrightarrow> in_step A jobs w S' k"
    using on_policy_changed_in_step [OF assms Cons.prems(1), of k c w now] unfolding r by simp
  show ?case
  proof (cases "cs = []")
    case True
    then show ?thesis using step Cons.prems(3) by (cases ok) (simp_all add: r)
  next
    case False
    then have ok: "ok" "fst (notify_channels A now w cs S')" using Cons.prems(2) by (cases ok; simp add: r)+
    have "k \<notin> set cs \<longrightarrow> in_step A jobs w S' k" using step Cons.prems(3) by auto
    with Cons.IH [OF started] ok show ?thesis by (simp add: r)
  qed
qed simp

lemma in_step_cong:
  "store_get_channel_policy w' k = store_get_channel_policy w k \<Longrightarrow>
     store_get_global_defaults 0 w' = store_get_global_defaults 0 w \<Longrightarrow> in_step A jobs w S k = in_step A jobs w' S k"
  by (simp add: in_step_def)

text \<open>What a write touches.\<close>

definition writes_only :: "string list \<Rightarrow> policy_world \<Rightarrow> policy_world \<Rightarrow> bool" where
  "writes_only cs w w' \<longleftrightarrow> pw_defaults w' = pw_defaults w \<and>
     (\<forall>k. k \<notin> set cs \<longrightarrow> store_get_channel_policy w' k = store_get_channel_policy w k) \<and> (keys_ok w \<longrightarrow> keys_ok w')"

lemma writes_only_trans: "writes_only cs w w' \<Longrightarrow> writes_only cs' w' w'' \<Longrightarrow> writes_only (cs @ cs') w w''"
  by (simp add: writes_only_def)

lemma writes_only_upsert: "cp_channel_id p = c \<Longrightarrow> writes_only [c] w (store_upsert_channel_policy now p w)"
  by (auto simp: writes_only_def store_upsert_channel_policy_def store_get_channel_policy_def keys_ok_def)

lemma writes_only_upsert_request:
  assumes "upsert_channel_policy_write acc i now c body w = Inr w'" "keys_ok w"
  shows "writes_only [c] w w'"
  using assms
  by (auto simp: upsert_channel_policy_write_def fresh_policy_def keys_ok_def store_get_channel_policy_def
      intro!: writes_only_upsert split: option.splits if_splits)

lemma writes_only_delete_request:
  "delete_channel_policy_write acc c w = Inr w' \<Longrightarrow> writes_only [c] w w'"
  by (auto simp: delete_channel_policy_write_def writes_only_def store_get_channel_policy_def keys_ok_def split: if_splits)

lemma writes_only_bulk_one: "keys_ok w \<Longrightarrow> writes_only [c] w (bulk_apply_one i now preset p c w)"
  unfolding bulk_apply_one_def
  by (rule writes_only_upsert)
     (auto simp: fresh_policy_def keys_ok_def store_get_channel_policy_def split: option.splits)

lemma writes_only_bulk: "keys_ok w \<Longrightarrow> writes_only cs w (fold (bulk_apply_one i now preset p) cs w)"
proof (induction cs arbitrary: w)
  case (Cons c cs)
  note one = writes_only_bulk_one [OF Cons.prems, of c i now preset p]
  then have "keys_ok (bulk_apply_one i now preset p c w)" using Cons.prems by (simp add: writes_only_def)
  from writes_only_trans [OF one Cons.IH [OF this]] show ?case by simp
qed (simp add: writes_only_def)

lemma writes_only_bulk_request:
  "bulk_apply_policy_write acc i now cs preset w = Inr w' \<Longrightarrow> keys_ok w \<Longrightarrow> writes_only cs w w'"
  by (auto simp: bulk_apply_policy_write_def writes_only_bulk split: option.splits if_splits)

text \<open>The invariant of a running service.\<close>

definition schedules_ok :: "'s apscheduler \<Rightarrow> ('s \<Rightarrow> string \<rightharpoonup> schedule) \<Rightarrow> 's endpoint_world \<Rightarrow> bool" where
  "schedules_ok A jobs W \<longleftrightarrow> keys_ok (ew_policies W) \<and>
     (\<exists>S. ew_scheduler W = Some S \<and> sched_started S \<and> (\<forall>k. in_step A jobs (ew_policies W) S k))"

lemma after_write_ok:
  assumes "aps_ok A jobs" "schedules_ok A jobs W" "\<And>w. written = Inr w \<Longrightarrow> writes_only cs (ew_policies W) w"
    "fst (after_write A now cs written W) \<noteq> Error_500 \<or> (\<exists>c. cs = [c])"
  shows "schedules_ok A jobs (snd (after_write A now cs written W))"
proof (cases written)
  case (Inl e)
  with assms(2) show ?thesis by (simp add: after_write_def)
next
  case (Inr w')
  from assms(2) obtain S where S: "ew_scheduler W = Some S" "sched_started S" "\<And>k. in_step A jobs (ew_policies W) S k"
    and keys: "keys_ok (ew_policies W)" by (auto simp: schedules_ok_def)
  obtain ok S' where r: "notify_channels A now w' cs S = (ok, S')" by (cases "notify_channels A now w' cs S")
  have w: "writes_only cs (ew_policies W) w'" using assms(3) Inr by simp
  then have "store_get_global_defaults 0 w' = store_get_global_defaults 0 (ew_policies W)"
    by (simp add: writes_only_def store_get_global_defaults_def)
  then have "k \<notin> set cs \<longrightarrow> in_step A jobs w' S k" for k
    using S(3) [of k] in_step_cong [of w' k "ew_policies W" A jobs S] w by (simp add: writes_only_def)
  moreover have "fst (notify_channels A now w' cs S) \<or> (\<exists>c. cs = [c])"
    using assms(4) Inr S(1) by (auto simp: after_write_def r split: if_splits)
  ultimately have "in_step A jobs w' S' k" for k
    using notify_in_step [OF assms(1) S(2), of now w' cs k] r by simp
  moreover have "sched_started S'" using S(2) notify_started [of A now w' cs S] r by simp
  ultimately show ?thesis using w keys S(1) Inr
    by (auto simp: schedules_ok_def after_write_def r writes_only_def)
qed

text \<open>The requests that change channel policies.\<close>

datatype endpoint_request =
    Put_policy "string \<Rightarrow> bool" string seconds string PolicyUpdateRequest
  | Remove_policy "string \<Rightarrow> bool" seconds string
  | Bulk_policy "string \<Rightarrow> bool" "string \<Rightarrow> string" seconds "string list" string

fun endpoint_step :: "'s apscheduler \<Rightarrow> endpoint_request \<Rightarrow> 's endpoint_world \<Rightarrow> endpoint_reply \<times> 's endpoint_world" where
  "endpoint_step A (Put_policy acc i now c body) W = upsert_channel_policy A acc i now c body W"
| "endpoint_step A (Remove_policy acc now c) W = delete_channel_policy A acc now c W"
| "endpoint_step A (Bulk_policy acc i now cs preset) W = bulk_apply_policy A acc i now cs preset W"

text \<open>No bulk request breaks off while it notifies the scheduler.\<close>

fun bulk_answered :: "'s apscheduler \<Rightarrow> endpoint_request \<Rightarrow> 's endpoint_world \<Rightarrow> bool" where
  "bulk_answered A (Bulk_policy acc i now cs preset) W = (fst (bulk_apply_policy A acc i now cs preset W) \<noteq> Error_500)"
| "bulk_answered A _ W = True"

lemma endpoint_step_ok:
  assumes "schedules_ok A jobs W" "aps_ok A jobs \<and> bulk_answered A e W"
  shows "schedules_ok A jobs (snd (endpoint_step A e W))"
proof -
  have keys: "keys_ok (ew_policies W)" using assms(1) by (simp add: schedules_ok_def)
  show ?thesis
  proof (cases e)
    case (Put_policy acc i now c body)
    then show ?thesis
      using after_write_ok [OF conjunct1 [OF assms(2)] assms(1), where cs = "[c]"] writes_only_upsert_request keys
      by (simp add: upsert_channel_policy_def)
  next
    case (Remove_policy acc now c)
    then show ?thesis
      using after_write_ok [OF conjunct1 [OF assms(2)] assms(1), where cs = "[c]"] writes_only_delete_request
      by (simp add: delete_channel_policy_def)
  next
    case (Bulk_policy acc i now cs preset)
    then show ?thesis
      using after_write_ok [OF conjunct1 [OF assms(2)] assms(1), where cs = cs] writes_only_bulk_request keys assms(2)
      by (simp add: bulk_apply_policy_def)
  qed
qed

interpretation endpoint_machine:
  invariant_machine "\<lambda>e W. snd (endpoint_step A e W)" "\<lambda>e W. aps_ok A jobs \<and> bulk_answered A e W" "schedules_ok A jobs" for A jobs
  by unfold_locales (rule endpoint_step_ok)

section \<open>Start-up\<close>

lemma add_job_other: "aps_ok A jobs \<Longrightarrow> k \<noteq> i \<Longrightarrow> jobs (snd (add_job A j t i args s)) k = jobs s k"
  by (simp add: add_job_def aps_add_other)

lemma register_jobs_other:
  "aps_ok A jobs \<Longrightarrow> i \<noteq> sync_id c \<Longrightarrow> i \<noteq> consolidate_id c \<Longrightarrow> jobs (snd (register_jobs A c p d s)) i = jobs s i"
  by (auto simp: registration_defs aps_add_other split: option.split)

lemma register_policies_jobs:
  assumes "aps_ok A jobs"
  shows "distinct (map cp_channel_id ps) \<Longrightarrow> \<forall>p \<in> set ps. jobs s (sync_id (cp_channel_id p)) = None \<and> jobs s (consolidate_id (cp_channel_id p)) = None \<Longrightarrow>
    register_policies A d ps s = (True, s') \<Longrightarrow>
    (\<forall>p \<in> set ps. jobs s' (sync_id (cp_channel_id p)) = sync_schedule A d (cp_channel_id p) (Some p) \<and>
       jobs s' (consolidate_id (cp_channel_id p)) = consolidation_schedule A d (cp_channel_id p) (Some p)) \<and>
    (\<forall>i. i \<notin> sync_id ` cp_channel_id ` set ps \<union> consolidate_id ` cp_channel_id ` set ps \<longrightarrow> jobs s' i = jobs s i)"
proof (induction ps arbitrary: s)
  case (Cons p ps)
  let ?c = "cp_channel_id p"
  show ?case
  proof (cases "cp_enabled p")
    case False
    with Cons.prems have run: "register_policies A d ps s = (True, s')" by simp
    note rest = Cons.IH [OF _ _ run]
    have "?c \<notin> cp_channel_id ` set ps" using Cons.prems(1) by simp
    from ids_image [OF this] have "jobs s' (sync_id ?c) = None \<and> jobs s' (consolidate_id ?c) = None"
      using rest Cons.prems(1,2) by simp
    moreover have "sync_schedule A d ?c (Some p) = None" "consolidation_schedule A d ?c (Some p) = None"
      using False by (simp_all add: schedule_defs split: option.split)
    ultimately show ?thesis using Cons.IH [OF _ _ run] Cons.prems(1,2) by auto
  next
    case True
    obtain s1 where r: "register_jobs A ?c p d s = (True, s1)" and run: "register_policies A d ps s1 = (True, s')"
      using True Cons.prems(3) by (auto split: prod.splits bool.splits)
    have s1: "jobs s1 = (jobs s)(sync_id ?c := sync_schedule A d ?c (Some p), consolidate_id ?c := consolidation_schedule A d ?c (Some p))"
      using register_jobs_schedules [OF assms, of s ?c p d] True Cons.prems(2) r by simp
    have apart: "\<forall>q \<in> set ps. cp_channel_id q \<noteq> ?c" using Cons.prems(1) by (auto simp: image_iff)
    have free: "\<forall>q \<in> set ps. jobs s1 (sync_id (cp_channel_id q)) = None \<and> jobs s1 (consolidate_id (cp_channel_id q)) = None"
      using Cons.prems(2) apart by (simp add: s1)
    from Cons.IH [OF _ free run] Cons.prems(1) apart show ?thesis by (auto simp: s1 image_iff)
  qed
qed simp

lemma stored_policies: "keys_ok w \<Longrightarrow> dict_ok (pw_policies w) \<Longrightarrow> (c, p) \<in> set (pw_policies w) \<Longrightarrow> cp_channel_id p = c"
  by (auto simp: keys_ok_def)

lemma startup_in_step:
  assumes "aps_ok A jobs" "jobs s = Map.empty" "keys_ok w" "dict_ok (pw_policies w)"
    "startup A st now w (SyncScheduler_init s) = (True, S)"
  shows "sched_started S \<and> (\<forall>k. in_step A jobs w S k)"
proof -
  let ?d = "store_get_global_defaults now w" and ?ps = "map snd (pw_policies w)"
  obtain s1 s2 s3 where s1: "register_policies A ?d ?ps s = (True, s1)"
    and s2: "register_extraction_worker_jobs A (st_tick_seconds st) (st_stale_seconds st) s1 = (True, s2)"
    and s3: "register_purge_reaper_job A (st_reaper_enabled st) (st_reaper_interval st) s2 = (True, s3)"
    and S: "sched_store S = s3" "sched_started S"
    using assms(5) by (auto simp: startup_def SyncScheduler_init_def Let_def split: if_splits prod.splits bool.splits)
  have same: "map cp_channel_id ?ps = map fst (pw_policies w)"
    using stored_policies [OF assms(3,4)] by auto
  have fixed: "jobs s3 i = jobs s1 i" if "i \<notin> set fixed_ids" for i
    using that s2 s3 add_job_other [OF assms(1)]
    by (auto simp: register_extraction_worker_jobs_def register_purge_reaper_job_def fixed_ids_def
        split: prod.splits bool.splits if_splits) (metis snd_conv)+
  have reg: "\<forall>p \<in> set ?ps. jobs s1 (sync_id (cp_channel_id p)) = sync_schedule A ?d (cp_channel_id p) (Some p) \<and>
       jobs s1 (consolidate_id (cp_channel_id p)) = consolidation_schedule A ?d (cp_channel_id p) (Some p)"
    "\<forall>i. i \<notin> sync_id ` cp_channel_id ` set ?ps \<union> consolidate_id ` cp_channel_id ` set ?ps \<longrightarrow> jobs s1 i = jobs s i"
    using register_policies_jobs [OF assms(1) _ _ s1] assms(2) assms(4) [folded same] by simp_all
  have "in_step A jobs w S k" for k
  proof (cases "map_of (pw_policies w) k")
    case (Some p)
    from map_of_SomeD [OF this] have "p \<in> set ?ps" by force
    moreover have "cp_channel_id p = k" using Some assms(3) by (simp add: keys_ok_def)
    ultimately show ?thesis
      using bspec [OF reg(1), of p] Some S(1) fixed fixed_ids_apart
      by (simp add: in_step_def store_get_channel_policy_def schedules_now [of A now w k "Some p"])
  next
    case None
    then have "k \<notin> cp_channel_id ` set ?ps"
      using arg_cong [OF same, of set] by (simp add: map_of_eq_None_iff image_image)
    note ids_image [OF this]
    with reg(2) None S(1) fixed fixed_ids_apart assms(2) show ?thesis
      by (simp add: in_step_def store_get_channel_policy_def sync_schedule_def consolidation_schedule_def)
  qed
  with S(2) show ?thesis by blast
qed

text \<open>One rejected trigger ends the start-up before any job of the service itself is registered.\<close>

lemma register_jobs_ok:
  "fst (register_jobs A c p d s) \<longleftrightarrow>
     \<not> sync_rejected A d p \<and> (case consolidation_trigger (resolve_policy (Some p) d) of Some t \<Rightarrow> aps_accepts A t | None \<Rightarrow> True)"
  by (auto simp: registration_defs sync_rejected_def split: option.split)

lemma register_policies_aborts:
  "p \<in> set ps \<Longrightarrow> cp_enabled p \<Longrightarrow> sync_rejected A d p \<Longrightarrow> \<not> fst (register_policies A d ps s)"
proof (induction ps arbitrary: s)
  case (Cons q ps)
  have "\<not> fst (register_jobs A (cp_channel_id q) q d s)" if "q = p" "cp_enabled q"
    using that Cons.prems(3) by (simp add: register_jobs_ok)
  with Cons show ?case by (auto split: prod.split bool.split)
qed simp

lemma register_policies_fixed:
  assumes "aps_ok A jobs" "i \<in> set fixed_ids"
  shows "jobs (snd (register_policies A d ps s)) i = jobs s i"
proof (induction ps arbitrary: s)
  case (Cons p ps)
  have "jobs (snd (register_jobs A (cp_channel_id p) p d s)) i = jobs s i"
    using register_jobs_other [OF assms(1)] assms(2) fixed_ids_apart by metis
  with Cons show ?case by (auto split: prod.split bool.split)
qed simp

lemma startup_aborts:
  assumes "aps_ok A jobs" "(c, p) \<in> set (pw_policies w)" "cp_enabled p"
    "sync_rejected A (store_get_global_defaults now w) p" "i \<in> set fixed_ids"
  shows "\<not> fst (startup A st now w S) \<and> sched_started (snd (startup A st now w S)) = sched_started S \<and>
    jobs (sched_store (snd (startup A st now w S))) i = jobs (sched_store S) i"
proof -
  let ?r = "register_policies A (store_get_global_defaults now w) (map snd (pw_policies w)) (sched_store S)"
  have "p \<in> set (map snd (pw_policies w))" using assms(2) by force
  then have r: "\<not> fst ?r" "jobs (snd ?r) i = jobs (sched_store S) i"
    using register_policies_aborts [OF _ assms(3,4)] register_policies_fixed [OF assms(1,5)] by blast+
  obtain s' where "?r = (False, s')" using r(1) by (cases ?r) auto
  with r(2) show ?thesis by (simp add: startup_def Let_def)
qed

section \<open>Scheduled syncs\<close>

fun sem_after :: "sync_effect list \<Rightarrow> int \<Rightarrow> int" where
  "sem_after [] n = n"
| "sem_after (Sem_acquire # es) n = sem_after es (n - 1)"
| "sem_after (Sem_release # es) n = sem_after es (n + 1)"
| "sem_after (Start_sync t # es) n = sem_after es n"

section \<open>Properties\<close>


text \<open>A schedule store kept in a dictionary; it rejects a cron trigger whose minute is 99.\<close>

definition dict_scheduler :: "(string, schedule) dict apscheduler" where
  "dict_scheduler =
     \<lparr>aps_add = (\<lambda>i j s. if map_of s i = None then s @ [(i, j)] else s),
      aps_remove = (\<lambda>i s. if map_of s i = None then None else Some (AList.delete i s)),
      aps_accepts = (\<lambda>t. case t of Cron_trigger mi h d mo wd \<Rightarrow> mi \<noteq> ''99'' | _ \<Rightarrow> True)\<rparr>"

lemma dict_scheduler_ok: "aps_ok dict_scheduler map_of"
  by (auto simp: aps_ok_def dict_scheduler_def fun_eq_iff map_add_def delete_conv' split: option.split)

definition sample_scheduler_settings :: scheduler_settings where
  "sample_scheduler_settings = \<lparr>st_tick_seconds = 10, st_stale_seconds = 600, st_reaper_enabled = True, st_reaper_interval = 300\<rparr>"

definition cron_request :: "string \<Rightarrow> PolicyUpdateRequest" where
  "cron_request e = \<lparr>pu_preset = None, pu_sync = Some (SyncConfig_empty\<lparr>trigger_mode := Some Trigger_cron, sync_cron_expression := Some e\<rparr>),
     pu_ingestion = None, pu_consolidation = None, pu_enabled = None\<rparr>"

definition started_on_nothing :: "(string, schedule) dict SyncScheduler" where
  "started_on_nothing = snd (startup dict_scheduler sample_scheduler_settings 0 empty_world (SyncScheduler_init []))"

definition cron_then_bad_cron :: "endpoint_request list" where
  "cron_then_bad_cron =
     [Put_policy (\<lambda>_. True) ''p'' 1 ''c'' (cron_request ''5 * * * *''), Put_policy (\<lambda>_. True) ''q'' 2 ''d'' (cron_request ''99 * * * *''),
      Remove_policy (\<lambda>_. True) 3 ''c'']"



text \<open>
  The endpoint checks only that an expression has five fields, so such a policy can be stored: the
  request is answered with an error, but its write stays.
\<close>

definition after_bad_cron :: "endpoint_reply \<times> (string, schedule) dict endpoint_world" where
  "after_bad_cron = upsert_channel_policy dict_scheduler (\<lambda>_. True) ''p'' 1 ''c'' (cron_request ''99 * * * *'')
     \<lparr>ew_policies = empty_world, ew_scheduler = Some started_on_nothing\<rparr>"

definition stored_bad_policy :: ChannelPolicy where
  "stored_bad_policy = snd (hd (pw_policies (ew_policies (snd after_bad_cron))))"


text \<open>
  A change of the defaults does not reach the timers: the handler never tells the scheduler, so a
  channel that inherits its interval keeps the old schedule until its own policy is written again.
\<close>

definition inherits_interval :: PolicyUpdateRequest where
  "inherits_interval = \<lparr>pu_preset = None, pu_sync = Some (SyncConfig_empty\<lparr>trigger_mode := Some Trigger_interval\<rparr>),
     pu_ingestion = None, pu_consolidation = None, pu_enabled = None\<rparr>"

definition default_interval :: "int \<Rightarrow> GlobalDefaultsUpdateRequest" where
  "default_interval n = \<lparr>gu_sync = Some (SyncConfig_empty\<lparr>interval_minutes := Some n\<rparr>), gu_ingestion = None,
     gu_consolidation = None, gu_max_concurrent_syncs = None\<rparr>"

definition channel_on_defaults :: "(string, schedule) dict endpoint_world" where
  "channel_on_defaults = snd (upsert_channel_policy dict_scheduler (\<lambda>_. True) ''p'' 1 ''c'' inherits_interval
     \<lparr>ew_policies = applied (update_global_defaults 0 (default_interval 60) empty_world) empty_world, ew_scheduler = Some started_on_nothing\<rparr>)"

theorem defaults_update_leaves_schedules:
  "in_step dict_scheduler map_of (ew_policies channel_on_defaults) (the (ew_scheduler channel_on_defaults)) ''c'' \<and>
   \<not> in_step dict_scheduler map_of
     (applied (update_global_defaults 2 (default_interval 5) (ew_policies channel_on_defaults)) empty_world)
     (the (ew_scheduler channel_on_defaults)) ''c''"
  by code_simp

text \<open>
  A scheduled sync is started only for a channel that is not being purged and whose last
  sync is at least the cooldown ago, and it gives back every permit that it takes, whatever fails.
\<close>

theorem scheduled_sync_guarded:
  "sem_after (execute_sync now purging effective last_sync acquire S) n = n \<and>
   (Start_sync t \<in> set (execute_sync now purging effective last_sync acquire S) \<longrightarrow>
      purging = Some False \<and>
      (\<exists>r. effective = Some r \<and> (\<forall>m done_at. min_sync_interval_minutes (rp_sync r) = Some m \<and> 0 < m \<and>
         last_sync = Some (Some done_at) \<longrightarrow> done_at + of_int (m * 60) \<le> now)))"
proof (cases "purging = Some False")
  case True
  then show ?thesis
    by (cases effective) (auto simp: execute_sync_def in_cooldown_def needs_last_sync_def split: option.splits if_splits)
next
  case False
  then have "execute_sync now purging effective last_sync acquire S = []"
    by (auto simp: execute_sync_def split: option.split bool.split)
  then show ?thesis by simp
qed

theorem scheduled_sync_guarded_witness:
  "sem_after (execute_sync 1000 (Some False) (Some (resolve_policy None (GlobalPolicyDefaults_default 0))) (Some (Some 900)) True started_on_nothing) 2 = 2 \<and>
   execute_sync 1000 (Some False) (Some (resolve_policy None (GlobalPolicyDefaults_default 0))) (Some (Some 700)) True started_on_nothing
     = [Sem_acquire, Start_sync ''auto'', Sem_release]"
proof
  show "sem_after (execute_sync 1000 (Some False) (Some (resolve_policy None (GlobalPolicyDefaults_default 0))) (Some (Some 900)) True started_on_nothing) 2 = 2"
    using scheduled_sync_guarded by blast
  show "execute_sync 1000 (Some False) (Some (resolve_policy None (GlobalPolicyDefaults_default 0))) (Some (Some 700)) True started_on_nothing
     = [Sem_acquire, Start_sync ''auto'', Sem_release]" by code_simp
qed

end
