(* ===== verification/Loader_Token.thy ===== *)
theory Loader_Token
  imports Py_Json
begin

text \<open>
  The signed tokens of \<^verbatim>\<open>infra/loader_token.py\<close> that stand in for an API key in the URLs a browser
  loads by itself. Bytes are characters. \<^verbatim>\<open>base64\<close> is modelled as the standard library does it: the
  decoder skips characters outside the alphabet and stops at the padding. HMAC-SHA256 is a
  parameter, a function of the secret and the signed text; so are \<^verbatim>\<open>json.loads\<close> on bytes that are not
  plain ASCII and the comparison of a float claim with the clock. The token format needs no property of
  these parameters.
\<close>

section \<open>Base64\<close>

definition b64_char :: "nat \<Rightarrow> char" where
  "b64_char n =
     (if n < 26 then char_of (65 + n) else if n < 52 then char_of (71 + n) else if n < 62 then char_of (n - 4)
      else if n = 62 then CHR ''-'' else CHR ''_'')"

text \<open>The decoder maps the two URL characters to the standard ones first, and reads both.\<close>

definition b64_value :: "char \<Rightarrow> nat option" where
  "b64_value c = (let n = ord c in
     if 65 \<le> n \<and> n \<le> 90 then Some (n - 65) else if 97 \<le> n \<and> n \<le> 122 then Some (n - 71)
     else if 48 \<le> n \<and> n \<le> 57 then Some (n + 4)
     else if c = CHR ''-'' \<or> c = CHR ''+'' then Some 62 else if c = CHR ''_'' \<or> c = CHR ''/'' then Some 63 else None)"

abbreviation b64_pad :: char where
  "b64_pad \<equiv> CHR ''=''"

fun urlsafe_b64encode :: "string \<Rightarrow> string" where
  "urlsafe_b64encode [] = []"
| "urlsafe_b64encode [a] = [b64_char (ord a div 4), b64_char (ord a mod 4 * 16), b64_pad, b64_pad]"
| "urlsafe_b64encode [a, b] =
     [b64_char (ord a div 4), b64_char (ord a mod 4 * 16 + ord b div 16), b64_char (ord b mod 16 * 4), b64_pad]"
| "urlsafe_b64encode (a # b # c # r) =
     b64_char (ord a div 4) # b64_char (ord a mod 4 * 16 + ord b div 16) #
     b64_char (ord b mod 16 * 4 + ord c div 64) # b64_char (ord c mod 64) # urlsafe_b64encode r"

text \<open>
  \<^verbatim>\<open>binascii.a2b_base64\<close>: the position in the group of four, the bits left over, the number of
  padding characters in a row. \<^const>\<open>None\<close> is \<^verbatim>\<open>binascii.Error\<close>.
\<close>

fun a2b_base64 :: "nat \<Rightarrow> nat \<Rightarrow> nat \<Rightarrow> string \<Rightarrow> string option" where
  "a2b_base64 quad left pads [] = (if quad = 0 then Some [] else None)"
| "a2b_base64 quad left pads (c # r) =
     (if c = b64_pad then
        (if 2 \<le> quad then (if 4 \<le> quad + (pads + 1) then Some [] else a2b_base64 quad left (pads + 1) r)
         else a2b_base64 quad left pads r)
      else case b64_value c of
        None \<Rightarrow> a2b_base64 quad left pads r
      | Some v \<Rightarrow>
          if quad = 0 then a2b_base64 1 v 0 r
          else if quad = 1 then map_option (Cons (char_of (left * 4 + v div 16))) (a2b_base64 2 (v mod 16) 0 r)
          else if quad = 2 then map_option (Cons (char_of (left * 16 + v div 4))) (a2b_base64 3 (v mod 4) 0 r)
          else map_option (Cons (char_of (left * 64 + v))) (a2b_base64 0 0 0 r))"

definition py_isascii :: "string \<Rightarrow> bool" where
  "py_isascii s \<longleftrightarrow> list_all (\<lambda>c. ord c < 128) s"

definition b64url_encode :: "string \<Rightarrow> string" where
  "b64url_encode data = rev (dropWhile (\<lambda>c. c = b64_pad) (rev (urlsafe_b64encode data)))"

definition b64url_decode :: "string \<Rightarrow> string option" where
  "b64url_decode s =
     (if py_isascii s then a2b_base64 0 0 0 (s @ replicate (nat ((- int (length s)) mod 4)) b64_pad) else None)"

section \<open>Tokens\<close>

definition CLOCK_SKEW_GRACE_SECONDS :: int where
  "CLOCK_SKEW_GRACE_SECONDS = 5"

definition DEFAULT_TTL_SECONDS :: int where
  "DEFAULT_TTL_SECONDS = 300"

record token_env =
  hmac_sha256 :: "string \<Rightarrow> string \<Rightarrow> string"
  loads_bytes :: "string \<Rightarrow> json option"
  float_before :: "string \<Rightarrow> seconds \<Rightarrow> bool"

text \<open>\<^verbatim>\<open>json.loads\<close> of the decoded payload.\<close>

definition load_payload :: "token_env \<Rightarrow> string \<Rightarrow> json option" where
  "load_payload E b = (if list_all (\<lambda>c. 0 < ord c \<and> ord c < 128) b then json_loads b else loads_bytes E b)"

definition token_payload :: "string \<Rightarrow> string \<Rightarrow> int \<Rightarrow> json" where
  "token_payload user_id path_prefix expiry = JObj [(''sub'', JStr user_id), (''path'', JStr path_prefix), (''exp'', JInt expiry)]"

text \<open>\<^const>\<open>None\<close> is the \<^verbatim>\<open>ValueError\<close> of an empty secret.\<close>

definition mint_loader_token :: "token_env \<Rightarrow> seconds \<Rightarrow> string \<Rightarrow> string \<Rightarrow> int \<Rightarrow> string \<Rightarrow> string option" where
  "mint_loader_token E now user_id path_prefix ttl_seconds secret =
     (if secret = [] then None
      else
        let b64_payload = b64url_encode (json_dumps False '','' '':'' (token_payload user_id path_prefix (py_int now + ttl_seconds)))
        in Some (b64_payload @ ''.'' @ b64url_encode (hmac_sha256 E secret b64_payload)))"

text \<open>The reply of the verifier; a payload that is no object has no \<^verbatim>\<open>get\<close>, which nothing catches.\<close>

datatype verdict = Verified string | Rejected | Attribute_error

definition claim_expired :: "token_env \<Rightarrow> seconds \<Rightarrow> json \<Rightarrow> bool option" where
  "claim_expired E now claim =
     (case claim of
        JInt n \<Rightarrow> Some (of_int (n + CLOCK_SKEW_GRACE_SECONDS) < now)
      | JBool b \<Rightarrow> Some (of_int ((if b then 1 else 0) + CLOCK_SKEW_GRACE_SECONDS) < now)
      | JFloat f \<Rightarrow> Some (float_before E f (now - of_int CLOCK_SKEW_GRACE_SECONDS))
      | _ \<Rightarrow> None)"

definition check_claims :: "token_env \<Rightarrow> seconds \<Rightarrow> string \<Rightarrow> json \<Rightarrow> verdict" where
  "check_claims E now current_path payload =
     (case payload of
        JObj d \<Rightarrow>
          (case (json_get d ''sub'', json_get d ''path'', claim_expired E now (json_get d ''exp'')) of
             (JStr sub, JStr path, Some expired) \<Rightarrow>
               if expired then Rejected
               else if \<not> py_startswith current_path path then Rejected else Verified sub
           | _ \<Rightarrow> Rejected)
      | _ \<Rightarrow> Attribute_error)"

definition verify_loader_token :: "token_env \<Rightarrow> seconds \<Rightarrow> string \<Rightarrow> string \<Rightarrow> string \<Rightarrow> verdict" where
  "verify_loader_token E now token current_path secret =
     (if token = [] \<or> secret = [] then Rejected
      else case py_split_char (CHR ''.'') token of
        [b64_payload, b64_sig] \<Rightarrow>
          if \<not> py_isascii b64_payload then Rejected
          else (case b64url_decode b64_sig of
             None \<Rightarrow> Rejected
           | Some provided \<Rightarrow>
               if hmac_sha256 E secret b64_payload \<noteq> provided then Rejected
               else (case b64url_decode b64_payload of
                  None \<Rightarrow> Rejected
                | Some payload_bytes \<Rightarrow>
                    (case load_payload E payload_bytes of
                       None \<Rightarrow> Rejected
                     | Some payload \<Rightarrow> check_claims E now current_path payload)))
      | _ \<Rightarrow> Rejected)"

section \<open>Base64 round trip\<close>

lemma ord_b64_char:
  "n < 64 \<Longrightarrow> ord (b64_char n) =
     (if n < 26 then 65 + n else if n < 52 then 71 + n else if n < 62 then n - 4 else if n = 62 then 45 else 95)"
  by (simp add: b64_char_def)

lemma b64_char_value: "n < 64 \<Longrightarrow> b64_value (b64_char n) = Some n"
proof -
  assume n: "n < 64"
  have "b64_char n = CHR ''-''" if "n = 62" using that by (simp add: b64_char_def)
  moreover have "b64_char n = CHR ''_''" if "62 < n" using that by (simp add: b64_char_def)
  ultimately show ?thesis using n ord_b64_char [OF n] by (auto simp: b64_value_def Let_def split: if_splits)
qed

definition b64_alphabet :: "string \<Rightarrow> bool" where
  "b64_alphabet s \<longleftrightarrow> list_all (\<lambda>c. b64_value c \<noteq> None \<and> c \<noteq> b64_pad \<and> c \<noteq> CHR ''.'' \<and> ord c < 128) s"

lemma b64_char_alphabet: "n < 64 \<Longrightarrow> b64_char n \<noteq> b64_pad \<and> b64_char n \<noteq> CHR ''.'' \<and> ord (b64_char n) < 128"
proof -
  assume n: "n < 64"
  have "ord (b64_char n) \<noteq> ord b64_pad" "ord (b64_char n) \<noteq> ord (CHR ''.'')" "ord (b64_char n) < 128"
    using n by (auto simp: ord_b64_char)
  then show ?thesis by metis
qed

text \<open>The text without its padding.\<close>

fun b64_unpadded :: "string \<Rightarrow> string" where
  "b64_unpadded [] = []"
| "b64_unpadded [a] = [b64_char (ord a div 4), b64_char (ord a mod 4 * 16)]"
| "b64_unpadded [a, b] = [b64_char (ord a div 4), b64_char (ord a mod 4 * 16 + ord b div 16), b64_char (ord b mod 16 * 4)]"
| "b64_unpadded (a # b # c # r) =
     b64_char (ord a div 4) # b64_char (ord a mod 4 * 16 + ord b div 16) #
     b64_char (ord b mod 16 * 4 + ord c div 64) # b64_char (ord c mod 64) # b64_unpadded r"

lemma ord_bounds [simp]:
  "ord a div 4 < 64" "ord c div 64 < 4" "ord b div 16 < 16" "ord a mod 4 * 16 < 64" "ord b mod 16 * 4 < 64"
  "ord a mod 4 * 16 + ord b div 16 < 64" "ord b mod 16 * 4 + ord c div 64 < 64"
proof -
  show b: "ord a div 4 < 64" "ord c div 64 < 4" "ord b div 16 < 16"
    by (rule less_mult_imp_div_less, simp)+
  have m: "ord a mod 4 < 4" "ord b mod 16 < 16" by simp_all
  show "ord a mod 4 * 16 < 64" "ord b mod 16 * 4 < 64" using m by linarith+
  show "ord a mod 4 * 16 + ord b div 16 < 64" "ord b mod 16 * 4 + ord c div 64 < 64" using b m by linarith+
qed

lemma b64_unpadded_alphabet: "b64_alphabet (b64_unpadded s)"
  unfolding b64_alphabet_def
  by (induction s rule: b64_unpadded.induct) (simp_all add: b64_char_value b64_char_alphabet)

lemma b64url_encode_unpadded: "b64url_encode s = b64_unpadded s"
proof -
  have "\<exists>n. urlsafe_b64encode s = b64_unpadded s @ replicate n b64_pad"
  proof (induction s rule: urlsafe_b64encode.induct)
    case 1
    show ?case by (intro exI [of _ 0]) simp
  next
    case (2 a)
    show ?case by (intro exI [of _ 2]) (simp add: numeral_2_eq_2)
  next
    case (3 a b)
    show ?case by (intro exI [of _ 1]) simp
  next
    case (4 a b c r)
    then show ?case by auto
  qed
  then obtain n where n: "urlsafe_b64encode s = b64_unpadded s @ replicate n b64_pad" by blast
  have "dropWhile (\<lambda>c. c = b64_pad) (replicate n b64_pad @ rev (b64_unpadded s)) = dropWhile (\<lambda>c. c = b64_pad) (rev (b64_unpadded s))"
    by (induction n) simp_all
  moreover have "dropWhile (\<lambda>c. c = b64_pad) (rev (b64_unpadded s)) = rev (b64_unpadded s)"
    using b64_unpadded_alphabet [of s]
    by (cases "rev (b64_unpadded s)") (auto simp: b64_alphabet_def list_all_iff dest!: arg_cong [of _ _ set])
  ultimately show ?thesis by (simp add: b64url_encode_def n)
qed

lemma a2b_step:
  "n < 64 \<Longrightarrow> a2b_base64 quad left pads (b64_char n # r) =
     (if quad = 0 then a2b_base64 1 n 0 r
      else if quad = 1 then map_option (Cons (char_of (left * 4 + n div 16))) (a2b_base64 2 (n mod 16) 0 r)
      else if quad = 2 then map_option (Cons (char_of (left * 16 + n div 4))) (a2b_base64 3 (n mod 4) 0 r)
      else map_option (Cons (char_of (left * 64 + n))) (a2b_base64 0 0 0 r))"
  by (simp add: b64_char_value b64_char_alphabet)

lemma byte_parts:
  "char_of (ord a div 4 * 4 + (ord a mod 4 * 16 + ord b div 16) div 16) = a"
  "char_of ((ord a mod 4 * 16 + ord b div 16) mod 16 * 16 + (ord b mod 16 * 4 + ord c div 64) div 4) = b"
  "char_of ((ord b mod 16 * 4 + ord c div 64) mod 4 * 64 + ord c mod 64) = c"
  "char_of (ord a div 4 * 4 + ord a mod 4 * 16 div 16) = a"
  "char_of ((ord a mod 4 * 16 + ord b div 16) mod 16 * 16 + ord b mod 16 * 4 div 4) = b"
proof -
  have "(ord a mod 4 * 16 + ord b div 16) div 16 = ord a mod 4" "(ord a mod 4 * 16 + ord b div 16) mod 16 = ord b div 16"
    "(ord b mod 16 * 4 + ord c div 64) div 4 = ord b mod 16" "(ord b mod 16 * 4 + ord c div 64) mod 4 = ord c div 64"
    by simp_all
  note parts = this
  show "char_of (ord a div 4 * 4 + (ord a mod 4 * 16 + ord b div 16) div 16) = a"
    "char_of ((ord a mod 4 * 16 + ord b div 16) mod 16 * 16 + (ord b mod 16 * 4 + ord c div 64) div 4) = b"
    "char_of ((ord b mod 16 * 4 + ord c div 64) mod 4 * 64 + ord c mod 64) = c"
    "char_of (ord a div 4 * 4 + ord a mod 4 * 16 div 16) = a"
    "char_of ((ord a mod 4 * 16 + ord b div 16) mod 16 * 16 + ord b mod 16 * 4 div 4) = b"
    unfolding parts by (simp_all only: div_mult_mod_eq nonzero_mult_div_cancel_right zero_neq_numeral not_False_eq_True char_of_char)
qed

definition missing_pad :: "string \<Rightarrow> nat" where
  "missing_pad s = nat ((- int (length s)) mod 4)"

lemma missing_pad_simps [simp]:
  "missing_pad [] = 0" "missing_pad [x, y] = 2" "missing_pad [x, y, z] = 1" "missing_pad (x # y # z # w # r) = missing_pad r"
proof -
  have "(- (4 + int (length r))) mod 4 = (- int (length r)) mod 4" by presburger
  then show "missing_pad (x # y # z # w # r) = missing_pad r" by (simp add: missing_pad_def algebra_simps)
qed (simp_all add: missing_pad_def)

lemma a2b_unpadded: "a2b_base64 0 l p (b64_unpadded s @ replicate (missing_pad (b64_unpadded s)) b64_pad) = Some s"
proof (induction s arbitrary: l p rule: b64_unpadded.induct)
  case (2 a)
  then show ?case by (simp add: a2b_step numeral_2_eq_2 byte_parts del: a2b_base64.simps(2)) (simp add: numeral_2_eq_2)
next
  case (3 a b)
  then show ?case by (simp add: a2b_step byte_parts del: a2b_base64.simps(2)) simp
next
  case (4 a b c r)
  then show ?case by (simp add: a2b_step byte_parts del: a2b_base64.simps(2))
qed simp

lemma b64_roundtrip: "b64url_decode (b64url_encode s) = Some s"
  using a2b_unpadded [of 0 0 s] b64_unpadded_alphabet [of s]
  by (simp add: b64url_decode_def b64url_encode_unpadded missing_pad_def py_isascii_def b64_alphabet_def list_all_iff)

section \<open>Properties\<close>

lemma split_once: "a \<notin> set x \<Longrightarrow> a \<notin> set y \<Longrightarrow> py_split_char a (x @ a # y) = [x, y]"
  by (induction x) (auto simp: split_char_none)

lemma b64url_encode_alphabet: "CHR ''.'' \<notin> set (b64url_encode s)" "py_isascii (b64url_encode s)"
  using b64_unpadded_alphabet [of s] by (auto simp: b64url_encode_unpadded b64_alphabet_def list_all_iff py_isascii_def)

text \<open>The encoder writes plain ASCII.\<close>

definition plain_ascii :: "string \<Rightarrow> bool" where
  "plain_ascii s \<longleftrightarrow> list_all (\<lambda>c. 0 < ord c \<and> ord c < 128) s"

lemma plain_ascii_append [simp]: "plain_ascii (s @ t) \<longleftrightarrow> plain_ascii s \<and> plain_ascii t"
  by (simp add: plain_ascii_def)

lemma hex_digit_plain: "n < 16 \<Longrightarrow> 0 < ord (hex_digit n) \<and> ord (hex_digit n) < 128"
  by (simp add: hex_digit_def)

lemma escape_char_plain: "plain_ascii (escape_char c)"
proof -
  have "ord c div 16 < 16" "ord c mod 16 < 16" by (rule less_mult_imp_div_less, simp) simp
  then show ?thesis by (auto simp: plain_ascii_def escape_char_def hex_digit_plain)
qed

lemma quote_string_plain: "plain_ascii (quote_string s)"
  by (induction s) (simp_all add: quote_string_def plain_ascii_def escape_char_plain [unfolded plain_ascii_def])

lemma nat_digits_plain: "plain_ascii (nat_digits n)"
proof (induction n rule: nat_digits.induct)
  case (1 n)
  then show ?case by (subst nat_digits.simps) (auto simp: plain_ascii_def)
qed

lemma payload_plain: "plain_ascii (json_dumps False '','' '':'' (token_payload u p e))"
proof -
  have "plain_ascii (py_str_int e)"
    using nat_digits_plain by (auto simp: py_str_int_def plain_ascii_def)
  then show ?thesis
    using quote_string_plain by (simp add: token_payload_def Let_def plain_ascii_def)
qed

lemma payload_loads: "json_loads (json_dumps False '','' '':'' (token_payload u p e)) = Some (token_payload u p e)"
  by (rule loads_dumps) (simp_all add: sep_ok_def token_payload_def)

lemma mint_verify:
  assumes "secret \<noteq> []"
  shows "verify_loader_token E now (the (mint_loader_token E minted user_id path_prefix ttl secret)) current_path secret =
    (if now \<le> of_int (py_int minted + ttl + CLOCK_SKEW_GRACE_SECONDS) \<and> py_startswith current_path path_prefix
     then Verified user_id else Rejected)"
proof -
  let ?json = "json_dumps False '','' '':'' (token_payload user_id path_prefix (py_int minted + ttl))"
  let ?p = "b64url_encode ?json"
  let ?t = "?p @ CHR ''.'' # b64url_encode (hmac_sha256 E secret ?p)"
  have mint: "the (mint_loader_token E minted user_id path_prefix ttl secret) = ?t"
    using assms by (simp add: mint_loader_token_def Let_def)
  have "load_payload E ?json = Some (token_payload user_id path_prefix (py_int minted + ttl))"
    using payload_plain payload_loads by (simp add: load_payload_def plain_ascii_def)
  moreover have "py_split_char (CHR ''.'') ?t = [?p, b64url_encode (hmac_sha256 E secret ?p)]"
    by (rule split_once) (rule b64url_encode_alphabet)+
  ultimately show ?thesis
    using assms b64url_encode_alphabet(2)
    unfolding mint verify_loader_token_def
    by (simp add: b64_roundtrip) (auto simp: check_claims_def token_payload_def json_get_def claim_expired_def)
qed

text \<open>
  A token opens the route it was minted for, as its user, until it expires: verified under
  the secret it was minted with, it yields the user exactly when the request's path starts with the
  token's path and the clock has not passed the expiry by more than the grace period. It does so for
  every user id and path and whatever the HMAC function is.
\<close>

theorem loader_token_roundtrip:
  assumes "secret \<noteq> []"
  shows "verify_loader_token E now (the (mint_loader_token E minted user_id path_prefix ttl secret)) current_path secret =
    (if now \<le> of_int (py_int minted + ttl + CLOCK_SKEW_GRACE_SECONDS) \<and> py_startswith current_path path_prefix
     then Verified user_id else Rejected)"
  using assms by (rule mint_verify)

definition toy_env :: token_env where
  "toy_env = \<lparr>hmac_sha256 = (\<lambda>secret text. take 4 (rev text @ secret)), loads_bytes = (\<lambda>_. None), float_before = (\<lambda>_ _. True)\<rparr>"

theorem loader_token_roundtrip_witness:
  "verify_loader_token toy_env 1305 (the (mint_loader_token toy_env 1000 ''user:ab'' ''/api/files/proxy'' 300 ''k'')) ''/api/files/proxy'' ''k''
     = Verified ''user:ab''"
  by (subst loader_token_roundtrip) (simp_all add: py_startswith_def CLOCK_SKEW_GRACE_SECONDS_def py_int_def)



end
