(* ===== verification/Authentication.thy ===== *)
theory Authentication
  imports Loader_Token
begin

text \<open>
  Who a request speaks for: the dependencies of \<^verbatim>\<open>infra/auth.py\<close>, the check of the key pools in
  \<^verbatim>\<open>infra/config.py\<close> and the endpoint of \<^verbatim>\<open>api/loader_token.py\<close> that mints loader tokens. Header
  values are Latin-1, as the server decodes them. The hex digest of SHA-256 is a parameter. An
  outcome is a principal, no principal, a refusal with its status code and detail, or an exception
  that nothing catches.
\<close>

section \<open>Principals and keys\<close>

datatype kind = Kind_user | Kind_bridge | Kind_mcp

datatype principal = Principal (Principal_id: string) (Principal_kind: kind)

datatype auth = Granted principal | Anonymous | Refused nat string | Type_error

abbreviation unauthorized :: "string \<Rightarrow> auth" where
  "unauthorized detail \<equiv> Refused 401 detail"

record auth_settings =
  api_keys :: string
  bridge_api_key :: string
  beever_mcp_api_keys :: string
  admin_token :: string
  allow_bridge_as_user :: bool
  loader_token_secret :: string
  loader_raw_key_fallback :: bool
  loader_token_ttl :: int

record auth_env = token_env +
  sha256_hex :: "string \<Rightarrow> string"

definition parse_keys :: "string \<Rightarrow> string list" where
  "parse_keys raw = [py_strip k. k \<leftarrow> py_split_char (CHR '','') raw, py_strip k \<noteq> []]"

text \<open>\<^verbatim>\<open>s.split(None, 1)\<close>\<close>

definition py_split_word :: "string \<Rightarrow> string list" where
  "py_split_word s =
     (let t = py_lstrip s; w = takeWhile (\<lambda>c. \<not> py_isspace c) t; r = py_lstrip (dropWhile (\<lambda>c. \<not> py_isspace c) t)
      in if t = [] then [] else if r = [] then [w] else [w, r])"

definition or_none :: "string \<Rightarrow> string option" where
  "or_none s = (if s = [] then None else Some s)"

definition extract_bearer :: "string option \<Rightarrow> string option" where
  "extract_bearer authorization =
     (case authorization of
        None \<Rightarrow> None
      | Some a \<Rightarrow>
          (case py_split_word a of
             [scheme, rest] \<Rightarrow> if py_lower scheme \<noteq> ''bearer'' then None else or_none (py_strip rest)
           | _ \<Rightarrow> None))"

text \<open>\<^verbatim>\<open>hmac.compare_digest\<close> of two strings: \<^const>\<open>None\<close> is the \<^verbatim>\<open>TypeError\<close> of a character outside ASCII.\<close>

definition compare_digest :: "string \<Rightarrow> string \<Rightarrow> bool option" where
  "compare_digest a b = (if py_isascii a \<and> py_isascii b then Some (a = b) else None)"

definition principal_id_for_key :: "('e auth_env_scheme) \<Rightarrow> string \<Rightarrow> string" where
  "principal_id_for_key E key = ''user:'' @ take 16 (sha256_hex E key)"

definition principal_id_for_mcp_key :: "('e auth_env_scheme) \<Rightarrow> string \<Rightarrow> string" where
  "principal_id_for_mcp_key E key = ''mcp:'' @ take 16 (sha256_hex E key)"

text \<open>A match yields a principal or none; the outer \<^const>\<open>None\<close> is the \<^verbatim>\<open>TypeError\<close> of a comparison.\<close>

fun match_user_key :: "('e auth_env_scheme) \<Rightarrow> string \<Rightarrow> string list \<Rightarrow> principal option option" where
  "match_user_key E token [] = Some None"
| "match_user_key E token (key # keys) =
     (case compare_digest token key of
        None \<Rightarrow> None
      | Some eq \<Rightarrow> if eq then Some (Some (Principal (principal_id_for_key E key) Kind_user)) else match_user_key E token keys)"

fun match_mcp_key :: "('e auth_env_scheme) \<Rightarrow> string \<Rightarrow> string list \<Rightarrow> principal option option" where
  "match_mcp_key E token [] = Some None"
| "match_mcp_key E token (key # keys) =
     (case compare_digest token key of
        None \<Rightarrow> None
      | Some eq \<Rightarrow> if eq then Some (Some (Principal (principal_id_for_mcp_key E key) Kind_mcp)) else match_mcp_key E token keys)"

definition bridge_principal :: principal where
  "bridge_principal = Principal ''bridge'' Kind_bridge"

definition match_bridge_key :: "string \<Rightarrow> string \<Rightarrow> principal option option" where
  "match_bridge_key token bridge_key =
     (if bridge_key = [] then Some None
      else case compare_digest token bridge_key of
        None \<Rightarrow> None
      | Some eq \<Rightarrow> Some (if eq then Some bridge_principal else None))"

section \<open>The dependencies\<close>

definition resolve_token :: "string option \<Rightarrow> string option \<Rightarrow> bool \<Rightarrow> string option" where
  "resolve_token authorization access_token allow_query_string =
     (case extract_bearer authorization of
        Some token \<Rightarrow> Some token
      | None \<Rightarrow>
          if allow_query_string then (case access_token of None \<Rightarrow> None | Some t \<Rightarrow> or_none (py_strip t)) else None)"

text \<open>What both header dependencies do with a token; \<open>refusal\<close> is how they answer an unknown one.\<close>

definition try_bridge :: "auth_settings \<Rightarrow> string \<Rightarrow> auth \<Rightarrow> auth" where
  "try_bridge S token refusal =
     (if allow_bridge_as_user S then
        (case match_bridge_key token (py_strip (bridge_api_key S)) of
           None \<Rightarrow> Type_error
         | Some (Some p) \<Rightarrow> Granted p
         | Some None \<Rightarrow> refusal)
      else refusal)"

definition try_user :: "('e auth_env_scheme) \<Rightarrow> auth_settings \<Rightarrow> string \<Rightarrow> auth \<Rightarrow> auth" where
  "try_user E S token next =
     (case match_user_key E token (parse_keys (api_keys S)) of
        None \<Rightarrow> Type_error
      | Some (Some p) \<Rightarrow> Granted p
      | Some None \<Rightarrow> next)"

definition try_admin :: "('e auth_env_scheme) \<Rightarrow> auth_settings \<Rightarrow> string \<Rightarrow> auth \<Rightarrow> auth" where
  "try_admin E S token next =
     (let admin = py_strip (admin_token S) in
      if admin = [] then next
      else case compare_digest token admin of
        None \<Rightarrow> Type_error
      | Some eq \<Rightarrow> if eq then Granted (Principal (principal_id_for_key E token) Kind_user) else next)"

definition auth_configured :: "auth_settings \<Rightarrow> bool" where
  "auth_configured S \<longleftrightarrow> parse_keys (api_keys S) \<noteq> [] \<or> py_strip (bridge_api_key S) \<noteq> []"

definition require_user :: "('e auth_env_scheme) \<Rightarrow> auth_settings \<Rightarrow> string option \<Rightarrow> string option \<Rightarrow> auth" where
  "require_user E S authorization access_token =
     (if \<not> auth_configured S then unauthorized ''API authentication not configured''
      else case resolve_token authorization access_token False of
        None \<Rightarrow> unauthorized ''Missing or malformed Authorization header''
      | Some token \<Rightarrow> try_user E S token (try_admin E S token (try_bridge S token (unauthorized ''Invalid API key''))))"

definition require_user_optional :: "('e auth_env_scheme) \<Rightarrow> auth_settings \<Rightarrow> string option \<Rightarrow> string option \<Rightarrow> auth" where
  "require_user_optional E S authorization access_token =
     (case resolve_token authorization access_token False of
        None \<Rightarrow> Anonymous
      | Some token \<Rightarrow> try_user E S token (try_admin E S token (try_bridge S token Anonymous)))"

text \<open>A verified loader token; the outer \<^const>\<open>None\<close> is the \<^verbatim>\<open>AttributeError\<close> of a payload that is no object.\<close>

definition try_signed_loader_token ::
  "('e auth_env_scheme) \<Rightarrow> seconds \<Rightarrow> string option \<Rightarrow> string \<Rightarrow> string \<Rightarrow> principal option option" where
  "try_signed_loader_token E now loader_token current_path secret =
     (case loader_token of
        None \<Rightarrow> Some None
      | Some token \<Rightarrow>
          if token = [] \<or> secret = [] then Some None
          else case verify_loader_token (token_env.truncate E) now token current_path secret of
            Verified user_id \<Rightarrow> Some (Some (Principal user_id Kind_user))
          | Rejected \<Rightarrow> Some None
          | Attribute_error \<Rightarrow> None)"

record loader_request =
  request_path :: string
  authorization_header :: "string option"
  access_token_query :: "string option"
  loader_token_query :: "string option"

text \<open>The three credentials of a loader route in order; \<open>invalid\<close> and \<open>missing\<close> are the two refusals.\<close>

definition loader_credentials ::
  "('e auth_env_scheme) \<Rightarrow> auth_settings \<Rightarrow> seconds \<Rightarrow> loader_request \<Rightarrow> auth \<Rightarrow> auth \<Rightarrow> auth" where
  "loader_credentials E S now r invalid missing =
     (case try_signed_loader_token E now (loader_token_query r) (request_path r) (py_strip (loader_token_secret S)) of
        None \<Rightarrow> Type_error
      | Some (Some p) \<Rightarrow> Granted p
      | Some None \<Rightarrow>
          (case extract_bearer (authorization_header r) of
             Some header_token \<Rightarrow> try_user E S header_token (try_bridge S header_token invalid)
           | None \<Rightarrow>
               (case access_token_query r of
                  None \<Rightarrow> missing
                | Some t \<Rightarrow>
                    if t \<noteq> [] \<and> loader_raw_key_fallback S then
                      let raw = py_strip t in
                      if raw = [] then invalid else try_user E S raw (try_bridge S raw invalid)
                    else missing)))"

definition require_user_loader :: "('e auth_env_scheme) \<Rightarrow> auth_settings \<Rightarrow> seconds \<Rightarrow> loader_request \<Rightarrow> auth" where
  "require_user_loader E S now r =
     (if \<not> auth_configured S then unauthorized ''API authentication not configured''
      else loader_credentials E S now r (unauthorized ''Invalid API key'') (unauthorized ''Missing or malformed loader credential''))"

definition require_user_loader_optional :: "('e auth_env_scheme) \<Rightarrow> auth_settings \<Rightarrow> seconds \<Rightarrow> loader_request \<Rightarrow> auth" where
  "require_user_loader_optional E S now r = loader_credentials E S now r Anonymous Anonymous"

definition require_bridge :: "auth_settings \<Rightarrow> string option \<Rightarrow> auth" where
  "require_bridge S authorization =
     (let bridge_key = py_strip (bridge_api_key S) in
      if bridge_key = [] then unauthorized ''Bridge authentication not configured''
      else case extract_bearer authorization of
        None \<Rightarrow> unauthorized ''Missing or malformed Authorization header''
      | Some token \<Rightarrow>
          (case match_bridge_key token bridge_key of
             None \<Rightarrow> Type_error
           | Some None \<Rightarrow> unauthorized ''Invalid bridge key''
           | Some (Some p) \<Rightarrow> Granted p))"

text \<open>The bare string \<^verbatim>\<open>"admin"\<close> has no kind; the channel guard reads one off its text.\<close>

definition require_admin :: "auth_settings \<Rightarrow> string option \<Rightarrow> string option option" where
  "require_admin S x_admin_token =
     (let expected = py_strip (admin_token S) in
      if expected = [] then Some None
      else case x_admin_token of
        None \<Rightarrow> Some None
      | Some t \<Rightarrow>
          if t = [] then Some None
          else (case compare_digest t expected of
             None \<Rightarrow> None
           | Some eq \<Rightarrow> Some (if eq then Some ''admin'' else None)))"

section \<open>Key pools\<close>

definition pools_disjoint :: "string \<Rightarrow> string \<Rightarrow> bool" where
  "pools_disjoint a b \<longleftrightarrow> list_all (\<lambda>k. k \<notin> set (parse_keys b)) (parse_keys a)"

text \<open>\<^const>\<open>Inl\<close> is the \<^verbatim>\<open>ValueError\<close> that stops the boot, with the number of shared keys.\<close>

definition validate_keys_disjoint :: "string \<Rightarrow> string \<Rightarrow> string \<Rightarrow> (string \<times> nat) + unit" where
  "validate_keys_disjoint api bridge mcp =
     (let shared = (\<lambda>a. card (set (filter (\<lambda>k. k \<in> set (parse_keys mcp)) (parse_keys a)))) in
      if \<not> pools_disjoint api mcp then Inl (''BEEVER_MCP_API_KEYS overlaps with BEEVER_API_KEYS.'', shared api)
      else if \<not> pools_disjoint bridge mcp then Inl (''BEEVER_MCP_API_KEYS overlaps with BRIDGE_API_KEY.'', shared bridge)
      else Inr ())"

section \<open>Minting\<close>

definition ALLOWED_LOADER_PATHS :: "string list" where
  "ALLOWED_LOADER_PATHS = [''/api/files/proxy'', ''/api/media/proxy'']"

datatype mint_reply = Minted string int | Mint_error nat

text \<open>The two readings of the clock are arguments: one goes into the token, one into the reply.\<close>

definition mint_endpoint :: "('e auth_env_scheme) \<Rightarrow> auth_settings \<Rightarrow> seconds \<Rightarrow> seconds \<Rightarrow> principal \<Rightarrow> string \<Rightarrow> mint_reply" where
  "mint_endpoint E S minted_at replied_at p path =
     (if path \<notin> set ALLOWED_LOADER_PATHS then Mint_error 422
      else
        let secret = py_strip (loader_token_secret S) in
        if secret = [] then Mint_error 503
        else case mint_loader_token (token_env.truncate E) minted_at (Principal_id p) path (loader_token_ttl S) secret of
          None \<Rightarrow> Mint_error 500
        | Some token \<Rightarrow> Minted token (py_int replied_at + loader_token_ttl S))"

section \<open>Lemmas\<close>

lemma compare_digest_True: "compare_digest a b = Some True \<Longrightarrow> a = b"
  by (simp add: compare_digest_def split: if_splits)

lemma match_user_key_sound:
  "match_user_key E token keys = Some (Some p) \<Longrightarrow> token \<in> set keys \<and> p = Principal (principal_id_for_key E token) Kind_user"
  by (induction keys) (auto split: option.splits if_splits simp: compare_digest_def)

lemma match_mcp_key_sound:
  "match_mcp_key E token keys = Some (Some p) \<Longrightarrow> token \<in> set keys \<and> p = Principal (principal_id_for_mcp_key E token) Kind_mcp"
  by (induction keys) (auto split: option.splits if_splits simp: compare_digest_def)

lemma match_user_key_ascii:
  "py_isascii token \<Longrightarrow> list_all py_isascii keys \<Longrightarrow> match_user_key E token keys =
     Some (if token \<in> set keys then Some (Principal (principal_id_for_key E token) Kind_user) else None)"
  by (induction keys) (auto simp: compare_digest_def)

lemma match_mcp_key_ascii:
  "py_isascii token \<Longrightarrow> list_all py_isascii keys \<Longrightarrow> match_mcp_key E token keys =
     Some (if token \<in> set keys then Some (Principal (principal_id_for_mcp_key E token) Kind_mcp) else None)"
  by (induction keys) (auto simp: compare_digest_def)

text \<open>What a settings object with only ASCII credentials accepts.\<close>

definition ascii_settings :: "auth_settings \<Rightarrow> bool" where
  "ascii_settings S \<longleftrightarrow> list_all py_isascii (parse_keys (api_keys S)) \<and> py_isascii (py_strip (admin_token S)) \<and>
     py_isascii (py_strip (bridge_api_key S))"

definition user_token :: "auth_settings \<Rightarrow> string \<Rightarrow> bool" where
  "user_token S token \<longleftrightarrow> token \<in> set (parse_keys (api_keys S)) \<or> py_strip (admin_token S) \<noteq> [] \<and> token = py_strip (admin_token S)"

definition bridge_token :: "auth_settings \<Rightarrow> string \<Rightarrow> bool" where
  "bridge_token S token \<longleftrightarrow> allow_bridge_as_user S \<and> py_strip (bridge_api_key S) \<noteq> [] \<and> token = py_strip (bridge_api_key S)"

lemma try_chain_ascii:
  assumes "ascii_settings S" "py_isascii token"
  shows "try_user E S token (try_admin E S token (try_bridge S token refusal)) =
    (if user_token S token then Granted (Principal (principal_id_for_key E token) Kind_user)
     else if bridge_token S token then Granted bridge_principal else refusal)"
  using assms
  by (simp add: ascii_settings_def try_user_def try_admin_def try_bridge_def match_user_key_ascii user_token_def bridge_token_def
      match_bridge_key_def compare_digest_def Let_def)

lemma resolve_header: "resolve_token authorization access_token False = extract_bearer authorization"
  by (simp add: resolve_token_def split: option.split)

lemma try_chain_sound:
  assumes "try_user E S token (try_admin E S token (try_bridge S token refusal)) = Granted p" "\<And>q. refusal \<noteq> Granted q"
  shows "user_token S token \<and> p = Principal (principal_id_for_key E token) Kind_user \<or> bridge_token S token \<and> p = bridge_principal"
  using assms
  by (auto simp: try_user_def try_admin_def try_bridge_def user_token_def bridge_token_def match_bridge_key_def compare_digest_def Let_def
      split: option.splits if_splits dest: match_user_key_sound)

section \<open>Properties\<close>

text \<open>
  Property C16. The header dependency admits exactly the configured credentials: when the configured
  credentials and the presented token are ASCII, a principal is granted if and only if authentication
  is configured and the header carries a bearer token that is a user key or the admin token (then the
  principal is the user of the token's digest), or, under the override, the bridge key (then it is
  the bridge). The query string plays no part.
\<close>

theorem require_user_exact:
  assumes "ascii_settings S" "pred_option py_isascii (extract_bearer authorization)"
  shows "require_user E S authorization access_token = Granted p \<longleftrightarrow>
    auth_configured S \<and>
    (\<exists>token. extract_bearer authorization = Some token \<and>
       (if user_token S token then p = Principal (principal_id_for_key E token) Kind_user
        else bridge_token S token \<and> p = bridge_principal))"
  using assms
  by (cases "extract_bearer authorization") (auto simp: require_user_def resolve_header try_chain_ascii)

definition toy_settings :: auth_settings where
  "toy_settings = \<lparr>api_keys = ''alpha, beta'', bridge_api_key = ''gate'', beever_mcp_api_keys = ''gamma'', admin_token = '' root '',
     allow_bridge_as_user = False, loader_token_secret = ''k'', loader_raw_key_fallback = False, loader_token_ttl = 300\<rparr>"

definition toy_auth_env :: auth_env where
  "toy_auth_env = token_env.extend toy_env \<lparr>sha256_hex = (\<lambda>key. rev key)\<rparr>"

theorem require_user_exact_witness:
  "require_user toy_auth_env toy_settings (Some ''bearer  root'') None = Granted (Principal ''user:toor'' Kind_user)"
proof -
  have s: "ascii_settings toy_settings" "auth_configured toy_settings" "extract_bearer (Some ''bearer  root'') = Some ''root''"
    "py_isascii ''root''" "user_token toy_settings ''root''" "principal_id_for_key toy_auth_env ''root'' = ''user:toor''" by code_simp+
  then have "pred_option py_isascii (extract_bearer (Some ''bearer  root''))" by simp
  from require_user_exact [OF s(1) this, of toy_auth_env None] s show ?thesis by simp
qed

text \<open>
  The hard and the optional dependency accept the same tokens, for the same principals, whenever
  authentication is configured.
\<close>

theorem optional_user_agrees:
  assumes "auth_configured S"
  shows "require_user_optional E S authorization access_token = Granted p \<longleftrightarrow> require_user E S authorization access_token = Granted p"
proof -
  have "try_user E S t (try_admin E S t (try_bridge S t Anonymous)) = Granted p \<longleftrightarrow>
      try_user E S t (try_admin E S t (try_bridge S t (unauthorized d))) = Granted p" for t d
    by (auto simp: try_user_def try_admin_def try_bridge_def Let_def split: option.split if_splits)
  then show ?thesis using assms by (auto simp: require_user_def require_user_optional_def resolve_header split: option.split)
qed

theorem optional_user_agrees_witness:
  "require_user_optional toy_auth_env toy_settings (Some ''Bearer alpha'') None = Granted (Principal ''user:ahpla'' Kind_user)"
proof -
  have "auth_configured toy_settings" "require_user toy_auth_env toy_settings (Some ''Bearer alpha'') None = Granted (Principal ''user:ahpla'' Kind_user)"
    by code_simp+
  then show ?thesis using optional_user_agrees by blast
qed

text \<open>
  Without keys the two disagree: a deployment with nothing but an admin token refuses it on the hard
  dependency and accepts it on the optional one.
\<close>

theorem admin_only_disagrees:
  "let S = toy_settings\<lparr>api_keys := [], bridge_api_key := []\<rparr> in
     require_user toy_auth_env S (Some ''Bearer root'') None = unauthorized ''API authentication not configured'' \<and>
     require_user_optional toy_auth_env S (Some ''Bearer root'') None = Granted (Principal ''user:toor'' Kind_user)"
  by code_simp

text \<open>The admin token opens the header dependency and not the header of a loader route.\<close>

theorem loader_header_lacks_admin:
  "require_user toy_auth_env toy_settings (Some ''Bearer root'') None = Granted (Principal ''user:toor'' Kind_user) \<and>
   require_user_loader toy_auth_env toy_settings 0
     \<lparr>request_path = ''/api/files/proxy'', authorization_header = Some ''Bearer root'', access_token_query = None, loader_token_query = None\<rparr>
     = unauthorized ''Invalid API key''"
  by code_simp

text \<open>A bearer token with a character outside ASCII is answered by an exception, not by a refusal.\<close>

theorem non_ascii_token_raises:
  "require_user toy_auth_env toy_settings (Some (''Bearer '' @ [CHR 0xE9])) None = Type_error"
  by code_simp

text \<open>
  Property C17. A minted token opens the route it was minted for: what the endpoint mints for a principal and an
  allowed path is accepted on every request below that path, in place of any other credential, until
  the time to live and the grace period have passed, and it speaks for the same principal id. On
  other paths and afterwards it is as if it had not been sent.
\<close>

theorem minted_token_opens_route:
  assumes "mint_endpoint E S minted replied p path = Minted token expires" "auth_configured S" "loader_token_query r = Some token"
  shows "require_user_loader E S now r =
    (if now \<le> of_int (py_int minted + loader_token_ttl S + CLOCK_SKEW_GRACE_SECONDS) \<and> py_startswith (request_path r) path
     then Granted (Principal (Principal_id p) Kind_user)
     else require_user_loader E S now (r\<lparr>loader_token_query := None\<rparr>))"
proof -
  let ?secret = "py_strip (loader_token_secret S)"
  have secret: "?secret \<noteq> []"
    and token: "mint_loader_token (token_env.truncate E) minted (Principal_id p) path (loader_token_ttl S) ?secret = Some token"
    using assms(1) by (auto simp: mint_endpoint_def Let_def split: if_splits option.splits)
  have "token \<noteq> []" using token secret by (auto simp: mint_loader_token_def Let_def)
  moreover have "verify_loader_token (token_env.truncate E) now token (request_path r) ?secret =
      (if now \<le> of_int (py_int minted + loader_token_ttl S + CLOCK_SKEW_GRACE_SECONDS) \<and> py_startswith (request_path r) path
       then Verified (Principal_id p) else Rejected)"
    using mint_verify [OF secret, of "token_env.truncate E" now minted "Principal_id p" path "loader_token_ttl S" "request_path r"] token
    by simp
  ultimately show ?thesis
    using assms(2,3) secret by (simp add: require_user_loader_def loader_credentials_def try_signed_loader_token_def cong: option.case_cong)
qed

theorem minted_token_opens_route_witness:
  "case mint_endpoint toy_auth_env toy_settings 1000 1000 (Principal ''user:ab'' Kind_user) ''/api/files/proxy'' of
     Minted token expires \<Rightarrow>
       require_user_loader toy_auth_env toy_settings 1305
         \<lparr>request_path = ''/api/files/proxy'', authorization_header = None, access_token_query = None, loader_token_query = Some token\<rparr>
         = Granted (Principal ''user:ab'' Kind_user)
   | Mint_error status \<Rightarrow> False"
proof -
  obtain token expires where
    m: "mint_endpoint toy_auth_env toy_settings 1000 1000 (Principal ''user:ab'' Kind_user) ''/api/files/proxy'' = Minted token expires"
    by (auto simp: mint_endpoint_def ALLOWED_LOADER_PATHS_def toy_settings_def py_strip_def py_lstrip_def py_rstrip_def py_isspace_def
        mint_loader_token_def Let_def)
  have c: "auth_configured toy_settings" by code_simp
  let ?r = "\<lparr>request_path = ''/api/files/proxy'', authorization_header = None, access_token_query = None, loader_token_query = Some token\<rparr>"
  show ?thesis
    using minted_token_opens_route [OF m c, of ?r 1305] m
    by (simp add: py_startswith_def CLOCK_SKEW_GRACE_SECONDS_def py_int_def toy_settings_def)
qed

end
