(* ===== verification/MCP_Auth.thy ===== *)
theory MCP_Auth
  imports Authentication
begin

text \<open>
  The middleware in front of the MCP mount (\<^verbatim>\<open>infra/mcp_auth.py\<close>) with its brute-force watchdog. The
  request object of the framework is a parameter: how it reads the query string and looks a header
  up. The request id is an argument, as is the clock.
\<close>

section \<open>Watchdog\<close>

definition BRUTEFORCE_WINDOW_SECONDS :: seconds where
  "BRUTEFORCE_WINDOW_SECONDS = 60"

definition BRUTEFORCE_THRESHOLD :: nat where
  "BRUTEFORCE_THRESHOLD = 5"

definition BRUTEFORCE_ALERT_COOLDOWN_SECONDS :: seconds where
  "BRUTEFORCE_ALERT_COOLDOWN_SECONDS = 60"

record watchdog =
  ip_failures :: "(string, seconds list) dict"
  ip_last_alert :: "(string, seconds) dict"

definition reset_watchdog :: watchdog where
  "reset_watchdog = \<lparr>ip_failures = [], ip_last_alert = []\<rparr>"

definition prune_ip_failures :: "string \<Rightarrow> seconds \<Rightarrow> watchdog \<Rightarrow> seconds list \<times> watchdog" where
  "prune_ip_failures ip now w =
     (let entries = filter (\<lambda>t. now - BRUTEFORCE_WINDOW_SECONDS \<le> t) (case map_of (ip_failures w) ip of None \<Rightarrow> [] | Some ts \<Rightarrow> ts)
      in (entries, w\<lparr>ip_failures := AList.update ip entries (ip_failures w)\<rparr>))"

text \<open>The entries are the stored list itself, so the append is an update of the table. The flag is the warning.\<close>

definition record_auth_failure :: "seconds \<Rightarrow> string \<Rightarrow> watchdog \<Rightarrow> bool \<times> watchdog" where
  "record_auth_failure now ip w =
     (let (pruned, w1) = prune_ip_failures ip now w;
          entries = pruned @ [now];
          w2 = w1\<lparr>ip_failures := AList.update ip entries (ip_failures w1)\<rparr>;
          last_alert = (case map_of (ip_last_alert w2) ip of None \<Rightarrow> 0 | Some t \<Rightarrow> t)
      in if BRUTEFORCE_THRESHOLD \<le> length entries \<and> BRUTEFORCE_ALERT_COOLDOWN_SECONDS \<le> now - last_alert
         then (True, w2\<lparr>ip_last_alert := AList.update ip now (ip_last_alert w2)\<rparr>)
         else (False, w2))"

section \<open>Requests\<close>

record scope =
  scope_type :: string
  scope_client :: "string option"
  query_string :: string
  scope_headers :: "(string \<times> string) list"
  scope_state :: "(string, string) dict"

text \<open>The parts of the framework's request object the middleware asks.\<close>

record request_env = auth_env +
  query_has :: "string \<Rightarrow> string \<Rightarrow> bool"
  header_value :: "(string \<times> string) list \<Rightarrow> string \<Rightarrow> string option"

definition client_ip :: "scope \<Rightarrow> string" where
  "client_ip sc = (case scope_client sc of None \<Rightarrow> ''unknown'' | Some host \<Rightarrow> if host = [] then ''unknown'' else host)"

datatype mcp_outcome = Forward scope | Mcp_unauthorized string string | Mcp_raised

definition MCP_DETAIL :: string where
  "MCP_DETAIL = ''Missing or invalid MCP bearer''"

definition is_authorization :: "string \<times> string \<Rightarrow> bool" where
  "is_authorization h \<longleftrightarrow> py_lower (fst h) = ''authorization''"

definition scrub_scope :: "string \<Rightarrow> principal \<Rightarrow> scope \<Rightarrow> scope" where
  "scrub_scope request_id p sc =
     sc\<lparr>scope_headers := filter (\<lambda>h. \<not> is_authorization h) (scope_headers sc),
        scope_state :=
          AList.update ''mcp_request_id'' request_id
            (AList.update ''mcp_principal_kind'' (case Principal_kind p of Kind_user \<Rightarrow> ''user'' | Kind_bridge \<Rightarrow> ''bridge'' | Kind_mcp \<Rightarrow> ''mcp'')
              (AList.update ''mcp_principal_id'' (Principal_id p) (scope_state sc)))\<rparr>"

definition mcp_auth_call ::
  "request_env \<Rightarrow> auth_settings \<Rightarrow> seconds \<Rightarrow> string \<Rightarrow> scope \<Rightarrow> watchdog \<Rightarrow> mcp_outcome \<times> bool \<times> watchdog" where
  "mcp_auth_call E S now request_id sc w =
     (if scope_type sc \<noteq> ''http'' then (Forward sc, False, w)
      else
        let ip = client_ip sc in
        if list_ex (query_has E (query_string sc)) [''access_token'', ''api_key''] then
          (Mcp_unauthorized ''query_string_credentials_not_allowed'' ''Credentials must be sent via the Authorization header'',
           record_auth_failure now ip w)
        else (case extract_bearer (header_value E (scope_headers sc) ''authorization'') of
          None \<Rightarrow> (Mcp_unauthorized ''missing_bearer'' MCP_DETAIL, record_auth_failure now ip w)
        | Some token \<Rightarrow>
            let keys = parse_keys (beever_mcp_api_keys S) in
            if keys = [] then
              (Mcp_unauthorized ''no_mcp_keys_configured'' ''MCP authentication not configured on this server'', False, w)
            else (case match_mcp_key E token keys of
              None \<Rightarrow> (Mcp_raised, False, w)
            | Some None \<Rightarrow> (Mcp_unauthorized ''invalid_bearer'' MCP_DETAIL, record_auth_failure now ip w)
            | Some (Some p) \<Rightarrow> (Forward (scrub_scope request_id p sc), False, w))))"

section \<open>Lemmas on the watchdog\<close>

text \<open>A run over the failures of several addresses, oldest first, and the warnings it logs.\<close>

fun watchdog_run :: "(string \<times> seconds) list \<Rightarrow> watchdog \<Rightarrow> (string \<times> seconds) list \<times> watchdog" where
  "watchdog_run [] w = ([], w)"
| "watchdog_run ((ip, now) # h) w =
     (let (alert, w1) = record_auth_failure now ip w; (alerts, w2) = watchdog_run h w1
      in (if alert then (ip, now) # alerts else alerts, w2))"

definition times_of :: "string \<Rightarrow> (string \<times> seconds) list \<Rightarrow> seconds list" where
  "times_of ip h = map snd (filter (\<lambda>e. fst e = ip) h)"

lemma times_of_simps [simp]:
  "times_of ip [] = []" "times_of ip (e # h) = (if fst e = ip then [snd e] else []) @ times_of ip h"
  "times_of ip (h @ h') = times_of ip h @ times_of ip h'"
  by (simp_all add: times_of_def)

text \<open>What the tables hold after a run: the failures that were recent at the last one, the last warning.\<close>

definition watchdog_inv :: "(string \<times> seconds) list \<Rightarrow> (string \<times> seconds) list \<Rightarrow> watchdog \<Rightarrow> bool" where
  "watchdog_inv h alerts w \<longleftrightarrow>
     (\<forall>ip. (case map_of (ip_failures w) ip of None \<Rightarrow> [] | Some ts \<Rightarrow> ts)
             = filter (\<lambda>t. last (times_of ip h) - BRUTEFORCE_WINDOW_SECONDS \<le> t) (times_of ip h)) \<and>
     (\<forall>ip. (case map_of (ip_last_alert w) ip of None \<Rightarrow> 0 | Some t \<Rightarrow> t) = last (0 # times_of ip alerts))"

lemma watchdog_inv_start: "watchdog_inv [] [] reset_watchdog"
  by (simp add: watchdog_inv_def reset_watchdog_def)

definition watchdog_due :: "(string \<times> seconds) list \<Rightarrow> (string \<times> seconds) list \<Rightarrow> string \<Rightarrow> seconds \<Rightarrow> bool" where
  "watchdog_due h alerts ip now \<longleftrightarrow>
     5 \<le> length (filter (\<lambda>t. now - 60 \<le> t) (times_of ip h @ [now])) \<and> 60 \<le> now - last (0 # times_of ip alerts)"

lemma recent_of_recent:
  assumes "\<And>t. t \<in> set ts \<Longrightarrow> t \<le> (now :: seconds)"
  shows "filter (\<lambda>t. now - c \<le> t) (filter (\<lambda>t. last ts - c \<le> t) ts) = filter (\<lambda>t. now - c \<le> t) ts"
proof (cases ts rule: rev_cases)
  case (snoc us u)
  then have "u \<le> now" using assms by simp
  then show ?thesis using snoc by (auto simp: filter_filter intro!: filter_cong)
qed simp

lemma record_auth_failure_inv:
  assumes inv: "watchdog_inv h alerts w" and late: "\<And>e. e \<in> set h \<Longrightarrow> snd e \<le> now"
    and rec: "record_auth_failure now ip w = (alert, w')"
  shows "alert = watchdog_due h alerts ip now" "watchdog_inv (h @ [(ip, now)]) (alerts @ (if alert then [(ip, now)] else [])) w'"
proof -
  let ?old = "case map_of (ip_failures w) ip of None \<Rightarrow> [] | Some ts \<Rightarrow> ts"
  have "\<And>t. t \<in> set (times_of ip h) \<Longrightarrow> t \<le> now" using late by (auto simp: times_of_def)
  then have old: "filter (\<lambda>t. now - BRUTEFORCE_WINDOW_SECONDS \<le> t) ?old = filter (\<lambda>t. now - BRUTEFORCE_WINDOW_SECONDS \<le> t) (times_of ip h)"
    using inv unfolding watchdog_inv_def by (simp only: recent_of_recent)
  have last: "(case map_of (ip_last_alert w) ip of None \<Rightarrow> 0 | Some t \<Rightarrow> t) = last (0 # times_of ip alerts)"
    using inv by (simp add: watchdog_inv_def)
  note defs = record_auth_failure_def prune_ip_failures_def Let_def
  show alert: "alert = watchdog_due h alerts ip now"
    using rec old last
    by (simp add: defs watchdog_due_def BRUTEFORCE_THRESHOLD_def BRUTEFORCE_ALERT_COOLDOWN_SECONDS_def BRUTEFORCE_WINDOW_SECONDS_def
        split: if_splits)
  have "map_of (ip_failures w') = (map_of (ip_failures w))(ip \<mapsto> filter (\<lambda>t. now - BRUTEFORCE_WINDOW_SECONDS \<le> t) (times_of ip h) @ [now])"
    "map_of (ip_last_alert w') = (if alert then (map_of (ip_last_alert w))(ip \<mapsto> now) else map_of (ip_last_alert w))"
    using rec old by (auto simp: defs split: if_splits)
  then show "watchdog_inv (h @ [(ip, now)]) (alerts @ (if alert then [(ip, now)] else [])) w'"
    using inv by (auto simp: watchdog_inv_def BRUTEFORCE_WINDOW_SECONDS_def)
qed

lemma watchdog_run_inv:
  assumes "watchdog_inv g alerts w" "sorted (map snd (g @ h))" "watchdog_run h w = (fresh, w')"
  shows "watchdog_inv (g @ h) (alerts @ fresh) w'"
  using assms
proof (induction h arbitrary: g alerts w fresh)
  case (Cons e h)
  obtain ip now where e: "e = (ip, now)" by (cases e)
  obtain alert w1 where r: "record_auth_failure now ip w = (alert, w1)" by (cases "record_auth_failure now ip w")
  obtain rest where t: "watchdog_run h w1 = (rest, w')" "fresh = (if alert then [(ip, now)] else []) @ rest"
    using Cons.prems(3) r by (auto simp: e split: prod.splits if_splits)
  have "\<And>x. x \<in> set g \<Longrightarrow> snd x \<le> now" using Cons.prems(2) by (auto simp: e sorted_append)
  from record_auth_failure_inv(2) [OF Cons.prems(1) this r]
  have "watchdog_inv (g @ [e]) (alerts @ (if alert then [(ip, now)] else [])) w1" by (simp add: e)
  from Cons.IH [OF this _ t(1)] Cons.prems(2) t(2) show ?case by simp
qed simp


section \<open>Keys and commas\<close>

lemma split_char_no_sep: "w \<in> set (py_split_char a s) \<Longrightarrow> a \<notin> set w"
  by (induction s arbitrary: w) (auto split: if_splits list.splits)

lemma strip_subset: "set (py_strip s) \<subseteq> set s"
  by (auto simp: py_strip_def py_rstrip_def py_lstrip_def dest!: set_dropWhileD)

lemma dropWhile_keeps: "a \<in> set s \<Longrightarrow> \<not> P a \<Longrightarrow> a \<in> set (dropWhile P s)"
  by (induction s) auto

lemma strip_keeps: "a \<in> set s \<Longrightarrow> \<not> py_isspace a \<Longrightarrow> a \<in> set (py_strip s)"
  by (simp add: py_strip_def py_rstrip_def py_lstrip_def dropWhile_keeps)

lemma parse_keys_no_comma: "k \<in> set (parse_keys raw) \<Longrightarrow> CHR '','' \<notin> set k \<and> k \<noteq> []"
  using strip_subset by (fastforce simp: parse_keys_def dest: split_char_no_sep)

lemma single_key: "CHR '','' \<notin> set (py_strip raw) \<Longrightarrow> py_strip raw \<noteq> [] \<Longrightarrow> py_strip raw \<in> set (parse_keys raw)"
proof -
  assume a: "CHR '','' \<notin> set (py_strip raw)" "py_strip raw \<noteq> []"
  have "\<not> py_isspace (CHR '','')" by code_simp
  then have "CHR '','' \<notin> set raw" using a strip_keeps by blast
  then show ?thesis using a(2) by (simp add: parse_keys_def split_char_none)
qed

section \<open>Properties\<close>

text \<open>
  The watchdog warns exactly when it should: after any history of failures at nondecreasing times,
  the next failure of an address logs a warning if and only if it is at least the fifth of that
  address within the last minute and its last warning (or the zero of the clock) is at least a minute
  old. The failures of other addresses do not matter.
\<close>

theorem watchdog_exact:
  assumes "sorted (map snd h @ [now])" "watchdog_run h reset_watchdog = (alerts, w)"
  shows "fst (record_auth_failure now ip w) \<longleftrightarrow>
    5 \<le> length (filter (\<lambda>t. now - 60 \<le> t) (times_of ip h @ [now])) \<and> 60 \<le> now - last (0 # times_of ip alerts)"
proof -
  have "watchdog_inv h alerts w"
    using watchdog_run_inv [OF watchdog_inv_start _ assms(2)] assms(1) by (simp add: sorted_append)
  moreover have "\<And>e. e \<in> set h \<Longrightarrow> snd e \<le> now" using assms(1) by (auto simp: sorted_append)
  ultimately have "fst (record_auth_failure now ip w) = watchdog_due h alerts ip now"
    using record_auth_failure_inv(1) by (metis prod.collapse)
  then show ?thesis by (simp only: watchdog_due_def)
qed

definition toy_failures :: "(string \<times> seconds) list" where
  "toy_failures = [(''a'', 100), (''a'', 110), (''b'', 115), (''a'', 120), (''a'', 130)]"

theorem watchdog_exact_witness:
  "fst (record_auth_failure 140 ''a'' (snd (watchdog_run toy_failures reset_watchdog)))
   \<and> \<not> fst (record_auth_failure 140 ''b'' (snd (watchdog_run toy_failures reset_watchdog)))"
proof -
  have run: "watchdog_run toy_failures reset_watchdog = ([], snd (watchdog_run toy_failures reset_watchdog))" by code_simp
  have "sorted (map snd toy_failures @ [140])" by (simp add: toy_failures_def)
  from watchdog_exact [OF this run] show ?thesis by (simp add: toy_failures_def)
qed

text \<open>
  A request that is let through speaks for an MCP key and no longer carries it: the header held a
  bearer token that is one of the configured MCP keys, the query string held no credential, the
  forwarded scope has no authorization header under any spelling and names the principal of the key's
  digest, and the watchdog is untouched.
\<close>

theorem mcp_forward_authenticated:
  assumes "mcp_auth_call E S now request_id sc w = (Forward sc', alert, w')" "scope_type sc = ''http''"
  shows "(\<exists>token. extract_bearer (header_value E (scope_headers sc) ''authorization'') = Some token \<and>
      token \<in> set (parse_keys (beever_mcp_api_keys S)) \<and>
      map_of (scope_state sc') ''mcp_principal_id'' = Some (principal_id_for_mcp_key E token)) \<and>
    \<not> query_has E (query_string sc) ''access_token'' \<and> \<not> query_has E (query_string sc) ''api_key'' \<and>
    \<not> list_ex is_authorization (scope_headers sc') \<and> \<not> alert \<and> w' = w"
  using assms
  by (auto simp: mcp_auth_call_def Let_def scrub_scope_def list_ex_iff split: if_splits option.splits dest: match_mcp_key_sound)

definition toy_request_env :: request_env where
  "toy_request_env = auth_env.extend toy_auth_env \<lparr>query_has = (\<lambda>q name. py_in name q), header_value = map_of\<rparr>"

definition toy_scope :: scope where
  "toy_scope = \<lparr>scope_type = ''http'', scope_client = Some ''10.0.0.1'', query_string = ''x=1'',
     scope_headers = [(''authorization'', ''Bearer gamma''), (''accept'', ''json'')], scope_state = []\<rparr>"

theorem mcp_forward_authenticated_witness:
  "map_of (scope_state (case fst (mcp_auth_call toy_request_env toy_settings 5 ''r1'' toy_scope reset_watchdog) of Forward sc \<Rightarrow> sc | _ \<Rightarrow> toy_scope))
     ''mcp_principal_id'' = Some ''mcp:ammag''"
proof -
  let ?p = "Principal ''mcp:ammag'' Kind_mcp"
  have call: "mcp_auth_call toy_request_env toy_settings 5 ''r1'' toy_scope reset_watchdog =
      (Forward (scrub_scope ''r1'' ?p toy_scope), False, reset_watchdog)" "scope_type toy_scope = ''http''"
    "extract_bearer (header_value toy_request_env (scope_headers toy_scope) ''authorization'') = Some ''gamma''"
    "principal_id_for_mcp_key toy_request_env ''gamma'' = ''mcp:ammag''" by code_simp+
  from mcp_forward_authenticated [OF call(1,2)] call show ?thesis by simp
qed

text \<open>
  Property C23. The pools are apart: when the boot check passes, a request that the MCP middleware lets through
  carries a token that the header dependency of the user routes refuses, unless it is the admin token
  (which the boot check does not look at).
\<close>

theorem mcp_and_user_keys_apart:
  assumes "validate_keys_disjoint (api_keys S) (bridge_api_key S) (beever_mcp_api_keys S) = Inr ()"
    "mcp_auth_call E S now request_id sc w = (Forward sc', alert, w')" "scope_type sc = ''http''"
    "require_user E' S (header_value E (scope_headers sc) ''authorization'') access_token = Granted p"
  shows "extract_bearer (header_value E (scope_headers sc) ''authorization'') = Some (py_strip (admin_token S))"
proof -
  let ?h = "header_value E (scope_headers sc) ''authorization''"
  obtain token where t: "extract_bearer ?h = Some token" "token \<in> set (parse_keys (beever_mcp_api_keys S))"
    using assms(2,3) by (auto simp: mcp_auth_call_def Let_def split: if_splits option.splits dest: match_mcp_key_sound)
  have "user_token S token \<or> bridge_token S token"
    using assms(4) t(1) by (auto simp: require_user_def resolve_header split: if_splits dest: try_chain_sound)
  moreover have "token \<notin> set (parse_keys (api_keys S))" "token \<notin> set (parse_keys (bridge_api_key S))"
    using assms(1) t(2) by (auto simp: validate_keys_disjoint_def pools_disjoint_def list_all_iff Let_def split: if_splits)
  moreover have "py_strip (bridge_api_key S) \<in> set (parse_keys (bridge_api_key S))" if "token = py_strip (bridge_api_key S)"
    using parse_keys_no_comma [OF t(2)] that by (auto intro: single_key)
  ultimately show ?thesis using t(1) by (auto simp: user_token_def bridge_token_def)
qed

theorem mcp_and_user_keys_apart_witness:
  "extract_bearer (header_value toy_request_env (scope_headers toy_scope) ''authorization'')
     = Some (py_strip (admin_token (toy_settings\<lparr>admin_token := ''gamma''\<rparr>)))"
proof -
  let ?S = "toy_settings\<lparr>admin_token := ''gamma''\<rparr>"
  have "validate_keys_disjoint (api_keys ?S) (bridge_api_key ?S) (beever_mcp_api_keys ?S) = Inr ()"
    "mcp_auth_call toy_request_env ?S 5 ''r1'' toy_scope reset_watchdog
      = (Forward (scrub_scope ''r1'' (Principal ''mcp:ammag'' Kind_mcp) toy_scope), False, reset_watchdog)"
    "scope_type toy_scope = ''http''"
    "require_user toy_auth_env ?S (header_value toy_request_env (scope_headers toy_scope) ''authorization'') None
      = Granted (Principal ''user:ammag'' Kind_user)" by code_simp+
  from mcp_and_user_keys_apart [OF this] show ?thesis .
qed

end
