(* ===== verification/Platform_Store.thy ===== *)
theory Platform_Store
  imports Authentication
begin

text \<open>
  The connections of \<^verbatim>\<open>stores/platform_store.py\<close> and \<^verbatim>\<open>models/platform_connection.py\<close>, as a list of
  documents in insertion order. The ciphertext of the credentials is an argument of the operations
  that write it, as are the clock and the fresh id. A document is read back through the model class,
  which refuses a platform, status or source outside its literals: \<^const>\<open>None\<close> where an operation
  yields a connection is that \<^verbatim>\<open>ValidationError\<close>.
\<close>

section \<open>Documents\<close>

record sealed_credentials =
  encrypted_credentials :: string
  credential_iv :: string
  credential_tag :: string

record platform_connection =
  conn_id :: string
  platform :: string
  display_name :: string
  credentials :: sealed_credentials
  selected_channels :: "string list"
  teams_known_team_ids :: "string list"
  conn_status :: string
  error_message :: "string option"
  created_at :: seconds
  updated_at :: seconds
  conn_source :: string
  owner_principal_id :: "string option"

definition valid_connection :: "platform_connection \<Rightarrow> bool" where
  "valid_connection c \<longleftrightarrow>
     platform c \<in> {''slack'', ''discord'', ''teams'', ''telegram'', ''telegram-user'', ''mattermost'', ''file''} \<and>
     conn_status c \<in> {''connected'', ''disconnected'', ''error''} \<and> conn_source c \<in> {''ui'', ''env''}"

definition from_doc :: "platform_connection \<Rightarrow> platform_connection option" where
  "from_doc c = (if valid_connection c then Some c else None)"

fun from_docs :: "platform_connection list \<Rightarrow> platform_connection list option" where
  "from_docs [] = Some []"
| "from_docs (c # cs) = (case from_doc c of None \<Rightarrow> None | Some c' \<Rightarrow> map_option (Cons c') (from_docs cs))"

section \<open>Operations\<close>

definition LEGACY_SHARED_OWNER :: string where
  "LEGACY_SHARED_OWNER = ''legacy:shared''"

text \<open>A missing field and a null one are both \<^const>\<open>None\<close>.\<close>

definition backfill_legacy_owners :: "platform_connection list \<Rightarrow> nat \<times> platform_connection list" where
  "backfill_legacy_owners col =
     (length (filter (\<lambda>c. owner_principal_id c = None) col),
      map (\<lambda>c. if owner_principal_id c = None then c\<lparr>owner_principal_id := Some LEGACY_SHARED_OWNER\<rparr> else c) col)"

record connection_request =
  req_platform :: string
  req_display_name :: string
  req_selected_channels :: "string list option"
  req_status :: string
  req_source :: string
  req_connection_id :: "string option"
  req_owner :: "string option"

definition create_connection ::
  "seconds \<Rightarrow> string \<Rightarrow> sealed_credentials \<Rightarrow> connection_request \<Rightarrow> platform_connection list
     \<Rightarrow> platform_connection option \<times> platform_connection list" where
  "create_connection now fresh_id sealed r col =
     (let c = \<lparr>conn_id = (case req_connection_id r of None \<Rightarrow> fresh_id | Some i \<Rightarrow> if i = [] then fresh_id else i),
               platform = req_platform r, display_name = req_display_name r, credentials = sealed,
               selected_channels = (case req_selected_channels r of None \<Rightarrow> [] | Some chs \<Rightarrow> chs),
               teams_known_team_ids = [], conn_status = req_status r, error_message = None,
               created_at = now, updated_at = now, conn_source = req_source r, owner_principal_id = req_owner r\<rparr>
      in case from_doc c of None \<Rightarrow> (None, col) | Some c' \<Rightarrow> (Some c', col @ [c']))"

text \<open>A read that finds nothing is \<^term>\<open>Some None\<close>.\<close>

definition find_doc :: "(platform_connection \<Rightarrow> bool) \<Rightarrow> platform_connection list \<Rightarrow> platform_connection option option" where
  "find_doc p col = (case find p col of None \<Rightarrow> Some None | Some c \<Rightarrow> map_option Some (from_doc c))"

definition get_connection :: "string \<Rightarrow> platform_connection list \<Rightarrow> platform_connection option option" where
  "get_connection i col = find_doc (\<lambda>c. conn_id c = i) col"

definition list_all_connections :: "platform_connection list \<Rightarrow> platform_connection list option" where
  "list_all_connections col = from_docs col"

definition list_connections_by_source :: "string \<Rightarrow> platform_connection list \<Rightarrow> platform_connection list option" where
  "list_connections_by_source s col = from_docs (filter (\<lambda>c. conn_source c = s) col)"

definition get_connection_by_platform :: "string \<Rightarrow> platform_connection list \<Rightarrow> platform_connection option option" where
  "get_connection_by_platform p col = find_doc (\<lambda>c. platform c = p) col"

definition get_connections_by_platform_and_source :: "string \<Rightarrow> string \<Rightarrow> platform_connection list \<Rightarrow> platform_connection list option" where
  "get_connections_by_platform_and_source p s col = from_docs (filter (\<lambda>c. platform c = p \<and> conn_source c = s) col)"

fun update_first :: "('a \<Rightarrow> bool) \<Rightarrow> ('a \<Rightarrow> 'a) \<Rightarrow> 'a list \<Rightarrow> 'a option \<times> 'a list" where
  "update_first p f [] = (None, [])"
| "update_first p f (x # xs) = (if p x then (Some (f x), f x # xs) else (case update_first p f xs of (r, ys) \<Rightarrow> (r, x # ys)))"

text \<open>\<^verbatim>\<open>find_one_and_update\<close>: the document is written before it is read back.\<close>

definition find_one_and_update ::
  "string \<Rightarrow> (platform_connection \<Rightarrow> platform_connection) \<Rightarrow> platform_connection list
     \<Rightarrow> platform_connection option option \<times> platform_connection list" where
  "find_one_and_update i f col =
     (case update_first (\<lambda>c. conn_id c = i) f col of
        (None, col') \<Rightarrow> (Some None, col')
      | (Some c, col') \<Rightarrow> (map_option Some (from_doc c), col'))"

definition update_connection ::
  "seconds \<Rightarrow> string \<Rightarrow> string option \<Rightarrow> string option \<Rightarrow> string list option \<Rightarrow> sealed_credentials option \<Rightarrow> platform_connection list
     \<Rightarrow> platform_connection option option \<times> platform_connection list" where
  "update_connection now i status err selected sealed col =
     find_one_and_update i (\<lambda>c.
       c\<lparr>updated_at := now,
         conn_status := (case status of None \<Rightarrow> conn_status c | Some s \<Rightarrow> s),
         error_message := (case err of None \<Rightarrow> error_message c | Some e \<Rightarrow> Some e),
         selected_channels := (case selected of None \<Rightarrow> selected_channels c | Some chs \<Rightarrow> chs),
         credentials := (case sealed of None \<Rightarrow> credentials c | Some s \<Rightarrow> s)\<rparr>) col"

definition add_teams_known_team_id ::
  "seconds \<Rightarrow> string \<Rightarrow> string \<Rightarrow> platform_connection list \<Rightarrow> platform_connection option option \<times> platform_connection list" where
  "add_teams_known_team_id now i aad_group_id col =
     find_one_and_update i (\<lambda>c.
       c\<lparr>teams_known_team_ids :=
           (if aad_group_id \<in> set (teams_known_team_ids c) then teams_known_team_ids c else teams_known_team_ids c @ [aad_group_id]),
         updated_at := now\<rparr>) col"

definition delete_connection :: "string \<Rightarrow> platform_connection list \<Rightarrow> bool \<times> platform_connection list" where
  "delete_connection i col =
     (case List.extract (\<lambda>c. conn_id c = i) col of
        None \<Rightarrow> (False, col)
      | Some (before, c, after) \<Rightarrow> (True, before @ after))"

section \<open>Lemmas\<close>

lemma from_docs_valid: "list_all valid_connection cs \<Longrightarrow> from_docs cs = Some cs"
  by (induction cs) (simp_all add: from_doc_def)

lemma from_docs_Some: "from_docs cs = Some ds \<longleftrightarrow> list_all valid_connection cs \<and> ds = cs"
  by (induction cs arbitrary: ds) (auto simp: from_doc_def split: if_splits)

lemma create_connection_Some:
  "create_connection now fresh sealed r col = (Some c, col') \<Longrightarrow>
     col' = col @ [c] \<and> valid_connection c \<and> owner_principal_id c = req_owner r \<and>
     selected_channels c = (case req_selected_channels r of None \<Rightarrow> [] | Some chs \<Rightarrow> chs)"
  by (auto simp: create_connection_def from_doc_def Let_def split: option.splits if_splits)

lemma backfill_valid: "list_all valid_connection (snd (backfill_legacy_owners col)) = list_all valid_connection col"
proof -
  have "valid_connection \<circ> (\<lambda>c. if owner_principal_id c = None then c\<lparr>owner_principal_id := Some LEGACY_SHARED_OWNER\<rparr> else c)
      = valid_connection"
    by (auto simp: valid_connection_def fun_eq_iff)
  then show ?thesis by (simp add: backfill_legacy_owners_def list.pred_map)
qed

text \<open>The backfill leaves nothing for a second run.\<close>

lemma backfill_idempotent: "backfill_legacy_owners (snd (backfill_legacy_owners col)) = (0, snd (backfill_legacy_owners col))"
  by (auto simp: backfill_legacy_owners_def filter_empty_conv map_idI)

text \<open>No update of a connection gives it away.\<close>

lemma update_first_owner:
  "(\<And>c. owner_principal_id (f c) = owner_principal_id c) \<Longrightarrow> (\<And>c. conn_id (f c) = conn_id c) \<Longrightarrow>
     map (\<lambda>c. (conn_id c, owner_principal_id c)) (snd (update_first p f col)) = map (\<lambda>c. (conn_id c, owner_principal_id c)) col"
  by (induction col) (auto split: prod.splits)

lemma find_one_and_update_owner:
  assumes "\<And>c. owner_principal_id (f c) = owner_principal_id c" "\<And>c. conn_id (f c) = conn_id c"
  shows "map (\<lambda>c. (conn_id c, owner_principal_id c)) (snd (find_one_and_update i f col)) = map (\<lambda>c. (conn_id c, owner_principal_id c)) col"
  using update_first_owner [of f "\<lambda>c. conn_id c = i" col] assms
  by (auto simp: find_one_and_update_def split: prod.splits option.splits)

end
