(* ===== verification/Channel_Access.thy ===== *)
theory Channel_Access
  imports Platform_Store "HOL-Library.List_Lexorder" "HOL-Library.Char_ord"
begin

text \<open>
  Who may read and delete a channel: the guards of \<^verbatim>\<open>infra/channel_access.py\<close>, the listings of
  \<^verbatim>\<open>capabilities/connections.py\<close> and the discovery with its cache in
  \<^verbatim>\<open>services/channel_discovery.py\<close>. The guards take the connections the store returns. A guard's
  value is whether it returns; otherwise it raises its one exception.
\<close>

section \<open>Guards\<close>

text \<open>A caller is a principal or a bare string.\<close>

datatype caller = Caller principal | Bare string

fun principal_id :: "caller \<Rightarrow> string" where
  "principal_id (Caller p) = Principal_id p"
| "principal_id (Bare s) = s"

fun principal_kind :: "caller \<Rightarrow> kind" where
  "principal_kind (Caller p) = Principal_kind p"
| "principal_kind (Bare s) =
     (if py_startswith s ''mcp:'' then Kind_mcp else if py_startswith s ''bridge'' then Kind_bridge else Kind_user)"

definition matching_connections :: "string \<Rightarrow> platform_connection list \<Rightarrow> platform_connection list" where
  "matching_connections channel_id connections = filter (\<lambda>c. channel_id \<in> set (selected_channels c)) connections"

definition owned_by :: "string \<Rightarrow> platform_connection \<Rightarrow> bool" where
  "owned_by pid c = (case owner_principal_id c of None \<Rightarrow> False | Some owner \<Rightarrow> owner \<noteq> [] \<and> owner = pid)"

definition legacy_owned :: "platform_connection \<Rightarrow> bool" where
  "legacy_owned c \<longleftrightarrow> owner_principal_id c = None \<or> owner_principal_id c = Some LEGACY_SHARED_OWNER"

definition assert_channel_access :: "bool \<Rightarrow> platform_connection list \<Rightarrow> caller \<Rightarrow> string \<Rightarrow> bool" where
  "assert_channel_access single_tenant connections p channel_id =
     (let matching = matching_connections channel_id connections; pid = principal_id p; kind = principal_kind p
      in if matching = [] then single_tenant \<and> kind \<in> {Kind_user, Kind_mcp}
         else if list_ex (owned_by pid) matching then True
         else if single_tenant \<and> kind \<in> {Kind_user, Kind_mcp} \<and> list_all legacy_owned matching then True
         else single_tenant \<and> kind = Kind_mcp)"

definition assert_channel_delete_access :: "bool \<Rightarrow> platform_connection list \<Rightarrow> caller \<Rightarrow> string \<Rightarrow> bool" where
  "assert_channel_delete_access single_tenant connections p channel_id =
     (let pid = principal_id p; kind = principal_kind p; elevated = (pid = ''admin'')
      in if single_tenant then kind \<in> {Kind_user, Kind_mcp} \<or> elevated
         else let matching = matching_connections channel_id connections
              in if matching = [] then elevated else if list_ex (owned_by pid) matching then True else elevated)"

text \<open>The connection is what the store's \<^verbatim>\<open>get_connection\<close> returns.\<close>

definition assert_connection_owned :: "bool \<Rightarrow> platform_connection option \<Rightarrow> caller \<Rightarrow> bool" where
  "assert_connection_owned single_tenant conn p =
     (case conn of
        None \<Rightarrow> False
      | Some c \<Rightarrow>
          if owned_by (principal_id p) c then True
          else if single_tenant \<and> principal_kind p \<in> {Kind_user, Kind_mcp} \<and> legacy_owned c then True
          else single_tenant \<and> principal_kind p = Kind_mcp)"

section \<open>Listing connections\<close>

text \<open>
  The batch read of sync states is a parameter: the last sync time of each channel that has a state,
  \<^const>\<open>None\<close> when the read fails.
\<close>

type_synonym state_reader = "string list \<Rightarrow> (string \<rightharpoonup> string) option"

definition batch_sync_states :: "state_reader \<Rightarrow> string list \<Rightarrow> string \<rightharpoonup> string" where
  "batch_sync_states read channel_ids =
     (if channel_ids = [] then Map.empty else case read channel_ids of None \<Rightarrow> Map.empty | Some m \<Rightarrow> m)"

definition connection_visible :: "bool \<Rightarrow> string \<Rightarrow> platform_connection \<Rightarrow> bool" where
  "connection_visible single_tenant pid c \<longleftrightarrow>
     owner_principal_id c = Some pid \<or> single_tenant \<and> legacy_owned c \<or> single_tenant \<and> py_startswith pid ''mcp:''"

record connection_summary =
  sum_connection_id :: string
  sum_platform :: string
  sum_display_name :: string
  sum_status :: string
  last_synced_at :: "string option"
  selected_channel_count :: nat
  sum_source :: string

definition py_max :: "string list \<Rightarrow> string option" where
  "py_max xs = (case xs of [] \<Rightarrow> None | y # ys \<Rightarrow> Some (fold max ys y))"

definition summarise :: "(string \<rightharpoonup> string) \<Rightarrow> platform_connection \<Rightarrow> connection_summary" where
  "summarise states c =
     \<lparr>sum_connection_id = conn_id c, sum_platform = platform c, sum_display_name = display_name c, sum_status = conn_status c,
      last_synced_at = (if platform c = ''file'' \<or> selected_channels c = [] then None
                        else py_max (List.map_filter states (selected_channels c))),
      selected_channel_count = length (selected_channels c), sum_source = conn_source c\<rparr>"

definition list_connections :: "bool \<Rightarrow> state_reader \<Rightarrow> platform_connection list \<Rightarrow> string \<Rightarrow> connection_summary list" where
  "list_connections single_tenant read connections pid =
     (let visible = filter (connection_visible single_tenant pid) connections;
          all_selected = remdups (concat (map selected_channels (filter (\<lambda>c. platform c \<noteq> ''file'') visible)));
          states = batch_sync_states read all_selected
      in map (summarise states) visible)"

section \<open>Channel discovery\<close>

record channel_info =
  ci_channel_id :: string
  ci_name :: string
  ci_platform :: string
  is_member :: bool

type_synonym channel_cache = "(string, seconds \<times> channel_info list) dict"

definition CHANNEL_CACHE_TTL :: seconds where
  "CHANNEL_CACHE_TTL = 60"

definition apply_filters :: "channel_info list \<Rightarrow> string list \<Rightarrow> bool \<Rightarrow> channel_info list" where
  "apply_filters channels selected is_member_only =
     (if selected \<noteq> [] then filter (\<lambda>ch. ci_channel_id ch \<in> set selected) channels
      else if is_member_only then filter is_member channels else channels)"

text \<open>
  The world outside: the bridge's answer for a connection (\<^const>\<open>None\<close> for an error or the timeout)
  and the display name of a channel (the outer \<^const>\<open>None\<close> is a failed read).
\<close>

record discovery_env =
  bridge_channels :: "string \<Rightarrow> channel_info list option"
  channel_display_name :: "string \<Rightarrow> string option option"

fun fetch_file_connection_channels :: "discovery_env \<Rightarrow> string list \<Rightarrow> channel_info list option" where
  "fetch_file_connection_channels D [] = Some []"
| "fetch_file_connection_channels D (cid # cids) =
     (case channel_display_name D cid of
        None \<Rightarrow> None
      | Some name \<Rightarrow>
          let ci = \<lparr>ci_channel_id = cid, ci_name = (case name of None \<Rightarrow> cid | Some n \<Rightarrow> if n = [] then cid else n),
                    ci_platform = ''file'', is_member = True\<rparr>
          in map_option (Cons ci) (fetch_file_connection_channels D cids))"

text \<open>The clock is read before the cache is trusted and again after the bridge has answered.\<close>

definition fetch_connection_channels ::
  "discovery_env \<Rightarrow> seconds \<Rightarrow> seconds \<Rightarrow> string \<Rightarrow> string list \<Rightarrow> string \<Rightarrow> bool \<Rightarrow> channel_cache
     \<Rightarrow> channel_info list option \<times> channel_cache" where
  "fetch_connection_channels D now fetched_at conn selected plat is_member_only cache =
     (if plat = ''file'' then (fetch_file_connection_channels D selected, cache)
      else
        let fresh = (case bridge_channels D conn of
              None \<Rightarrow> (None, cache)
            | Some channels \<Rightarrow> (Some (apply_filters channels selected is_member_only), AList.update conn (fetched_at, channels) cache))
        in case map_of cache conn of
             None \<Rightarrow> fresh
           | Some (cached_at, cached) \<Rightarrow>
               if now - cached_at < CHANNEL_CACHE_TTL then (Some (apply_filters cached selected is_member_only), cache) else fresh)"

definition fetch_connection_channels_safe ::
  "discovery_env \<Rightarrow> seconds \<Rightarrow> seconds \<Rightarrow> string \<Rightarrow> string list \<Rightarrow> string \<Rightarrow> bool \<Rightarrow> channel_cache \<Rightarrow> channel_info list \<times> channel_cache" where
  "fetch_connection_channels_safe D now fetched_at conn selected plat is_member_only cache =
     (case fetch_connection_channels D now fetched_at conn selected plat is_member_only cache of
        (None, cache') \<Rightarrow> ([], cache')
      | (Some channels, cache') \<Rightarrow> (channels, cache'))"

section \<open>Listing channels\<close>

record channel_row =
  row_channel_id :: string
  row_name :: string
  row_platform :: string
  last_sync_ts :: "string option"
  sync_status :: string
  message_count_estimate :: "nat option"

type_synonym full_state_reader = "string list \<Rightarrow> (string \<rightharpoonup> string \<times> nat) option"

definition channel_row_of :: "platform_connection \<Rightarrow> (string \<rightharpoonup> string \<times> nat) \<Rightarrow> channel_info \<Rightarrow> channel_row" where
  "channel_row_of c states ch =
     (let state = (if platform c = ''file'' then None else states (ci_channel_id ch)) in
      \<lparr>row_channel_id = ci_channel_id ch, row_name = (if ci_name ch = [] then ci_channel_id ch else ci_name ch),
       row_platform = (if ci_platform ch = [] then platform c else ci_platform ch),
       last_sync_ts = map_option fst state,
       sync_status = (if platform c = ''file'' then ''n/a'' else if state = None then ''never_synced'' else ''synced''),
       message_count_estimate = map_option snd state\<rparr>)"

text \<open>
  The connection is read twice, by the guard and by the listing. \<^const>\<open>Inl\<close> is
  \<^verbatim>\<open>ConnectionAccessDenied\<close> with the connection's id.
\<close>

definition list_channels ::
  "bool \<Rightarrow> full_state_reader \<Rightarrow> discovery_env \<Rightarrow> seconds \<Rightarrow> seconds \<Rightarrow> platform_connection option \<Rightarrow> platform_connection option
     \<Rightarrow> string \<Rightarrow> string \<Rightarrow> channel_cache \<Rightarrow> (string + channel_row list) \<times> channel_cache" where
  "list_channels single_tenant read D now fetched_at guarded conn pid i cache =
     (if \<not> assert_connection_owned single_tenant guarded (Bare pid) then (Inl i, cache)
      else case conn of
        None \<Rightarrow> (Inl i, cache)
      | Some c \<Rightarrow>
          (case fetch_connection_channels_safe D now fetched_at (conn_id c) (selected_channels c) (platform c) True cache of
             (channels, cache') \<Rightarrow>
               let ids = map ci_channel_id channels;
                   states = (if channels = [] \<or> platform c = ''file'' then Map.empty
                             else case read ids of None \<Rightarrow> Map.empty | Some m \<Rightarrow> m)
               in (Inr (map (channel_row_of c states) channels), cache')))"

section \<open>Properties\<close>

text \<open>What the documentation's decision table promises.\<close>

definition may_read :: "bool \<Rightarrow> platform_connection list \<Rightarrow> string \<Rightarrow> kind \<Rightarrow> string \<Rightarrow> bool" where
  "may_read single_tenant connections pid kind channel_id \<longleftrightarrow>
     (let claims = {c \<in> set connections. channel_id \<in> set (selected_channels c)} in
      (\<exists>c \<in> claims. pid \<noteq> [] \<and> owner_principal_id c = Some pid) \<or>
      single_tenant \<and> (kind = Kind_mcp \<or> kind = Kind_user \<and> (\<forall>c \<in> claims. legacy_owned c)))"


text \<open>
  In a multi-tenant deployment the delete guard is as strict as the read guard: whoever is not the
  admin may delete exactly what it may read.
\<close>

theorem multi_tenant_delete_is_read:
  assumes "principal_id p \<noteq> ''admin''"
  shows "assert_channel_delete_access False connections p channel_id = assert_channel_access False connections p channel_id"
  using assms by (simp add: assert_channel_delete_access_def assert_channel_access_def Let_def)

theorem multi_tenant_delete_is_read_witness:
  "\<not> assert_channel_delete_access False [] (Bare ''user:ab'') ''C1''"
  by (subst multi_tenant_delete_is_read) (simp_all add: assert_channel_access_def matching_connections_def)

definition toy_connection :: "string \<Rightarrow> string option \<Rightarrow> string list \<Rightarrow> platform_connection" where
  "toy_connection i owner chs =
     \<lparr>conn_id = i, platform = ''slack'', display_name = i, credentials = \<lparr>encrypted_credentials = [], credential_iv = [], credential_tag = []\<rparr>,
      selected_channels = chs, teams_known_team_ids = [], conn_status = ''connected'', error_message = None, created_at = 0, updated_at = 0,
      conn_source = ''ui'', owner_principal_id = owner\<rparr>"

text \<open>In a single-tenant deployment a user may delete a channel that the read guard denies it.\<close>

theorem single_tenant_delete_is_laxer:
  "let p = Caller (Principal ''user:ab'' Kind_user); connections = [toy_connection ''k1'' (Some ''user:cd'') [''C1'']] in
     \<not> assert_channel_access True connections p ''C1'' \<and> assert_channel_delete_access True connections p ''C1''"
  by code_simp

text \<open>
  The listing of connections and the guard of a single connection agree for user and MCP callers:
  with distinct connection ids, a connection is in the list if and only if the guard admits its id.
\<close>

theorem connection_list_agrees:
  assumes "distinct (map conn_id connections)" "pid \<noteq> []" "\<not> py_startswith pid ''bridge''"
  shows "i \<in> set (map sum_connection_id (list_connections single_tenant read connections pid))
    \<longleftrightarrow> assert_connection_owned single_tenant (find (\<lambda>c. conn_id c = i) connections) (Bare pid)"
proof -
  have same: "connection_visible single_tenant pid c \<longleftrightarrow> assert_connection_owned single_tenant (Some c) (Bare pid)" for c
    using assms(2,3) by (auto simp: connection_visible_def assert_connection_owned_def owned_by_def split: option.splits)
  have "i \<in> set (map sum_connection_id (list_connections single_tenant read connections pid))
      \<longleftrightarrow> (\<exists>c \<in> set connections. conn_id c = i \<and> connection_visible single_tenant pid c)"
    by (auto simp: list_connections_def Let_def summarise_def)
  also have "\<dots> \<longleftrightarrow> (case find (\<lambda>c. conn_id c = i) connections of None \<Rightarrow> False | Some c \<Rightarrow> connection_visible single_tenant pid c)"
    using assms(1) by (induction connections) (auto, metis image_eqI)
  finally show ?thesis by (simp add: same assert_connection_owned_def split: option.split)
qed

theorem connection_list_agrees_witness:
  "''k1'' \<in> set (map sum_connection_id (list_connections True (\<lambda>_. None) [toy_connection ''k1'' None [''C1'']] ''user:ab''))"
  by (subst connection_list_agrees) (code_simp)+

text \<open>A bridge caller is listed connections that the guard then refuses it.\<close>

theorem bridge_list_disagrees:
  "let connections = [toy_connection ''k1'' None [''C1'']] in
     map sum_connection_id (list_connections True (\<lambda>_. None) connections ''bridge'') = [''k1''] \<and>
     \<not> assert_connection_owned True (find (\<lambda>c. conn_id c = ''k1'') connections) (Bare ''bridge'')"
  by code_simp

lemma backfill_matching:
  "matching_connections ch (snd (backfill_legacy_owners connections)) = snd (backfill_legacy_owners (matching_connections ch connections))"
  by (induction connections) (auto simp: matching_connections_def backfill_legacy_owners_def)

lemma backfill_lists:
  assumes "pid \<noteq> LEGACY_SHARED_OWNER"
  shows "list_ex (owned_by pid) (snd (backfill_legacy_owners cs)) = list_ex (owned_by pid) cs"
    "list_all legacy_owned (snd (backfill_legacy_owners cs)) = list_all legacy_owned cs"
    "snd (backfill_legacy_owners cs) = [] \<longleftrightarrow> cs = []"
  using assms by (induction cs) (auto simp: backfill_legacy_owners_def owned_by_def legacy_owned_def)

text \<open>
  The startup backfill changes nobody's rights: stamping the unowned rows with the sentinel leaves the
  answer of both channel guards the same for every caller that is not the sentinel itself.
\<close>

theorem backfill_preserves_access:
  assumes "principal_id p \<noteq> LEGACY_SHARED_OWNER"
  shows "assert_channel_access single_tenant (snd (backfill_legacy_owners connections)) p channel_id
      = assert_channel_access single_tenant connections p channel_id \<and>
    assert_channel_delete_access single_tenant (snd (backfill_legacy_owners connections)) p channel_id
      = assert_channel_delete_access single_tenant connections p channel_id"
  using backfill_lists [OF assms, of "matching_connections channel_id connections"]
  by (simp add: assert_channel_access_def assert_channel_delete_access_def backfill_matching Let_def)

theorem backfill_preserves_access_witness:
  "\<not> assert_channel_access False (snd (backfill_legacy_owners [toy_connection ''k1'' None [''C1'']])) (Bare ''user:ab'') ''C1''"
  by (subst backfill_preserves_access [THEN conjunct1]) (code_simp)+

text \<open>
  Creating a connection opens its channels to its owner and to nobody else: in a multi-tenant
  deployment, after a creation the callers that may read a channel are those that could before, and,
  for the channels the request selects, the owner it names.
\<close>

theorem creation_grants_owner_only:
  assumes "create_connection now fresh sealed r col = (Some c, col')"
  shows "assert_channel_access False col' p channel_id \<longleftrightarrow>
    assert_channel_access False col p channel_id \<or>
    (case req_selected_channels r of None \<Rightarrow> False | Some chs \<Rightarrow> channel_id \<in> set chs) \<and>
    principal_id p \<noteq> [] \<and> req_owner r = Some (principal_id p)"
  using create_connection_Some [OF assms]
  by (auto simp: assert_channel_access_def matching_connections_def owned_by_def list_ex_iff Let_def filter_empty_conv split: option.splits)

theorem creation_grants_owner_only_witness:
  "let r = \<lparr>req_platform = ''slack'', req_display_name = ''w'', req_selected_channels = Some [''C1''], req_status = ''connected'',
            req_source = ''ui'', req_connection_id = None, req_owner = Some ''user:ab''\<rparr>;
       sealed = \<lparr>encrypted_credentials = [], credential_iv = [], credential_tag = []\<rparr>
   in assert_channel_access False (snd (create_connection 0 ''k1'' sealed r [])) (Bare ''user:ab'') ''C1''"
proof -
  let ?r = "\<lparr>req_platform = ''slack'', req_display_name = ''w'', req_selected_channels = Some [''C1''], req_status = ''connected'',
            req_source = ''ui'', req_connection_id = None, req_owner = Some ''user:ab''\<rparr>"
  let ?s = "\<lparr>encrypted_credentials = [], credential_iv = [], credential_tag = []\<rparr> :: sealed_credentials"
  have c: "create_connection 0 ''k1'' ?s ?r [] = (Some (the (fst (create_connection 0 ''k1'' ?s ?r []))), snd (create_connection 0 ''k1'' ?s ?r []))"
    by (simp add: create_connection_def from_doc_def valid_connection_def Let_def)
  show ?thesis using creation_grants_owner_only [OF c, of "Bare ''user:ab''" "''C1''"] by (simp add: Let_def)
qed

end
