(* ===== verification/Entity_Dedup.thy ===== *)
theory Entity_Dedup
  imports Py_Strings
begin

text \<open>
  The deduplication of extracted entities across batches (\<^verbatim>\<open>services/entity_dedup.py\<close>) over the
  models of \<^verbatim>\<open>agents/schemas/extraction.py\<close>. The validation of a raw row, the embedding service, the
  table of rejected merges and the resolver of ambiguous pairs are parameters. Vectors hold rationals
  and the cosine is compared exactly; the rounding of the floating-point division is not modelled.
\<close>

section \<open>Entities\<close>

record entity_properties =
  prop_role :: "string option"
  prop_team :: "string option"
  prop_email :: "string option"
  prop_version :: "string option"
  prop_language :: "string option"
  prop_category :: "string option"
  prop_status :: "string option"
  prop_repo :: "string option"
  prop_owner :: "string option"
  prop_rationale :: "string option"
  prop_alternatives_considered :: "string option"
  prop_decided_by :: "string option"
  prop_visual_description :: "string option"

record extracted_entity =
  ent_name :: string
  ent_type :: string
  ent_scope :: string
  ent_properties :: entity_properties
  ent_aliases :: "string list"
  ent_status :: string
  ent_source_message_id :: string
  ent_source_lang :: string

record extracted_relationship =
  rel_type :: string
  rel_source :: string
  rel_target :: string
  rel_confidence :: rat
  rel_valid_from :: "string option"
  rel_context :: string

record merge_record =
  canonical :: string
  merged_from :: "string list"

section \<open>Names\<close>

definition is_punctuation :: "char \<Rightarrow> bool" where
  "is_punctuation c = (let n = ord c in 33 \<le> n \<and> n \<le> 47 \<or> 58 \<le> n \<and> n \<le> 64 \<or> 91 \<le> n \<and> n \<le> 96 \<or> 123 \<le> n \<and> n \<le> 126)"

text \<open>\<^verbatim>\<open>re.sub(r"\s+", " ", s)\<close>; the flag tells that the last character read was whitespace.\<close>

fun collapse_ws :: "bool \<Rightarrow> string \<Rightarrow> string" where
  "collapse_ws in_ws [] = []"
| "collapse_ws in_ws (c # cs) =
     (if py_isspace c then (if in_ws then collapse_ws True cs else CHR '' '' # collapse_ws True cs) else c # collapse_ws False cs)"

definition normalize_name :: "string \<Rightarrow> string" where
  "normalize_name name = py_strip (collapse_ws False (map (\<lambda>c. if is_punctuation c then CHR '' '' else c) (py_lower name)))"

section \<open>Similarity\<close>

definition COSINE_MERGE_THRESHOLD :: rat where
  "COSINE_MERGE_THRESHOLD = 92 / 100"

definition COSINE_AMBIGUOUS_LOWER :: rat where
  "COSINE_AMBIGUOUS_LOWER = 85 / 100"

definition MAX_LLM_FALLBACK_PAIRS :: nat where
  "MAX_LLM_FALLBACK_PAIRS = 5"

definition dot_product :: "rat list \<Rightarrow> rat list \<Rightarrow> rat" where
  "dot_product xs ys = sum_list (map (\<lambda>(x, y). x * y) (zip xs ys))"

text \<open>The squared norms run over the common prefix, as the loop over \<^verbatim>\<open>zip\<close> does.\<close>

definition cosine_similarity :: "rat list \<Rightarrow> rat list \<Rightarrow> real" where
  "cosine_similarity va vb =
     (let n = min (length va) (length vb); na = dot_product (take n va) (take n va); nb = dot_product (take n vb) (take n vb)
      in if va = [] \<or> vb = [] then 0 else if na = 0 \<or> nb = 0 then 0
         else of_rat (dot_product va vb) / (sqrt (of_rat na) * sqrt (of_rat nb)))"

text \<open>The comparison with a positive threshold, without the roots.\<close>

definition cosine_at_least :: "rat \<Rightarrow> rat list \<Rightarrow> rat list \<Rightarrow> bool" where
  "cosine_at_least threshold va vb =
     (let n = min (length va) (length vb); na = dot_product (take n va) (take n va); nb = dot_product (take n vb) (take n vb);
          dot = dot_product va vb
      in va \<noteq> [] \<and> vb \<noteq> [] \<and> na \<noteq> 0 \<and> nb \<noteq> 0 \<and> 0 \<le> dot \<and> threshold * threshold * (na * nb) \<le> dot * dot)"

section \<open>Merging\<close>

definition truthy :: "string option \<Rightarrow> bool" where
  "truthy v \<longleftrightarrow> v \<noteq> None \<and> v \<noteq> Some []"

definition fill_prop :: "string option \<Rightarrow> string option \<Rightarrow> string option" where
  "fill_prop prim sec = (if truthy sec \<and> \<not> truthy prim then sec else prim)"

definition fill_properties :: "entity_properties \<Rightarrow> entity_properties \<Rightarrow> entity_properties" where
  "fill_properties p s =
     \<lparr>prop_role = fill_prop (prop_role p) (prop_role s), prop_team = fill_prop (prop_team p) (prop_team s),
      prop_email = fill_prop (prop_email p) (prop_email s), prop_version = fill_prop (prop_version p) (prop_version s),
      prop_language = fill_prop (prop_language p) (prop_language s), prop_category = fill_prop (prop_category p) (prop_category s),
      prop_status = fill_prop (prop_status p) (prop_status s), prop_repo = fill_prop (prop_repo p) (prop_repo s),
      prop_owner = fill_prop (prop_owner p) (prop_owner s), prop_rationale = fill_prop (prop_rationale p) (prop_rationale s),
      prop_alternatives_considered = fill_prop (prop_alternatives_considered p) (prop_alternatives_considered s),
      prop_decided_by = fill_prop (prop_decided_by p) (prop_decided_by s),
      prop_visual_description = fill_prop (prop_visual_description p) (prop_visual_description s)\<rparr>"

definition add_alias :: "string \<Rightarrow> string \<Rightarrow> string list \<Rightarrow> string list" where
  "add_alias primary candidate aliases =
     (if candidate = [] \<or> candidate = primary \<or> candidate \<in> set aliases then aliases else aliases @ [candidate])"

definition merge_two :: "extracted_entity \<Rightarrow> extracted_entity \<Rightarrow> extracted_entity" where
  "merge_two primary secondary =
     primary\<lparr>ent_aliases := fold (add_alias (ent_name primary)) (ent_name secondary # ent_aliases secondary) (ent_aliases primary),
       ent_properties := fill_properties (ent_properties primary) (ent_properties secondary),
       ent_source_message_id :=
         (if ent_source_message_id primary = [] \<and> ent_source_message_id secondary \<noteq> [] then ent_source_message_id secondary
          else ent_source_message_id primary)\<rparr>"

section \<open>Exact matches\<close>

text \<open>
  A row of the graph; a name or alias that is no string is \<^const>\<open>None\<close>. The state of the pass: the
  entities by normalized canonical name, and the table of renames.
\<close>

record prior_entity =
  prior_name :: "string option"
  prior_aliases :: "string option list"

type_synonym buckets = "(string, extracted_entity) dict"
type_synonym renames = "(string, string) dict"

definition set_default :: "'k \<Rightarrow> 'v \<Rightarrow> ('k, 'v) dict \<Rightarrow> ('k, 'v) dict" where
  "set_default k v d = (case map_of d k of None \<Rightarrow> AList.update k v d | Some _ \<Rightarrow> d)"

definition add_prior :: "prior_entity \<Rightarrow> renames \<Rightarrow> renames" where
  "add_prior prior m =
     (let canonical = py_strip (case prior_name prior of None \<Rightarrow> [] | Some n \<Rightarrow> n);
          entry = (\<lambda>norm m. if norm = [] then m else set_default norm canonical m)
      in if canonical = [] then m
         else fold (\<lambda>a. entry (normalize_name (case a of None \<Rightarrow> [] | Some n \<Rightarrow> n))) (prior_aliases prior)
                (entry (normalize_name canonical) m))"

definition prior_canonicals :: "prior_entity list \<Rightarrow> renames" where
  "prior_canonicals priors = fold add_prior priors []"

definition rename_head :: "string \<Rightarrow> extracted_entity \<Rightarrow> extracted_entity" where
  "rename_head canonical_name head =
     (if ent_name head = canonical_name then head
      else head\<lparr>ent_aliases :=
                  (if normalize_name (ent_name head) \<noteq> normalize_name canonical_name \<and> ent_name head \<noteq> [] \<and>
                      ent_name head \<notin> set (ent_aliases head)
                   then ent_aliases head @ [ent_name head] else ent_aliases head),
                ent_name := canonical_name\<rparr>)"

definition exact_step :: "renames \<Rightarrow> extracted_entity \<Rightarrow> buckets \<times> renames \<Rightarrow> buckets \<times> renames" where
  "exact_step priors ent st =
     (let (buckets, renames) = st; norm = normalize_name (ent_name ent) in
      if norm = [] then st
      else
        let (canonical_name, canonical_norm) =
              (case map_of priors norm of
                 Some p \<Rightarrow> if p = [] then (ent_name ent, norm) else (p, normalize_name p)
               | None \<Rightarrow> (ent_name ent, norm))
        in case map_of buckets canonical_norm of
             Some existing \<Rightarrow>
               (AList.update canonical_norm (merge_two existing ent) buckets, AList.update (ent_name ent) (ent_name existing) renames)
           | None \<Rightarrow>
               (AList.update canonical_norm (rename_head canonical_name ent) buckets,
                AList.update (ent_name ent) canonical_name renames))"

definition add_aliases :: "string \<Rightarrow> string list \<Rightarrow> renames \<Rightarrow> renames" where
  "add_aliases name aliases renames = fold (\<lambda>a. set_default a name) aliases renames"

definition exact_tier :: "renames \<Rightarrow> extracted_entity list \<Rightarrow> buckets \<times> renames" where
  "exact_tier priors ents =
     (let (buckets, renames) = fold (exact_step priors) ents ([], [])
      in (buckets, fold (\<lambda>(k, h). add_aliases (ent_name h) (ent_aliases h)) buckets renames))"

section \<open>Similar names\<close>

record dedup_registry =
  name_embeddings :: "string list \<Rightarrow> (string \<rightharpoonup> rat list) option"
  is_merge_rejected :: "string \<Rightarrow> string \<Rightarrow> bool"

fun all_pairs :: "'a list \<Rightarrow> ('a \<times> 'a) list" where
  "all_pairs [] = []"
| "all_pairs (x # xs) = map (Pair x) xs @ all_pairs xs"

text \<open>The entity under the second key goes into the one under the first.\<close>

definition absorb :: "string \<Rightarrow> string \<Rightarrow> buckets \<times> renames \<Rightarrow> buckets \<times> renames" where
  "absorb norm_a norm_b st =
     (let (buckets, renames) = st in
      case (map_of buckets norm_a, map_of buckets norm_b) of
        (Some a, Some b) \<Rightarrow>
          let merged = merge_two a b in
          (AList.delete norm_b (AList.update norm_a merged buckets),
           add_aliases (ent_name merged) (ent_aliases b) (AList.update (ent_name b) (ent_name merged) renames))
      | _ \<Rightarrow> st)"

definition cosine_step ::
  "dedup_registry \<Rightarrow> (string \<rightharpoonup> rat list) \<Rightarrow> string \<times> string \<Rightarrow> (buckets \<times> renames) \<times> (string \<times> string) list
     \<Rightarrow> (buckets \<times> renames) \<times> (string \<times> string) list" where
  "cosine_step R vectors pair acc =
     (let (st, ambiguous) = acc in
      case (map_of (fst st) (fst pair), map_of (fst st) (snd pair)) of
        (Some a, Some b) \<Rightarrow>
          if is_merge_rejected R (ent_name a) (ent_name b) then acc
          else
            let vector = (\<lambda>e. case vectors (ent_name e) of None \<Rightarrow> [] | Some v \<Rightarrow> v) in
            if cosine_at_least COSINE_MERGE_THRESHOLD (vector a) (vector b) then (absorb (fst pair) (snd pair) st, ambiguous)
            else if cosine_at_least COSINE_AMBIGUOUS_LOWER (vector a) (vector b) then (st, ambiguous @ [pair])
            else acc
      | _ \<Rightarrow> acc)"

definition cosine_tier :: "dedup_registry option \<Rightarrow> buckets \<times> renames \<Rightarrow> (buckets \<times> renames) \<times> (string \<times> string) list" where
  "cosine_tier registry st =
     (case registry of
        None \<Rightarrow> (st, [])
      | Some R \<Rightarrow>
          if length (fst st) \<le> 1 then (st, [])
          else case name_embeddings R (map (\<lambda>(k, h). ent_name h) (fst st)) of
            None \<Rightarrow> (st, [])
          | Some vectors \<Rightarrow> fold (cosine_step R vectors) (all_pairs (map fst (fst st))) (st, []))"

section \<open>Ambiguous names\<close>

text \<open>The default resolver never merges; the pass takes the resolver as an argument, as the tests patch it.\<close>

definition llm_resolve_pair :: "string \<Rightarrow> string \<Rightarrow> bool" where
  "llm_resolve_pair name_a name_b = False"

definition fallback_step ::
  "bool \<Rightarrow> (string \<Rightarrow> string \<Rightarrow> bool) \<Rightarrow> string \<times> string \<Rightarrow> (buckets \<times> renames) \<times> nat \<Rightarrow> (buckets \<times> renames) \<times> nat" where
  "fallback_step enabled resolve pair acc =
     (let (st, n) = acc in
      case (map_of (fst st) (fst pair), map_of (fst st) (snd pair)) of
        (Some a, Some b) \<Rightarrow>
          if \<not> enabled then acc
          else if resolve (ent_name a) (ent_name b) then (absorb (fst pair) (snd pair) st, Suc n)
          else (st, Suc n)
      | _ \<Rightarrow> acc)"

definition fallback_tier ::
  "bool \<Rightarrow> (string \<Rightarrow> string \<Rightarrow> bool) \<Rightarrow> (buckets \<times> renames) \<times> (string \<times> string) list \<Rightarrow> (buckets \<times> renames) \<times> nat" where
  "fallback_tier enabled resolve acc =
     fold (fallback_step enabled resolve) (take MAX_LLM_FALLBACK_PAIRS (snd acc)) (fst acc, 0)"

section \<open>The pass\<close>

definition merge_records :: "buckets \<Rightarrow> renames \<Rightarrow> merge_record list" where
  "merge_records buckets renames =
     [\<lparr>canonical = ent_name h, merged_from = srcs\<rparr>.
        (k, h) \<leftarrow> buckets,
        srcs \<leftarrow> [[src. (src, dst) \<leftarrow> renames, dst = ent_name h, src \<noteq> ent_name h, src \<noteq> []]],
        srcs \<noteq> []]"

definition renamed :: "renames \<Rightarrow> string \<Rightarrow> string" where
  "renamed renames name = (case map_of renames name of None \<Rightarrow> name | Some n \<Rightarrow> n)"

definition rewrite_relationship :: "renames \<Rightarrow> extracted_relationship \<Rightarrow> extracted_relationship" where
  "rewrite_relationship renames r = r\<lparr>rel_source := renamed renames (rel_source r), rel_target := renamed renames (rel_target r)\<rparr>"

record validation_result =
  val_entities :: "extracted_entity list"
  val_relationships :: "extracted_relationship list"
  val_merges :: "merge_record list"

definition dedup_state ::
  "extracted_entity list \<Rightarrow> prior_entity list \<Rightarrow> bool \<Rightarrow> dedup_registry option \<Rightarrow> (string \<Rightarrow> string \<Rightarrow> bool) \<Rightarrow> (buckets \<times> renames) \<times> nat" where
  "dedup_state ents priors enabled registry resolve =
     fallback_tier enabled resolve (cosine_tier registry (exact_tier (prior_canonicals priors) ents))"

definition dedupe_entities ::
  "('r \<Rightarrow> extracted_entity option) \<Rightarrow> ('s \<Rightarrow> extracted_relationship option) \<Rightarrow> 'r list \<Rightarrow> 's list \<Rightarrow> prior_entity list \<Rightarrow> bool
     \<Rightarrow> dedup_registry option \<Rightarrow> (string \<Rightarrow> string \<Rightarrow> bool) \<Rightarrow> validation_result \<times> nat" where
  "dedupe_entities coerce_entity coerce_relationship entities relationships priors enabled registry resolve =
     (let ents = List.map_filter coerce_entity entities; rels = List.map_filter coerce_relationship relationships in
      if ents = [] then (\<lparr>val_entities = [], val_relationships = rels, val_merges = []\<rparr>, 0)
      else
        let ((buckets, renames), n) = dedup_state ents priors enabled registry resolve
        in (\<lparr>val_entities = map snd buckets, val_relationships = map (rewrite_relationship renames) rels,
             val_merges = merge_records buckets renames\<rparr>, n))"

section \<open>Cosine\<close>

lemma dot_product_nonneg: "0 \<le> dot_product v v"
  by (induction v) (simp_all add: dot_product_def)

text \<open>The test without roots decides the comparison of the cosine with a positive threshold.\<close>

lemma quotient_at_least:
  fixes t d a b :: real
  assumes "0 < t" "0 < a" "0 < b"
  shows "t \<le> d / (sqrt a * sqrt b) \<longleftrightarrow> 0 \<le> d \<and> t * t * (a * b) \<le> d * d"
proof -
  have pos: "0 < sqrt a * sqrt b" using assms by simp
  have sq: "(t * (sqrt a * sqrt b)) * (t * (sqrt a * sqrt b)) = t * t * (a * b)"
    using assms by (simp add: algebra_simps)
  have "t \<le> d / (sqrt a * sqrt b) \<longleftrightarrow> t * (sqrt a * sqrt b) \<le> d" using pos by (simp add: pos_le_divide_eq)
  also have "\<dots> \<longleftrightarrow> 0 \<le> d \<and> (t * (sqrt a * sqrt b)) * (t * (sqrt a * sqrt b)) \<le> d * d"
  proof -
    have "0 < t * (sqrt a * sqrt b)" using pos assms by simp
    then show ?thesis
      by (metis mult_mono' abs_le_square_iff abs_of_nonneg less_eq_real_def order.trans power2_eq_square)
  qed
  finally show ?thesis by (simp only: sq)
qed

section \<open>Invariants\<close>

definition spellings :: "extracted_entity \<Rightarrow> string set" where
  "spellings h = normalize_name ` set (ent_name h # ent_aliases h)"

definition covered :: "buckets \<Rightarrow> string \<Rightarrow> bool" where
  "covered bs x \<longleftrightarrow> (\<exists>k h. map_of bs k = Some h \<and> x \<in> spellings h)"

definition heads_ok :: "buckets \<Rightarrow> bool" where
  "heads_ok bs \<longleftrightarrow> dict_ok bs \<and> (\<forall>k h. map_of bs k = Some h \<longrightarrow> normalize_name (ent_name h) = k)"

lemma normalize_nil [simp]: "normalize_name [] = []"
  by (simp add: normalize_name_def py_lower_def py_strip_def py_lstrip_def py_rstrip_def)

lemma add_alias_fold:
  "set as \<subseteq> set (fold (add_alias p) cs as) \<and> (\<forall>c \<in> set cs. c = [] \<or> c = p \<or> c \<in> set (fold (add_alias p) cs as))"
proof (induction cs arbitrary: as)
  case (Cons c cs)
  have "set as \<subseteq> set (add_alias p c as)" "c = [] \<or> c = p \<or> c \<in> set (add_alias p c as)" by (auto simp: add_alias_def)
  with Cons.IH [of "add_alias p c as"] show ?case by auto
qed simp

lemma merge_two_name [simp]: "ent_name (merge_two a b) = ent_name a"
  by (simp add: merge_two_def)

lemma merge_two_spellings: "x \<in> spellings a \<or> x \<in> spellings b \<Longrightarrow> x \<noteq> [] \<Longrightarrow> x \<in> spellings (merge_two a b)"
  using add_alias_fold [of "ent_aliases a" "ent_name a" "ent_name b # ent_aliases b"]
  by (auto simp: spellings_def merge_two_def image_iff)

lemma rename_head_name [simp]: "ent_name (rename_head n h) = n"
  by (simp add: rename_head_def)

lemma rename_head_spellings: "normalize_name (ent_name h) \<noteq> [] \<Longrightarrow> normalize_name (ent_name h) \<in> spellings (rename_head n h)"
  by (auto simp: rename_head_def spellings_def)

text \<open>Replacing the entity of a key by one with at least its spellings loses nothing.\<close>

lemma covered_update:
  assumes "covered bs x" "\<And>h. map_of bs k = Some h \<Longrightarrow> x \<in> spellings h \<Longrightarrow> x \<in> spellings h'"
  shows "covered (AList.update k h' bs) x"
  using assms by (auto simp: covered_def) metis

lemma heads_ok_update: "heads_ok bs \<Longrightarrow> normalize_name (ent_name h) = k \<Longrightarrow> heads_ok (AList.update k h bs)"
  by (simp add: heads_ok_def dict_ok_update)

text \<open>The key and the entity an exact step writes.\<close>

lemma exact_step_cases:
  assumes "normalize_name (ent_name ent) \<noteq> []"
  obtains k h n where "exact_step priors ent (bs, rn) = (AList.update k h bs, AList.update (ent_name ent) n rn)"
    "n = ent_name h" "normalize_name (ent_name ent) \<in> spellings h"
    "\<exists>a. map_of bs k = Some a \<and> h = merge_two a ent \<or> map_of bs k = None \<and> normalize_name (ent_name h) = k"
proof -
  let ?norm = "normalize_name (ent_name ent)"
  let ?c = "case map_of priors ?norm of Some p \<Rightarrow> if p = [] then (ent_name ent, ?norm) else (p, normalize_name p) | None \<Rightarrow> (ent_name ent, ?norm)"
  obtain name k where c: "?c = (name, k)" by (cases ?c)
  have k: "normalize_name name = k" using c by (auto split: option.splits if_splits)
  show thesis
  proof (cases "map_of bs k")
    case None
    then have "exact_step priors ent (bs, rn) = (AList.update k (rename_head name ent) bs, AList.update (ent_name ent) name rn)"
      using assms c by (simp add: exact_step_def Let_def)
    then show thesis by (rule that) (use None k rename_head_spellings assms in auto)
  next
    case (Some a)
    then have "exact_step priors ent (bs, rn) = (AList.update k (merge_two a ent) bs, AList.update (ent_name ent) (ent_name a) rn)"
      using assms c by (simp add: exact_step_def Let_def)
    moreover have "?norm \<in> spellings (merge_two a ent)"
      using assms by (intro merge_two_spellings) (simp_all add: spellings_def)
    ultimately show thesis by (intro that [of k "merge_two a ent" "ent_name a"]) (use Some in auto)
  qed
qed

definition dedup_inv :: "string set \<Rightarrow> buckets \<Rightarrow> bool" where
  "dedup_inv xs bs \<longleftrightarrow> heads_ok bs \<and> (\<forall>x \<in> xs. x \<noteq> [] \<longrightarrow> covered bs x)"

lemma exact_step_inv:
  assumes "dedup_inv xs (fst st)"
  shows "dedup_inv (insert (normalize_name (ent_name ent)) xs) (fst (exact_step priors ent st))"
proof (cases "normalize_name (ent_name ent) = []")
  case True
  then show ?thesis using assms by (cases st) (simp add: exact_step_def dedup_inv_def)
next
  case False
  obtain bs rn where st: "st = (bs, rn)" by (cases st)
  from False show ?thesis
  proof (rule exact_step_cases [of ent priors bs rn])
    fix k h n
    assume step: "exact_step priors ent (bs, rn) = (AList.update k h bs, AList.update (ent_name ent) n rn)" "normalize_name (ent_name ent) \<in> spellings h"
      and old: "\<exists>a. map_of bs k = Some a \<and> h = merge_two a ent \<or> map_of bs k = None \<and> normalize_name (ent_name h) = k"
    have ok: "heads_ok bs" and cov: "\<And>x. x \<in> xs \<Longrightarrow> x \<noteq> [] \<Longrightarrow> covered bs x" using assms st by (auto simp: dedup_inv_def)
    have "normalize_name (ent_name h) = k" using old ok by (auto simp: heads_ok_def)
    then have "heads_ok (AList.update k h bs)" using ok by (rule heads_ok_update [rotated])
    moreover have "covered (AList.update k h bs) x" if "x \<in> xs" "x \<noteq> []" for x
      using cov [OF that] old that(2) by (auto intro!: covered_update merge_two_spellings)
    moreover have "covered (AList.update k h bs) (normalize_name (ent_name ent))"
      using step(2) by (auto simp: covered_def)
    ultimately show ?thesis by (simp add: st step dedup_inv_def)
  qed
qed

lemma exact_fold_inv:
  "dedup_inv xs (fst st) \<Longrightarrow> dedup_inv (xs \<union> (\<lambda>e. normalize_name (ent_name e)) ` set ents) (fst (fold (exact_step priors) ents st))"
proof (induction ents arbitrary: xs st)
  case (Cons e ents)
  from Cons.IH [OF exact_step_inv [OF Cons.prems, of e priors]] show ?case by (simp add: Un_assoc [symmetric] insert_commute)
qed simp

lemma exact_tier_inv: "dedup_inv ((\<lambda>e. normalize_name (ent_name e)) ` set ents) (fst (exact_tier priors ents))"
  using exact_fold_inv [of "{}" "([], [])" ents priors]
  by (cases "fold (exact_step priors) ents ([], [])") (simp add: exact_tier_def dedup_inv_def heads_ok_def)

lemma absorb_inv:
  assumes "dedup_inv xs (fst st)" "a \<noteq> b"
  shows "dedup_inv xs (fst (absorb a b st))"
proof -
  obtain bs rn where st: "st = (bs, rn)" by (cases st)
  show ?thesis
  proof (cases "map_of bs a = None \<or> map_of bs b = None")
    case True
    then show ?thesis using assms by (auto simp: absorb_def st split: option.splits)
  next
    case False
    then obtain ea eb where e: "map_of bs a = Some ea" "map_of bs b = Some eb" by auto
    have ok: "heads_ok bs" and cov: "\<And>x. x \<in> xs \<Longrightarrow> x \<noteq> [] \<Longrightarrow> covered bs x" using assms st by (auto simp: dedup_inv_def)
    let ?bs = "AList.delete b (AList.update a (merge_two ea eb) bs)"
    have "heads_ok ?bs" using ok e by (auto simp: heads_ok_def dict_ok_update dict_ok_delete)
    moreover have "covered ?bs x" if x: "x \<in> xs" "x \<noteq> []" for x
    proof -
      obtain k h where h: "map_of bs k = Some h" "x \<in> spellings h" using cov [OF x] by (auto simp: covered_def)
      show ?thesis
      proof (cases "k = a \<or> k = b")
        case True
        then have "x \<in> spellings (merge_two ea eb)" using h e x(2) by (auto intro: merge_two_spellings)
        then show ?thesis using assms(2) unfolding covered_def by (intro exI [of _ a] exI [of _ "merge_two ea eb"]) simp
      next
        case False
        then show ?thesis using h unfolding covered_def by (intro exI [of _ k] exI [of _ h]) simp
      qed
    qed
    ultimately show ?thesis using e by (simp add: absorb_def st Let_def dedup_inv_def)
  qed
qed

lemma all_pairs_distinct: "distinct xs \<Longrightarrow> p \<in> set (all_pairs xs) \<Longrightarrow> fst p \<noteq> snd p"
  by (induction xs) auto

lemma cosine_step_inv:
  assumes "dedup_inv xs (fst (fst acc))" "fst p \<noteq> snd p" "\<And>q. q \<in> set (snd acc) \<Longrightarrow> fst q \<noteq> snd q"
  shows "dedup_inv xs (fst (fst (cosine_step R v p acc)))" "\<And>q. q \<in> set (snd (cosine_step R v p acc)) \<Longrightarrow> fst q \<noteq> snd q"
  using assms absorb_inv [OF assms(1,2)]
  by (auto simp: cosine_step_def Let_def split: prod.splits option.splits if_splits)

lemma cosine_fold_inv:
  assumes "dedup_inv xs (fst (fst acc))" "\<And>p. p \<in> set ps \<Longrightarrow> fst p \<noteq> snd p" "\<And>q. q \<in> set (snd acc) \<Longrightarrow> fst q \<noteq> snd q"
  shows "dedup_inv xs (fst (fst (fold (cosine_step R v) ps acc))) \<and> (\<forall>q \<in> set (snd (fold (cosine_step R v) ps acc)). fst q \<noteq> snd q)"
  using assms
proof (induction ps arbitrary: acc)
  case (Cons p ps)
  have p: "fst p \<noteq> snd p" by (rule Cons.prems(2)) simp
  note step = cosine_step_inv [OF Cons.prems(1) p Cons.prems(3), where R = R and v = v]
  have "dedup_inv xs (fst (fst (fold (cosine_step R v) ps (cosine_step R v p acc)))) \<and>
      (\<forall>q \<in> set (snd (fold (cosine_step R v) ps (cosine_step R v p acc))). fst q \<noteq> snd q)"
    by (rule Cons.IH [OF step(1)]) (use Cons.prems(2) step(2) in auto)
  then show ?case by simp
qed auto

lemma cosine_tier_inv:
  assumes "dedup_inv xs (fst st)"
  shows "dedup_inv xs (fst (fst (cosine_tier registry st)))" "q \<in> set (snd (cosine_tier registry st)) \<Longrightarrow> fst q \<noteq> snd q"
proof -
  have "distinct (map fst (fst st))" using assms by (simp add: dedup_inv_def heads_ok_def)
  note pairs = all_pairs_distinct [OF this]
  have "dedup_inv xs (fst (fst (cosine_tier registry st))) \<and> (\<forall>q \<in> set (snd (cosine_tier registry st)). fst q \<noteq> snd q)"
    using cosine_fold_inv [of xs "(st, [])" "all_pairs (map fst (fst st))"] assms pairs
    by (auto simp: cosine_tier_def split: option.splits)
  then show "dedup_inv xs (fst (fst (cosine_tier registry st)))" "q \<in> set (snd (cosine_tier registry st)) \<Longrightarrow> fst q \<noteq> snd q"
    by blast+
qed

lemma fallback_step_inv:
  "dedup_inv xs (fst (fst acc)) \<Longrightarrow> fst p \<noteq> snd p \<Longrightarrow> dedup_inv xs (fst (fst (fallback_step enabled resolve p acc)))"
  using absorb_inv [of xs "fst acc" "fst p" "snd p"]
  by (auto simp: fallback_step_def split: prod.splits option.splits)

lemma fallback_fold_inv:
  "dedup_inv xs (fst (fst acc)) \<Longrightarrow> (\<And>p. p \<in> set ps \<Longrightarrow> fst p \<noteq> snd p) \<Longrightarrow>
     dedup_inv xs (fst (fst (fold (fallback_step enabled resolve) ps acc)))"
  by (induction ps arbitrary: acc) (simp_all add: fallback_step_inv)

lemma dedup_state_inv:
  "dedup_inv ((\<lambda>e. normalize_name (ent_name e)) ` set ents) (fst (fst (dedup_state ents priors enabled registry resolve)))"
  unfolding dedup_state_def fallback_tier_def
  using cosine_tier_inv [OF exact_tier_inv] by (intro fallback_fold_inv) (auto dest: in_set_takeD)

section \<open>Renames of the exact mode\<close>

definition heads_of :: "buckets \<Rightarrow> string set" where
  "heads_of bs = {ent_name h | h k. map_of bs k = Some h}"

definition renames_ok :: "string set \<Rightarrow> buckets \<times> renames \<Rightarrow> bool" where
  "renames_ok xs st \<longleftrightarrow> ran (map_of (snd st)) \<subseteq> heads_of (fst st) \<and> xs \<subseteq> dom (map_of (snd st))"

lemma heads_of_update:
  "(\<And>a. map_of bs k = Some a \<Longrightarrow> ent_name h = ent_name a) \<Longrightarrow> heads_of bs \<subseteq> heads_of (AList.update k h bs)"
  by (auto simp: heads_of_def) metis

lemma exact_step_renames:
  assumes "renames_ok xs st"
  shows "renames_ok (xs \<union> (if normalize_name (ent_name ent) = [] then {} else {ent_name ent})) (exact_step priors ent st)"
proof (cases "normalize_name (ent_name ent) = []")
  case True
  then show ?thesis using assms by (cases st) (simp add: exact_step_def)
next
  case False
  obtain bs rn where st: "st = (bs, rn)" by (cases st)
  from False show ?thesis
  proof (rule exact_step_cases [of ent priors bs rn])
    fix k h n
    assume step: "exact_step priors ent (bs, rn) = (AList.update k h bs, AList.update (ent_name ent) n rn)" "n = ent_name h"
      and old: "\<exists>a. map_of bs k = Some a \<and> h = merge_two a ent \<or> map_of bs k = None \<and> normalize_name (ent_name h) = k"
    have "heads_of bs \<subseteq> heads_of (AList.update k h bs)" using old by (intro heads_of_update) auto
    moreover have "ent_name h \<in> heads_of (AList.update k h bs)" by (auto simp: heads_of_def)
    moreover have "ran ((map_of rn)(ent_name ent \<mapsto> n)) \<subseteq> insert n (ran (map_of rn))" by (auto simp: ran_def)
    ultimately show ?thesis using assms step by (auto simp: renames_ok_def st)
  qed
qed

lemma exact_fold_renames:
  "renames_ok xs st \<Longrightarrow>
     renames_ok (xs \<union> {ent_name e | e. e \<in> set ents \<and> normalize_name (ent_name e) \<noteq> []}) (fold (exact_step priors) ents st)"
proof (induction ents arbitrary: xs st)
  case (Cons e ents)
  have "xs \<union> {ent_name d | d. d \<in> set (e # ents) \<and> normalize_name (ent_name d) \<noteq> []}
      = (xs \<union> (if normalize_name (ent_name e) = [] then {} else {ent_name e})) \<union> {ent_name d | d. d \<in> set ents \<and> normalize_name (ent_name d) \<noteq> []}"
    by auto
  with Cons.IH [OF exact_step_renames [OF Cons.prems, of e priors]] show ?case by (simp only: fold_simps)
qed simp

lemma set_default_ok: "ran (map_of (set_default k v d)) \<subseteq> insert v (ran (map_of d)) \<and> dom (map_of d) \<subseteq> dom (map_of (set_default k v d))"
  by (auto simp: set_default_def ran_def split: option.splits)

lemma add_aliases_ok: "ran (map_of (add_aliases n as rn)) \<subseteq> insert n (ran (map_of rn)) \<and> dom (map_of rn) \<subseteq> dom (map_of (add_aliases n as rn))"
proof (induction as arbitrary: rn)
  case (Cons a as)
  have "add_aliases n (a # as) rn = add_aliases n as (set_default a n rn)" by (simp add: add_aliases_def)
  then show ?case using Cons.IH [of "set_default a n rn"] set_default_ok [of a n rn] by (simp only:) blast
qed (simp add: add_aliases_def subset_insertI)

lemma fold_aliases_ok:
  "ran (map_of (fold (\<lambda>(k, h). add_aliases (ent_name h) (ent_aliases h)) bs rn)) \<subseteq> ran (map_of rn) \<union> (\<lambda>e. ent_name (snd e)) ` set bs \<and>
   dom (map_of rn) \<subseteq> dom (map_of (fold (\<lambda>(k, h). add_aliases (ent_name h) (ent_aliases h)) bs rn))"
proof (induction bs arbitrary: rn)
  case (Cons e bs)
  let ?rn = "add_aliases (ent_name (snd e)) (ent_aliases (snd e)) rn"
  have "fold (\<lambda>(k, h). add_aliases (ent_name h) (ent_aliases h)) (e # bs) rn
      = fold (\<lambda>(k, h). add_aliases (ent_name h) (ent_aliases h)) bs ?rn" by (simp add: case_prod_beta)
  moreover have "(\<lambda>e. ent_name (snd e)) ` set (e # bs) = insert (ent_name (snd e)) ((\<lambda>e. ent_name (snd e)) ` set bs)" by simp
  ultimately show ?case using Cons.IH [of ?rn] add_aliases_ok [of "ent_name (snd e)" "ent_aliases (snd e)" rn]
    by (simp only:) blast
qed simp

lemma subset_chain: "A \<subseteq> H \<and> X \<subseteq> D \<Longrightarrow> I \<subseteq> H \<Longrightarrow> R \<subseteq> A \<union> I \<and> D \<subseteq> D' \<Longrightarrow> R \<subseteq> H \<and> X \<subseteq> D'"
  by blast

lemma exact_tier_renames:
  "renames_ok {ent_name e | e. e \<in> set ents \<and> normalize_name (ent_name e) \<noteq> []} (exact_tier priors ents)"
proof -
  obtain bs rn where st: "fold (exact_step priors) ents ([], []) = (bs, rn)" by (cases "fold (exact_step priors) ents ([], [])")
  have "renames_ok {ent_name e | e. e \<in> set ents \<and> normalize_name (ent_name e) \<noteq> []} (bs, rn)"
    using exact_fold_renames [of "{}" "([], [])" ents priors] st by (simp add: renames_ok_def)
  then have renames: "ran (map_of rn) \<subseteq> heads_of bs \<and> {ent_name e | e. e \<in> set ents \<and> normalize_name (ent_name e) \<noteq> []} \<subseteq> dom (map_of rn)"
    by (simp only: renames_ok_def fst_conv snd_conv)
  have "dict_ok bs" using exact_fold_inv [of "{}" "([], [])" ents priors] st by (simp add: dedup_inv_def heads_ok_def)
  then have heads: "(\<lambda>e. ent_name (snd e)) ` set bs \<subseteq> heads_of bs" by (force simp: heads_of_def)
  have "exact_tier priors ents = (bs, fold (\<lambda>(k, h). add_aliases (ent_name h) (ent_aliases h)) bs rn)"
    by (simp add: exact_tier_def st)
  then show ?thesis using subset_chain [OF renames heads fold_aliases_ok] by (simp only: renames_ok_def fst_conv snd_conv)
qed

section \<open>Properties\<close>

text \<open>
  The test without square roots decides the comparison the code makes: for a positive threshold, it
  holds of two vectors if and only if their cosine similarity reaches the threshold.
\<close>

theorem cosine_test_correct:
  assumes "0 < t"
  shows "cosine_at_least t va vb \<longleftrightarrow> of_rat t \<le> cosine_similarity va vb"
proof -
  let ?n = "min (length va) (length vb)"
  let ?a = "dot_product (take ?n va) (take ?n va)" and ?b = "dot_product (take ?n vb) (take ?n vb)" and ?d = "dot_product va vb"
  have t: "(0 :: real) < of_rat t" using assms by simp
  show ?thesis
  proof (cases "va = [] \<or> vb = [] \<or> ?a = 0 \<or> ?b = 0")
    case True
    then show ?thesis using t by (auto simp: cosine_at_least_def cosine_similarity_def Let_def)
  next
    case False
    then have pos: "(0 :: real) < of_rat ?a" "(0 :: real) < of_rat ?b"
      using dot_product_nonneg [of "take ?n va"] dot_product_nonneg [of "take ?n vb"] by (auto simp: less_le)
    have "of_rat t * of_rat t * (of_rat ?a * of_rat ?b) \<le> (of_rat ?d * of_rat ?d :: real) \<longleftrightarrow> t * t * (?a * ?b) \<le> ?d * ?d"
      by (simp only: of_rat_mult [symmetric] of_rat_less_eq)
    then show ?thesis
      using False quotient_at_least [OF t pos, of "of_rat ?d"]
      by (simp add: cosine_at_least_def cosine_similarity_def Let_def)
  qed
qed

theorem cosine_test_correct_witness:
  "of_rat COSINE_MERGE_THRESHOLD \<le> cosine_similarity [1, 2, 0] [2, 4, 1 / 10]"
proof -
  have "0 < COSINE_MERGE_THRESHOLD" "cosine_at_least COSINE_MERGE_THRESHOLD [1, 2, 0] [2, 4, 1 / 10]"
    by (simp_all add: COSINE_MERGE_THRESHOLD_def cosine_at_least_def dot_product_def)
  then show ?thesis using cosine_test_correct by blast
qed

text \<open>
  Property C30. Deduplication loses no name and leaves no duplicate, whatever the graph, the embeddings, the
  rejections and the resolver answer: the entities of the result have pairwise different normalized
  names, and every input entity whose name has a normal form is found again, its normalized name
  being that of the canonical name or of an alias of an entity in the result.
\<close>

theorem dedup_keeps_names:
  fixes ents :: "extracted_entity list"
  assumes "dedupe_entities Some Some ents rels priors enabled registry resolve = (res, n)"
  shows "distinct (map (\<lambda>h. normalize_name (ent_name h)) (val_entities res)) \<and>
    list_all (\<lambda>e. normalize_name (ent_name e) \<noteq> [] \<longrightarrow> list_ex (\<lambda>h. normalize_name (ent_name e) \<in> spellings h) (val_entities res)) ents"
proof (cases "ents = []")
  case True
  then show ?thesis using assms by (auto simp: dedupe_entities_def map_filter_def)
next
  case False
  have ents: "List.map_filter Some ents = ents" by (simp add: map_filter_def)
  obtain bs rn m where st: "dedup_state ents priors enabled registry resolve = ((bs, rn), m)"
    by (metis surj_pair)
  have res: "val_entities res = map snd bs" using assms False st ents by (auto simp: dedupe_entities_def)
  have inv: "dedup_inv ((\<lambda>e. normalize_name (ent_name e)) ` set ents) bs"
    using dedup_state_inv [of ents priors enabled registry resolve] st by simp
  have heads: "map (\<lambda>h. normalize_name (ent_name h)) (map snd bs) = map fst bs"
    using inv by (auto simp: dedup_inv_def heads_ok_def)
  have "distinct (map (\<lambda>h. normalize_name (ent_name h)) (map snd bs))"
    unfolding heads using inv by (simp add: dedup_inv_def heads_ok_def)
  moreover have "list_ex (\<lambda>h. x \<in> spellings h) (map snd bs)" if "covered bs x" for x
    using that by (force simp: covered_def list_ex_iff dest: map_of_SomeD)
  ultimately show ?thesis unfolding res using inv by (auto simp: list_all_iff dedup_inv_def simp del: map_map)
qed

definition toy_entity :: "string \<Rightarrow> extracted_entity" where
  "toy_entity name =
     \<lparr>ent_name = name, ent_type = ''Technology'', ent_scope = ''global'',
      ent_properties = \<lparr>prop_role = None, prop_team = None, prop_email = None, prop_version = None, prop_language = None, prop_category = None,
        prop_status = None, prop_repo = None, prop_owner = None, prop_rationale = None, prop_alternatives_considered = None,
        prop_decided_by = None, prop_visual_description = None\<rparr>,
      ent_aliases = [], ent_status = ''active'', ent_source_message_id = [], ent_source_lang = ''en''\<rparr>"

definition toy_relationship :: "string \<Rightarrow> string \<Rightarrow> extracted_relationship" where
  "toy_relationship a b = \<lparr>rel_type = ''USES'', rel_source = a, rel_target = b, rel_confidence = 1, rel_valid_from = None, rel_context = []\<rparr>"

definition toy_registry :: dedup_registry where
  "toy_registry = \<lparr>name_embeddings = (\<lambda>_. Some (\<lambda>_. Some [1, 0])), is_merge_rejected = (\<lambda>_ _. False)\<rparr>"

definition toy_dedup :: "dedup_registry option \<Rightarrow> validation_result \<times> nat" where
  "toy_dedup registry = dedupe_entities Some Some (map toy_entity [''Kafka'', ''Apache'', ''apache''])
     [toy_relationship ''apache'' ''Kafka''] [] True registry llm_resolve_pair"

theorem dedup_keeps_names_witness:
  "list_ex (\<lambda>h. ''apache'' \<in> spellings h) (val_entities (fst (toy_dedup (Some toy_registry))))"
proof -
  have d: "dedupe_entities Some Some (map toy_entity [''Kafka'', ''Apache'', ''apache'']) [toy_relationship ''apache'' ''Kafka''] [] True
      (Some toy_registry) llm_resolve_pair = (fst (toy_dedup (Some toy_registry)), snd (toy_dedup (Some toy_registry)))"
    by (simp only: toy_dedup_def prod.collapse)
  have "normalize_name ''Apache'' = ''apache''" by code_simp
  with dedup_keeps_names [OF d] show ?thesis by (simp add: toy_entity_def)
qed

text \<open>
  Property C31. Without the embedding tier no relationship dangles: an endpoint that names an input entity (with a
  normal form) is rewritten to the name of an entity of the result.
\<close>

theorem exact_dedup_no_dangling:
  assumes "dedupe_entities Some Some ents rels priors enabled None resolve = (res, n)"
    "e \<in> set ents" "normalize_name (ent_name e) \<noteq> []"
  shows "list_all2 (\<lambda>r r'. (rel_source r = ent_name e \<longrightarrow> rel_source r' \<in> set (map ent_name (val_entities res))) \<and>
      (rel_target r = ent_name e \<longrightarrow> rel_target r' \<in> set (map ent_name (val_entities res)))) rels (val_relationships res)"
proof -
  obtain bs rn where st: "exact_tier (prior_canonicals priors) ents = (bs, rn)" by fastforce
  have res: "val_entities res = map snd bs" "val_relationships res = map (rewrite_relationship rn) rels"
    using assms(1,2) st by (auto simp: dedupe_entities_def map_filter_def dedup_state_def cosine_tier_def fallback_tier_def Let_def split: if_splits)
  have "ran (map_of rn) \<subseteq> heads_of bs" "ent_name e \<in> dom (map_of rn)"
    using exact_tier_renames [of ents "prior_canonicals priors"] st assms(2,3) unfolding renames_ok_def fst_conv snd_conv by auto
  then obtain m where m: "map_of rn (ent_name e) = Some m" "m \<in> heads_of bs" by (meson domD ranI subsetD)
  then obtain k h where "map_of bs k = Some h" "m = ent_name h" by (auto simp: heads_of_def)
  then have "m \<in> set (map ent_name (map snd bs))" by (force dest: map_of_SomeD)
  then show ?thesis
    using m(1) by (simp add: res list.rel_map list_all2_same rewrite_relationship_def renamed_def)
qed

theorem exact_dedup_no_dangling_witness:
  "map rel_source (val_relationships (fst (toy_dedup None))) = [''Apache''] \<and>
   rel_source (hd (val_relationships (fst (toy_dedup None)))) \<in> set (map ent_name (val_entities (fst (toy_dedup None))))"
proof -
  have d: "dedupe_entities Some Some (map toy_entity [''Kafka'', ''Apache'', ''apache'']) [toy_relationship ''apache'' ''Kafka''] [] True
      None llm_resolve_pair = (fst (toy_dedup None), snd (toy_dedup None))"
    by (simp only: toy_dedup_def prod.collapse)
  have n: "normalize_name (ent_name (toy_entity ''apache'')) \<noteq> []" by code_simp
  have r: "map rel_source (val_relationships (fst (toy_dedup None))) = [''Apache'']" by code_simp
  have m: "toy_entity ''apache'' \<in> set (map toy_entity [''Kafka'', ''Apache'', ''apache''])" by simp
  from exact_dedup_no_dangling [OF d m n] r show ?thesis
    by (cases "val_relationships (fst (toy_dedup None))") (simp_all add: toy_relationship_def toy_entity_def)
qed

text \<open>
  With it they may: an entity absorbed by similarity takes only its own name and the spellings not yet
  in the table along, so a spelling merged into it by exact match still maps to the absorbed name.
\<close>

theorem absorbed_spelling_dangles:
  "map ent_name (val_entities (fst (toy_dedup (Some toy_registry)))) = [''Kafka''] \<and>
   map rel_source (val_relationships (fst (toy_dedup (Some toy_registry)))) = [''Apache'']"
  by code_simp

text \<open>
  The resolver is asked about at most five pairs of a batch, and about none when the fallback is off.
\<close>

theorem fallback_bounded:
  "snd (dedupe_entities coerce_entity coerce_relationship entities relationships priors enabled registry resolve) \<le> (if enabled then 5 else 0)"
proof -
  have step: "snd (fallback_step enabled resolve p acc) \<le> snd acc + (if enabled then 1 else 0)" for p acc
    by (auto simp: fallback_step_def split: prod.splits option.splits)
  have fold: "snd (fold (fallback_step enabled resolve) ps acc) \<le> snd acc + (if enabled then length ps else 0)" for ps acc
  proof (induction ps arbitrary: acc)
    case (Cons p ps)
    show ?case using Cons.IH [of "fallback_step enabled resolve p acc"] step [of p acc] by (auto split: if_splits)
  qed simp
  have "snd (dedup_state ents priors enabled registry resolve) \<le> (if enabled then 5 else 0)" for ents
    using fold [of "take MAX_LLM_FALLBACK_PAIRS (snd (cosine_tier registry (exact_tier (prior_canonicals priors) ents)))"
        "(fst (cosine_tier registry (exact_tier (prior_canonicals priors) ents)), 0)"]
    by (auto simp: dedup_state_def fallback_tier_def MAX_LLM_FALLBACK_PAIRS_def split: if_splits)
  then show ?thesis by (auto simp: dedupe_entities_def Let_def split: prod.split) (metis snd_conv)+
qed

end
