(* ===== verification/Interleaving.thy ===== *)
theory Interleaving
  imports Atlas_Prelude
begin

text \<open>
  Tasks that interleave. The model of an asynchronous operation is a task: a value that says where it
  stands between two awaited calls, and a step function for one call on the shared store. A schedule
  names the task that takes the next step and what it reads from outside (the clock). An invariant of
  the tasks and the store that every step keeps holds in every interleaving.
\<close>

fun interleave :: "('c \<Rightarrow> 't \<Rightarrow> 's \<Rightarrow> 't \<times> 's) \<Rightarrow> (nat \<times> 'c) list \<Rightarrow> 't list \<Rightarrow> 's \<Rightarrow> 't list \<times> 's" where
  "interleave step [] ts s = (ts, s)"
| "interleave step ((i, c) # sch) ts s =
     (if i < length ts then (case step c (ts ! i) s of (t, s') \<Rightarrow> interleave step sch (ts[i := t]) s')
      else interleave step sch ts s)"

locale interleaving =
  fixes step :: "'c \<Rightarrow> 't \<Rightarrow> 's \<Rightarrow> 't \<times> 's"
    and inv :: "'p \<Rightarrow> 't list \<Rightarrow> 's \<Rightarrow> bool"
    and admits :: "'p \<Rightarrow> 'c \<Rightarrow> bool"
  assumes step_inv:
    "inv p ts s \<Longrightarrow> i < length ts \<Longrightarrow> admits p c \<Longrightarrow> step c (ts ! i) s = (t, s') \<Longrightarrow> inv p (ts[i := t]) s'"
begin

lemma run_inv:
  "inv p ts s \<Longrightarrow> list_all (\<lambda>e. admits p (snd e)) sch \<Longrightarrow> interleave step sch ts s = (ts', s') \<Longrightarrow> inv p ts' s'"
proof (induction sch arbitrary: ts s)
  case (Cons e sch)
  obtain i c where e: "e = (i, c)" by fastforce
  show ?case
  proof (cases "i < length ts")
    case True
    obtain t s1 where st: "step c (ts ! i) s = (t, s1)" by fastforce
    have "inv p (ts[i := t]) s1" using step_inv [OF Cons.prems(1) True _ st] Cons.prems(2) e by simp
    then show ?thesis using Cons.IH [of "ts[i := t]" s1] Cons.prems(2,3) True e st by simp
  qed (use Cons e in simp)
qed simp

end

lemma interleave_length: "length (fst (interleave step sch ts s)) = length ts"
  by (induction step sch ts s rule: interleave.induct) (auto split: prod.splits)

end
