(* ===== verification/Wiki_Versions.thy ===== *)
theory Wiki_Versions
  imports Py_Json Interleaving
begin

text \<open>
  The version archive of \<^verbatim>\<open>wiki/version_store.py\<close> and the document cache of \<^verbatim>\<open>wiki/cache.py\<close>. Every
  call of the database is one atomic step; an archive and a cleanup are tasks that several requests
  run in any interleaving, given by an explicit schedule. The clock is part of the schedule. The purge
  of a channel (which deletes the counter) is not among the tasks.
\<close>

section \<open>Documents\<close>

type_synonym wiki_doc = "(string, json) dict"

record version_doc =
  vd_channel :: string
  vd_number :: nat
  vd_target_lang :: string
  vd_channel_name :: json
  vd_platform :: json
  vd_generated_at :: json
  vd_archived_at :: string
  vd_page_count :: nat
  vd_model :: json
  vd_structure :: json
  vd_overview :: json
  vd_pages :: json
  vd_metadata :: json

record version_db =
  wv_counters :: "(string, nat) dict"
  wv_versions :: "version_doc list"

definition MAX_VERSIONS_DEFAULT :: nat where
  "MAX_VERSIONS_DEFAULT = 10"

definition get_or :: "wiki_doc \<Rightarrow> string \<Rightarrow> json \<Rightarrow> json" where
  "get_or d k dflt = (case map_of d k of None \<Rightarrow> dflt | Some v \<Rightarrow> v)"

text \<open>\<^const>\<open>None\<close> is the exception of a page table without length or of metadata that is no dictionary.\<close>

definition json_len :: "json \<Rightarrow> nat option" where
  "json_len v = (case v of JObj d \<Rightarrow> Some (length d) | JList vs \<Rightarrow> Some (length vs) | JStr s \<Rightarrow> Some (length s) | _ \<Rightarrow> None)"

definition version_doc_of :: "string \<Rightarrow> string \<Rightarrow> wiki_doc \<Rightarrow> string \<Rightarrow> nat \<Rightarrow> version_doc option" where
  "version_doc_of now channel_id wiki target_lang n =
     (case (json_len (get_or wiki ''pages'' (JObj [])), get_or wiki ''metadata'' (JObj [])) of
        (Some pages, JObj meta) \<Rightarrow>
          Some \<lparr>vd_channel = channel_id, vd_number = n, vd_target_lang = target_lang,
            vd_channel_name = get_or wiki ''channel_name'' (JStr []), vd_platform = get_or wiki ''platform'' (JStr []),
            vd_generated_at = get_or wiki ''generated_at'' JNull, vd_archived_at = now, vd_page_count = pages,
            vd_model = get_or meta ''model'' (JStr []), vd_structure = get_or wiki ''structure'' (JObj []),
            vd_overview = get_or wiki ''overview'' (JObj []), vd_pages = get_or wiki ''pages'' (JObj []),
            vd_metadata = get_or wiki ''metadata'' (JObj [])\<rparr>
      | _ \<Rightarrow> None)"

definition channel_numbers :: "string \<Rightarrow> version_db \<Rightarrow> nat list" where
  "channel_numbers channel_id db = map vd_number (filter (\<lambda>d. vd_channel d = channel_id) (wv_versions db))"

section \<open>Tasks\<close>

text \<open>Where an archive and a cleanup stand between two calls of the database, and how they end.\<close>

datatype archive_point =
    Read_counter | Read_latest | Seed_counter nat | Take_number | Insert_version nat
  | Archived nat | Bad_document nat | Duplicate_key nat

datatype cleanup_point = Count_versions | Find_excess nat | Delete_versions "nat list" | Cleaned nat

datatype version_task = Archive string wiki_doc string archive_point | Cleanup string nat cleanup_point

definition latest_number :: "string \<Rightarrow> version_db \<Rightarrow> nat" where
  "latest_number channel_id db = fold max (channel_numbers channel_id db) 0"

fun archive_step :: "string \<Rightarrow> string \<Rightarrow> wiki_doc \<Rightarrow> string \<Rightarrow> archive_point \<Rightarrow> version_db \<Rightarrow> archive_point \<times> version_db" where
  "archive_step now ch w lang Read_counter db = (if map_of (wv_counters db) ch = None then Read_latest else Take_number, db)"
| "archive_step now ch w lang Read_latest db = (Seed_counter (latest_number ch db), db)"
| "archive_step now ch w lang (Seed_counter seed) db =
     (Take_number,
      db\<lparr>wv_counters := AList.update ch (case map_of (wv_counters db) ch of None \<Rightarrow> seed | Some s \<Rightarrow> max s seed) (wv_counters db)\<rparr>)"
| "archive_step now ch w lang Take_number db =
     (let n = (case map_of (wv_counters db) ch of None \<Rightarrow> 1 | Some s \<Rightarrow> s + 1)
      in (Insert_version n, db\<lparr>wv_counters := AList.update ch n (wv_counters db)\<rparr>))"
| "archive_step now ch w lang (Insert_version n) db =
     (case version_doc_of now ch w lang n of
        None \<Rightarrow> (Bad_document n, db)
      | Some d \<Rightarrow>
          if n \<in> set (channel_numbers ch db) then (Duplicate_key n, db)
          else (Archived n, db\<lparr>wv_versions := wv_versions db @ [d]\<rparr>))"
| "archive_step now ch w lang p db = (p, db)"

fun cleanup_step :: "string \<Rightarrow> nat \<Rightarrow> cleanup_point \<Rightarrow> version_db \<Rightarrow> cleanup_point \<times> version_db" where
  "cleanup_step ch max_versions Count_versions db =
     (let count = length (channel_numbers ch db)
      in (if count \<le> max_versions then Cleaned 0 else Find_excess (count - max_versions), db))"
| "cleanup_step ch max_versions (Find_excess excess) db =
     (let to_delete = take excess (sort (channel_numbers ch db))
      in (if to_delete = [] then Cleaned 0 else Delete_versions to_delete, db))"
| "cleanup_step ch max_versions (Delete_versions ns) db =
     (let gone = (\<lambda>d. vd_channel d = ch \<and> vd_number d \<in> set ns)
      in (Cleaned (length (filter gone (wv_versions db))), db\<lparr>wv_versions := filter (\<lambda>d. \<not> gone d) (wv_versions db)\<rparr>))"
| "cleanup_step ch max_versions (Cleaned n) db = (Cleaned n, db)"

fun task_step :: "string \<Rightarrow> version_task \<Rightarrow> version_db \<Rightarrow> version_task \<times> version_db" where
  "task_step now (Archive ch w lang p) db = (case archive_step now ch w lang p db of (p', db') \<Rightarrow> (Archive ch w lang p', db'))"
| "task_step now (Cleanup ch m p) db = (case cleanup_step ch m p db of (p', db') \<Rightarrow> (Cleanup ch m p', db'))"

text \<open>A schedule names the task that takes the next step, with the clock it reads.\<close>

definition run_schedule :: "(nat \<times> string) list \<Rightarrow> version_task list \<Rightarrow> version_db \<Rightarrow> version_task list \<times> version_db" where
  "run_schedule = interleave task_step"

section \<open>Undisturbed operations\<close>

definition archive :: "string \<Rightarrow> string \<Rightarrow> wiki_doc \<Rightarrow> string \<Rightarrow> version_db \<Rightarrow> archive_point \<times> version_db" where
  "archive now channel_id wiki target_lang db =
     (let step = (\<lambda>(p, db). archive_step now channel_id wiki target_lang p db)
      in (step ^^ 5) (Read_counter, db))"

definition cleanup :: "string \<Rightarrow> nat \<Rightarrow> version_db \<Rightarrow> nat \<times> version_db" where
  "cleanup channel_id max_versions db =
     (let step = (\<lambda>(p, db). cleanup_step channel_id max_versions p db)
      in case (step ^^ 3) (Count_versions, db) of (p, db') \<Rightarrow> (case p of Cleaned n \<Rightarrow> n | _ \<Rightarrow> 0, db'))"

definition find_version :: "string \<Rightarrow> nat \<Rightarrow> version_db \<Rightarrow> version_doc option" where
  "find_version channel_id n db = find (\<lambda>d. vd_channel d = channel_id \<and> vd_number d = n) (wv_versions db)"

definition count_versions :: "string \<Rightarrow> version_db \<Rightarrow> nat" where
  "count_versions channel_id db = length (channel_numbers channel_id db)"

definition get_version_page :: "string \<Rightarrow> nat \<Rightarrow> string \<Rightarrow> version_db \<Rightarrow> json option" where
  "get_version_page channel_id n page_id db =
     (case find_version channel_id n db of
        None \<Rightarrow> None
      | Some d \<Rightarrow> (case vd_pages d of JObj pages \<Rightarrow> map_of pages page_id | _ \<Rightarrow> None))"

text \<open>The summaries of a channel, newest first: number, language, generation and archive time, pages, model.\<close>

definition list_versions :: "string \<Rightarrow> version_db \<Rightarrow> (nat \<times> string \<times> json \<times> string \<times> nat \<times> json) list" where
  "list_versions channel_id db =
     map (\<lambda>d. (vd_number d, vd_target_lang d, vd_generated_at d, vd_archived_at d, vd_page_count d, vd_model d))
       (rev (sort_key vd_number (filter (\<lambda>d. vd_channel d = channel_id) (wv_versions db))))"

section \<open>Cache\<close>

text \<open>The documents by their unique \<^verbatim>\<open>channel_id\<close> field; \<open>default_lang\<close> is the configured language.\<close>

record wiki_store =
  ws_cache :: "(string, wiki_doc) dict"
  ws_status :: "(string, wiki_doc) dict"
  ws_versions :: version_db

definition cache_key :: "string \<Rightarrow> string \<Rightarrow> string" where
  "cache_key channel_id target_lang = channel_id @ '':'' @ target_lang"

text \<open>\<^verbatim>\<open>update_one(..., {"$set": fields}, upsert=True)\<close>: the fields of the old document that are not set stay.\<close>

definition set_doc_fields :: "wiki_doc \<Rightarrow> wiki_doc \<Rightarrow> wiki_doc" where
  "set_doc_fields new d = fold (\<lambda>(k, v). AList.update k v) new d"

definition upsert :: "string \<Rightarrow> wiki_doc \<Rightarrow> (string, wiki_doc) dict \<Rightarrow> (string, wiki_doc) dict" where
  "upsert key new col =
     AList.update key (set_doc_fields new (case map_of col key of None \<Rightarrow> [(''channel_id'', JStr key)] | Some d \<Rightarrow> d)) col"

definition migrate_legacy :: "string \<Rightarrow> string \<Rightarrow> string \<Rightarrow> wiki_store \<Rightarrow> wiki_store" where
  "migrate_legacy default_lang channel_id target_lang s =
     (let key = cache_key channel_id target_lang in
      if target_lang \<noteq> default_lang \<or> map_of (ws_cache s) key \<noteq> None then s
      else case map_of (ws_cache s) channel_id of
        None \<Rightarrow> s
      | Some legacy \<Rightarrow> s\<lparr>ws_cache := upsert key (AList.update ''channel_id'' (JStr key) legacy) (ws_cache s)\<rparr>)"

text \<open>A failed archive is logged; the save goes on without the cleanup. \<open>archived_lang\<close> is a string in every stored document.\<close>

definition archive_existing :: "string \<Rightarrow> string \<Rightarrow> string \<Rightarrow> wiki_store \<Rightarrow> wiki_store" where
  "archive_existing now channel_id target_lang s =
     (case map_of (ws_cache s) (cache_key channel_id target_lang) of
        None \<Rightarrow> s
      | Some existing \<Rightarrow>
          if existing = [] then s
          else
            let archived_lang = (case get_or existing ''target_lang'' JNull of JStr l \<Rightarrow> if l = [] then target_lang else l | _ \<Rightarrow> target_lang)
            in case archive now channel_id existing archived_lang (ws_versions s) of
                 (Archived n, db) \<Rightarrow> s\<lparr>ws_versions := snd (cleanup channel_id MAX_VERSIONS_DEFAULT db)\<rparr>
               | (_, db) \<Rightarrow> s\<lparr>ws_versions := db\<rparr>)"

definition save_wiki :: "string \<Rightarrow> string \<Rightarrow> string \<Rightarrow> wiki_doc \<Rightarrow> string \<Rightarrow> wiki_store \<Rightarrow> wiki_store" where
  "save_wiki default_lang now channel_id wiki_data target_lang s =
     (let key = cache_key channel_id target_lang;
          s' = archive_existing now channel_id target_lang (migrate_legacy default_lang channel_id target_lang s)
      in s'\<lparr>ws_cache :=
             upsert key (AList.update ''target_lang'' (JStr target_lang) (AList.update ''channel_id'' (JStr key) wiki_data)) (ws_cache s')\<rparr>)"

definition lookup_wiki :: "string \<Rightarrow> (string, wiki_doc) dict \<Rightarrow> string \<Rightarrow> string \<Rightarrow> wiki_doc option" where
  "lookup_wiki default_lang col channel_id target_lang =
     (case map_of col (cache_key channel_id target_lang) of
        Some d \<Rightarrow> Some d
      | None \<Rightarrow> if target_lang = default_lang then map_of col channel_id else None)"

definition get_wiki :: "string \<Rightarrow> string \<Rightarrow> string \<Rightarrow> wiki_store \<Rightarrow> wiki_doc option" where
  "get_wiki default_lang channel_id target_lang s =
     (case lookup_wiki default_lang (ws_cache s) channel_id target_lang of
        None \<Rightarrow> None
      | Some d \<Rightarrow> Some (AList.update ''version_count'' (JInt (int (count_versions channel_id (ws_versions s)))) d))"

definition get_structure :: "string \<Rightarrow> string \<Rightarrow> string \<Rightarrow> wiki_store \<Rightarrow> wiki_doc option" where
  "get_structure default_lang channel_id target_lang s =
     map_option (filter (\<lambda>(k, v). k \<in> {''channel_id'', ''generated_at'', ''is_stale'', ''structure''}))
       (lookup_wiki default_lang (ws_cache s) channel_id target_lang)"

text \<open>The wipe of the per-page store, behind a flag and best effort, is left out.\<close>

definition delete_wiki :: "string \<Rightarrow> string \<Rightarrow> string \<Rightarrow> wiki_store \<Rightarrow> bool \<times> wiki_store" where
  "delete_wiki default_lang channel_id target_lang s =
     (let key = cache_key channel_id target_lang; col = AList.delete key (ws_cache s)
      in (map_of (ws_cache s) key \<noteq> None,
          s\<lparr>ws_cache := (if target_lang = default_lang then AList.delete channel_id col else col)\<rparr>))"

definition set_stale :: "bool \<Rightarrow> (string \<Rightarrow> bool) \<Rightarrow> wiki_store \<Rightarrow> wiki_store" where
  "set_stale b p s = s\<lparr>ws_cache := map (\<lambda>(k, d). (k, if p k then AList.update ''is_stale'' (JBool b) d else d)) (ws_cache s)\<rparr>"

definition mark_stale :: "string \<Rightarrow> string \<Rightarrow> string option \<Rightarrow> wiki_store \<Rightarrow> wiki_store" where
  "mark_stale default_lang channel_id target_lang =
     set_stale True (\<lambda>k. k = cache_key channel_id (case target_lang of None \<Rightarrow> default_lang | Some l \<Rightarrow> l))"

definition clear_stale :: "string \<Rightarrow> string \<Rightarrow> string option \<Rightarrow> wiki_store \<Rightarrow> wiki_store" where
  "clear_stale default_lang channel_id target_lang =
     set_stale False (\<lambda>k. k = cache_key channel_id (case target_lang of None \<Rightarrow> default_lang | Some l \<Rightarrow> l))"

text \<open>The pattern \<^verbatim>\<open>^<id>(:.+)?$\<close> on keys without line breaks.\<close>

definition channel_pattern :: "string \<Rightarrow> string \<Rightarrow> bool" where
  "channel_pattern channel_id k \<longleftrightarrow> k = channel_id \<or> py_startswith k (channel_id @ '':'') \<and> length channel_id + 1 < length k"

definition mark_all_stale :: "string \<Rightarrow> wiki_store \<Rightarrow> wiki_store" where
  "mark_all_stale channel_id = set_stale True (channel_pattern channel_id)"

definition delete_all_for_channel :: "string \<Rightarrow> wiki_store \<Rightarrow> nat \<times> wiki_store" where
  "delete_all_for_channel channel_id s =
     (let p = (\<lambda>(k, d). channel_pattern channel_id k)
      in (length (filter p (ws_cache s)) + length (filter p (ws_status s)),
          s\<lparr>ws_cache := filter (\<lambda>e. \<not> p e) (ws_cache s), ws_status := filter (\<lambda>e. \<not> p e) (ws_status s)\<rparr>))"

record generation_status =
  gs_status :: string
  gs_stage :: string
  gs_stage_detail :: string
  gs_pages_total :: int
  gs_pages_done :: int
  gs_pages_completed :: "string list"
  gs_model :: string
  gs_error :: "string option"

definition set_generation_status :: "string \<Rightarrow> string \<Rightarrow> generation_status \<Rightarrow> string \<Rightarrow> wiki_store \<Rightarrow> wiki_store" where
  "set_generation_status now channel_id g target_lang s =
     (let key = cache_key channel_id target_lang;
          new = [(''channel_id'', JStr key), (''status'', JStr (gs_status g)), (''stage'', JStr (gs_stage g)),
            (''stage_detail'', JStr (gs_stage_detail g)), (''pages_total'', JInt (gs_pages_total g)),
            (''pages_done'', JInt (gs_pages_done g)), (''pages_completed'', JList (map JStr (gs_pages_completed g))),
            (''model'', JStr (gs_model g)), (''error'', case gs_error g of None \<Rightarrow> JNull | Some e \<Rightarrow> JStr e),
            (''updated_at'', JStr now)] @
            (if gs_status g = ''running'' \<and> gs_stage g = ''gathering'' then [(''started_at'', JStr now)] else [])
      in s\<lparr>ws_status := upsert key new (ws_status s)\<rparr>)"

definition get_generation_status :: "string \<Rightarrow> string \<Rightarrow> string \<Rightarrow> wiki_store \<Rightarrow> wiki_doc option" where
  "get_generation_status default_lang channel_id target_lang s = lookup_wiki default_lang (ws_status s) channel_id target_lang"

definition clear_generation_status :: "string \<Rightarrow> string \<Rightarrow> wiki_store \<Rightarrow> wiki_store" where
  "clear_generation_status channel_id target_lang s = s\<lparr>ws_status := AList.delete (cache_key channel_id target_lang) (ws_status s)\<rparr>"

section \<open>The invariant of the tasks\<close>

abbreviation counter_of :: "version_db \<Rightarrow> string \<Rightarrow> nat option" where
  "counter_of db ch \<equiv> map_of (wv_counters db) ch"

definition vkey :: "version_doc \<Rightarrow> string \<times> nat" where
  "vkey d = (vd_channel d, vd_number d)"

text \<open>The number a task has been given.\<close>

fun point_number :: "archive_point \<Rightarrow> nat option" where
  "point_number (Insert_version n) = Some n"
| "point_number (Archived n) = Some n"
| "point_number (Bad_document n) = Some n"
| "point_number (Duplicate_key n) = Some n"
| "point_number _ = None"

fun allocated :: "version_task \<Rightarrow> (string \<times> nat) option" where
  "allocated (Archive ch w lang p) = map_option (Pair ch) (point_number p)"
| "allocated (Cleanup ch m p) = None"

fun is_duplicate :: "version_task \<Rightarrow> bool" where
  "is_duplicate (Archive ch w lang (Duplicate_key n)) = True"
| "is_duplicate _ = False"

fun fresh_task :: "version_task \<Rightarrow> bool" where
  "fresh_task (Archive ch w lang p) = (p = Read_counter)"
| "fresh_task (Cleanup ch m p) = (p = Count_versions)"

definition number_covered :: "version_db \<Rightarrow> string \<Rightarrow> nat \<Rightarrow> bool" where
  "number_covered db ch n \<longleftrightarrow> (case counter_of db ch of None \<Rightarrow> False | Some s \<Rightarrow> n \<le> s)"

fun point_ok :: "version_db \<Rightarrow> string \<Rightarrow> archive_point \<Rightarrow> bool" where
  "point_ok db ch (Seed_counter seed) \<longleftrightarrow> counter_of db ch \<noteq> None \<or> (\<forall>n \<in> set (channel_numbers ch db). n \<le> seed)"
| "point_ok db ch Take_number \<longleftrightarrow> counter_of db ch \<noteq> None"
| "point_ok db ch (Insert_version n) \<longleftrightarrow> number_covered db ch n \<and> n \<notin> set (channel_numbers ch db)"
| "point_ok db ch (Archived n) \<longleftrightarrow> number_covered db ch n"
| "point_ok db ch (Bad_document n) \<longleftrightarrow> number_covered db ch n"
| "point_ok db ch (Duplicate_key n) \<longleftrightarrow> False"
| "point_ok db ch _ \<longleftrightarrow> True"

fun task_ok :: "version_db \<Rightarrow> version_task \<Rightarrow> bool" where
  "task_ok db (Archive ch w lang p) = point_ok db ch p"
| "task_ok db (Cleanup ch m p) = True"

text \<open>A database is sound when no two versions share channel and number and no number exceeds its counter.\<close>

definition db_ok :: "version_db \<Rightarrow> bool" where
  "db_ok db \<longleftrightarrow> distinct (map vkey (wv_versions db)) \<and>
     (\<forall>d \<in> set (wv_versions db). counter_of db (vd_channel d) = None \<or> number_covered db (vd_channel d) (vd_number d))"

definition tasks_inv :: "version_task list \<Rightarrow> version_db \<Rightarrow> bool" where
  "tasks_inv ts db \<longleftrightarrow> db_ok db \<and> (\<forall>t \<in> set ts. task_ok db t) \<and>
     (\<forall>i < length ts. \<forall>j < length ts. i \<noteq> j \<longrightarrow> allocated (ts ! i) = None \<or> allocated (ts ! i) \<noteq> allocated (ts ! j))"

lemma channel_numbers_iff: "n \<in> set (channel_numbers ch db) \<longleftrightarrow> (ch, n) \<in> vkey ` set (wv_versions db)"
  by (auto simp: channel_numbers_def vkey_def)

lemma channel_numbers_mem: "d \<in> set (wv_versions db) \<Longrightarrow> vd_number d \<in> set (channel_numbers (vd_channel d) db)"
  by (simp add: channel_numbers_def)

lemma task_ok_numbered: "task_ok db t \<Longrightarrow> allocated t = Some (ch, n) \<Longrightarrow> number_covered db ch n"
  by (cases "(db, t)" rule: task_ok.cases, case_tac p) auto

text \<open>What the step of another task leaves of a task's condition.\<close>

lemma task_ok_other:
  assumes ok: "task_ok db t"
    and counters: "\<And>ch s. counter_of db ch = Some s \<Longrightarrow> \<exists>s'. counter_of db' ch = Some s' \<and> s \<le> s'"
    and numbers: "\<And>ch n. n \<in> set (channel_numbers ch db') \<Longrightarrow>
      n \<in> set (channel_numbers ch db) \<or> counter_of db' ch \<noteq> None \<and> allocated t \<noteq> Some (ch, n)"
  shows "task_ok db' t"
proof (cases t)
  case (Archive ch w lang p)
  have some: "counter_of db ch \<noteq> None \<Longrightarrow> counter_of db' ch \<noteq> None" using counters by fastforce
  have cov: "number_covered db ch n \<Longrightarrow> number_covered db' ch n" for n
    using counters [of ch] by (fastforce simp: number_covered_def split: option.splits)
  show ?thesis
  proof (cases p)
    case (Seed_counter seed)
    then show ?thesis using ok some numbers Archive by (auto simp del: not_None_eq)
  next
    case (Insert_version n)
    then show ?thesis using ok cov [of n] numbers [of n ch] Archive by auto
  qed (use ok some cov Archive in auto)
qed simp

lemma allocated_update:
  assumes "\<forall>i < length ts. \<forall>j < length ts. i \<noteq> j \<longrightarrow> allocated (ts ! i) = None \<or> allocated (ts ! i) \<noteq> allocated (ts ! j)"
    "i < length ts" "\<And>j. j < length ts \<Longrightarrow> j \<noteq> i \<Longrightarrow> allocated t = None \<or> allocated t \<noteq> allocated (ts ! j)"
  shows "\<forall>k < length (ts[i := t]). \<forall>j < length (ts[i := t]). k \<noteq> j \<longrightarrow> allocated (ts[i := t] ! k) = None \<or> allocated (ts[i := t] ! k) \<noteq> allocated (ts[i := t] ! j)"
  using assms by (auto simp: nth_list_update) (metis option.distinct(1))

text \<open>A step keeps the invariant when the database it leaves is sound and related as above.\<close>

lemma tasks_inv_step:
  assumes inv: "tasks_inv ts db" and i: "i < length ts" and db: "db_ok db'" and t: "task_ok db' t"
    and counters: "\<And>ch s. counter_of db ch = Some s \<Longrightarrow> \<exists>s'. counter_of db' ch = Some s' \<and> s \<le> s'"
    and numbers: "\<And>ch n. n \<in> set (channel_numbers ch db') \<Longrightarrow>
      n \<in> set (channel_numbers ch db) \<or> counter_of db' ch \<noteq> None \<and> allocated (ts ! i) = Some (ch, n)"
    and alloc: "allocated t = None \<or> allocated t = allocated (ts ! i) \<or> (\<forall>u \<in> set ts. allocated t \<noteq> allocated u)"
  shows "tasks_inv (ts[i := t]) db'"
proof -
  have sep: "\<forall>i < length ts. \<forall>j < length ts. i \<noteq> j \<longrightarrow> allocated (ts ! i) = None \<or> allocated (ts ! i) \<noteq> allocated (ts ! j)"
    and ok: "\<And>u. u \<in> set ts \<Longrightarrow> task_ok db u" using inv by (auto simp: tasks_inv_def)
  have "task_ok db' (ts ! j)" if j: "j < length ts" "j \<noteq> i" for j
  proof (rule task_ok_other [OF ok counters])
    show "ts ! j \<in> set ts" using j by simp
    show "n \<in> set (channel_numbers ch db) \<or> counter_of db' ch \<noteq> None \<and> allocated (ts ! j) \<noteq> Some (ch, n)"
      if "n \<in> set (channel_numbers ch db')" for ch n
      using numbers [OF that] sep i j by (metis option.distinct(1))
  qed
  then have "\<forall>u \<in> set (ts[i := t]). task_ok db' u" using t i by (auto simp: in_set_conv_nth nth_list_update)
  moreover have a: "allocated t = None \<or> allocated t \<noteq> allocated (ts ! j)" if "j < length ts" "j \<noteq> i" for j
    using alloc sep i that by (metis nth_mem)
  note allocated_update [OF sep i a]
  ultimately show ?thesis using db unfolding tasks_inv_def by blast
qed

lemma archive_step_inv:
  assumes inv: "tasks_inv ts db" and i: "i < length ts" "ts ! i = Archive ch w lang p"
    and step: "archive_step now ch w lang p db = (p', db')"
  shows "tasks_inv (ts[i := Archive ch w lang p']) db'"
proof -
  have "task_ok db (ts ! i)" and db: "db_ok db" using inv i(1) by (auto simp: tasks_inv_def)
  then have ok: "point_ok db ch p" by (simp add: i(2))
  have cov: "number_covered db c n" if "u \<in> set ts" "allocated u = Some (c, n)" for u c n
    using inv that by (auto simp: tasks_inv_def intro: task_ok_numbered)
  have nums: "number_covered db c n" if "n \<in> set (channel_numbers c db)" "counter_of db c \<noteq> None" for c n
    using db that by (auto simp: db_ok_def channel_numbers_iff vkey_def)
  show ?thesis
  proof (cases p)
    case Read_counter
    then show ?thesis by (intro tasks_inv_step [OF inv i(1)]) (use step db in \<open>auto split: if_splits\<close>)
  next
    case Read_latest
    have "n \<le> latest_number ch db" if "n \<in> set (channel_numbers ch db)" for n
      using that Max_ge [of "set (0 # channel_numbers ch db)" n] unfolding latest_number_def by (simp only: Max.set_eq_fold) simp
    then show ?thesis by (intro tasks_inv_step [OF inv i(1)]) (use step db Read_latest in auto)
  next
    case (Seed_counter seed)
    let ?c = "case counter_of db ch of None \<Rightarrow> seed | Some s \<Rightarrow> max s seed"
    have r: "p' = Take_number" "db' = db\<lparr>wv_counters := AList.update ch ?c (wv_counters db)\<rparr>" using step Seed_counter by auto
    have "db_ok db'"
      using db ok Seed_counter
      by (auto simp: r db_ok_def number_covered_def split: option.splits dest: channel_numbers_mem)
    then show ?thesis
      using r by (intro tasks_inv_step [OF inv i(1)]) (auto simp: channel_numbers_def split: option.splits)
  next
    case Take_number
    obtain s where s: "counter_of db ch = Some s" using ok Take_number by auto
    have r: "p' = Insert_version (s + 1)" "db' = db\<lparr>wv_counters := AList.update ch (s + 1) (wv_counters db)\<rparr>"
      using step Take_number s by auto
    have new: "s + 1 \<notin> set (channel_numbers ch db)" using nums [of "s + 1" ch] s by (auto simp: number_covered_def)
    have "db_ok db'" using db s by (auto simp: r db_ok_def number_covered_def split: option.splits)
    moreover have "point_ok db' ch p'" using new by (simp add: r number_covered_def channel_numbers_def)
    moreover have "Some (ch, s + 1) \<noteq> allocated u" if "u \<in> set ts" for u
      using cov [OF that, of ch "s + 1"] s by (auto simp: number_covered_def)
    then have "\<forall>u \<in> set ts. allocated (Archive ch w lang p') \<noteq> allocated u" by (simp add: r)
    moreover have grow: "\<exists>s'. counter_of db' c = Some s' \<and> x \<le> s'" if "counter_of db c = Some x" for c x
      using that s by (auto simp: r)
    ultimately show ?thesis
      using r by (intro tasks_inv_step [OF inv i(1) _ _ grow]) (simp_all add: channel_numbers_def)
  next
    case (Insert_version n)
    have n: "number_covered db ch n" "n \<notin> set (channel_numbers ch db)" using ok Insert_version by auto
    show ?thesis
    proof (cases "version_doc_of now ch w lang n")
      case None
      then have "p' = Bad_document n" "db' = db" using step Insert_version by auto
      then show ?thesis by (intro tasks_inv_step [OF inv i(1)]) (use n i db Insert_version in auto)
    next
      case (Some d)
      have d: "vkey d = (ch, n)" using Some by (auto simp: version_doc_of_def vkey_def split: option.splits json.splits)
      have r: "p' = Archived n" "db' = db\<lparr>wv_versions := wv_versions db @ [d]\<rparr>" using step Insert_version Some n by auto
      have cc: "counter_of db ch \<noteq> None" using n(1) by (auto simp: number_covered_def split: option.splits)
      have "db_ok db'" using db d n by (auto simp: r db_ok_def number_covered_def channel_numbers_iff vkey_def)
      then show ?thesis
        using r n d cc i Insert_version
        by (intro tasks_inv_step [OF inv i(1)]) (auto simp: channel_numbers_iff number_covered_def split: option.splits)
    qed
  qed (use step inv i in \<open>auto simp: list_update_id [symmetric] dest: sym\<close>)
qed

lemma db_ok_filter: "db_ok db \<Longrightarrow> db_ok (db\<lparr>wv_versions := filter P (wv_versions db)\<rparr>)"
  by (auto simp: db_ok_def number_covered_def distinct_map_filter)

lemma cleanup_step_db: "cleanup_step ch m p db = (p', db') \<Longrightarrow> \<exists>P. db' = db\<lparr>wv_versions := filter P (wv_versions db)\<rparr>"
proof (cases p)
  case (Delete_versions ns)
  assume "cleanup_step ch m p db = (p', db')"
  then have "db' = db\<lparr>wv_versions := filter (\<lambda>d. \<not> (vd_channel d = ch \<and> vd_number d \<in> set ns)) (wv_versions db)\<rparr>"
    using Delete_versions by (auto simp: Let_def)
  then show ?thesis by blast
qed (auto simp: Let_def intro: exI [of _ "\<lambda>_. True"])

lemma task_step_inv:
  assumes "tasks_inv ts db" "i < length ts" "task_step now (ts ! i) db = (t, db')"
  shows "tasks_inv (ts[i := t]) db'"
proof (cases "ts ! i")
  case (Archive ch w lang p)
  then show ?thesis using assms archive_step_inv [OF assms(1,2)] by (auto split: prod.splits)
next
  case (Cleanup ch m p)
  obtain p' where t: "t = Cleanup ch m p'" "cleanup_step ch m p db = (p', db')"
    using assms(3) Cleanup by (auto split: prod.splits)
  obtain P where P: "db' = db\<lparr>wv_versions := filter P (wv_versions db)\<rparr>" using cleanup_step_db [OF t(2)] by blast
  show ?thesis
  proof (rule tasks_inv_step [OF assms(1,2)])
    show "db_ok db'" using assms(1) by (simp add: P tasks_inv_def db_ok_filter)
  qed (auto simp: t(1) P channel_numbers_def)
qed

interpretation version_tasks: interleaving task_step "\<lambda>_ :: unit. tasks_inv" "\<lambda>_ _. True"
  by unfold_locales (rule task_step_inv)

lemma run_schedule_inv: "tasks_inv ts db \<Longrightarrow> run_schedule sch ts db = (ts', db') \<Longrightarrow> tasks_inv ts' db'"
  unfolding run_schedule_def by (rule version_tasks.run_inv) (simp_all add: list_all_iff)

lemma fresh_tasks_inv: "db_ok db \<Longrightarrow> list_all fresh_task ts \<Longrightarrow> tasks_inv ts db"
proof -
  assume a: "db_ok db" "list_all fresh_task ts"
  have "fresh_task t \<Longrightarrow> task_ok db t \<and> allocated t = None" for t by (cases t) auto
  then show ?thesis using a by (auto simp: tasks_inv_def list_all_iff)
qed

section \<open>Sequential lemmas\<close>

lemma archive_sequential:
  assumes "db_ok db" "json_len (get_or w ''pages'' (JObj [])) \<noteq> None" "\<exists>meta. get_or w ''metadata'' (JObj []) = JObj meta"
  shows "\<exists>n d. archive now ch w lang db = (Archived n, \<lparr>wv_counters = AList.update ch n (wv_counters db), wv_versions = wv_versions db @ [d]\<rparr>) \<and>
    version_doc_of now ch w lang n = Some d \<and> (\<forall>m \<in> set (channel_numbers ch db). m < n)"
proof -
  let ?n = "case counter_of db ch of None \<Rightarrow> latest_number ch db + 1 | Some s \<Rightarrow> s + 1"
  obtain d where d: "version_doc_of now ch w lang ?n = Some d"
    using assms(2,3) by (auto simp: version_doc_of_def)
  have "m < ?n" if "m \<in> set (channel_numbers ch db)" for m
  proof (cases "counter_of db ch")
    case None
    have "m \<le> latest_number ch db"
      using that Max_ge [of "set (0 # channel_numbers ch db)" m] unfolding latest_number_def by (simp only: Max.set_eq_fold) simp
    then show ?thesis using None by simp
  next
    case (Some s)
    then have "m \<le> s" using that assms(1) by (auto simp: db_ok_def number_covered_def channel_numbers_def)
    then show ?thesis using Some by simp
  qed
  moreover from this have "?n \<notin> set (channel_numbers ch db)" by blast
  moreover have "channel_numbers ch (db\<lparr>wv_counters := c\<rparr>) = channel_numbers ch db" for c by (simp add: channel_numbers_def)
  ultimately have "archive now ch w lang db
      = (Archived ?n, \<lparr>wv_counters = AList.update ch ?n (wv_counters db), wv_versions = wv_versions db @ [d]\<rparr>)"
    using d by (cases "counter_of db ch") (simp_all add: archive_def numeral_eq_Suc update_swap)
  then show ?thesis using d \<open>\<And>m. m \<in> set (channel_numbers ch db) \<Longrightarrow> m < ?n\<close> by blast
qed

lemma filter_take_drop:
  assumes "distinct xs"
  shows "filter (\<lambda>x. x \<notin> set (take k xs)) xs = drop k xs" "filter (\<lambda>x. x \<in> set (take k xs)) xs = take k xs"
proof -
  have sep: "set (take k xs) \<inter> set (drop k xs) = {}" using assms by (rule set_take_disj_set_drop_if_distinct) simp
  have "filter P xs = filter P (take k xs) @ filter P (drop k xs)" for P
    by (simp only: filter_append [symmetric] append_take_drop_id)
  then show "filter (\<lambda>x. x \<notin> set (take k xs)) xs = drop k xs" "filter (\<lambda>x. x \<in> set (take k xs)) xs = take k xs"
    using sep by (auto simp: filter_empty_conv intro!: filter_True)
qed

lemma channel_numbers_filter:
  "channel_numbers ch (db\<lparr>wv_versions := filter (\<lambda>d. \<not> (vd_channel d = ch \<and> vd_number d \<in> X)) (wv_versions db)\<rparr>)
     = filter (\<lambda>n. n \<notin> X) (channel_numbers ch db)"
  by (simp add: channel_numbers_def filter_map comp_def) (rule arg_cong [where f = "map vd_number"], rule filter_cong, auto)

lemma cleanup_sequential:
  assumes "distinct (channel_numbers ch db)"
  shows "\<exists>db'. cleanup ch m db = (length (channel_numbers ch db) - m, db') \<and> wv_counters db' = wv_counters db \<and>
    (\<exists>X. wv_versions db' = filter (\<lambda>d. \<not> (vd_channel d = ch \<and> vd_number d \<in> X)) (wv_versions db)) \<and>
    sort (channel_numbers ch db') = drop (length (channel_numbers ch db) - m) (sort (channel_numbers ch db))"
proof (cases "length (channel_numbers ch db) \<le> m")
  case True
  have "filter (\<lambda>d. \<not> (vd_channel d = ch \<and> vd_number d \<in> {})) (wv_versions db) = wv_versions db" by simp
  then show ?thesis using True by (auto simp: cleanup_def numeral_3_eq_3 intro!: exI [of _ "{}"])
next
  case False
  let ?e = "length (channel_numbers ch db) - m"
  let ?S = "sort (channel_numbers ch db)"
  let ?gone = "\<lambda>d. vd_channel d = ch \<and> vd_number d \<in> set (take ?e ?S)"
  let ?db = "db\<lparr>wv_versions := filter (\<lambda>d. \<not> ?gone d) (wv_versions db)\<rparr>"
  have S: "distinct ?S" "length ?S = length (channel_numbers ch db)" using assms by simp_all
  have "0 < length (take ?e ?S)" using False by simp
  then have ne: "take ?e ?S \<noteq> []" by (rule length_greater_0_conv [THEN iffD1])
  have "sort (channel_numbers ch ?db) = drop ?e ?S"
    unfolding channel_numbers_filter filter_sort [symmetric] using filter_take_drop(1) [OF S(1)] .
  moreover have "length (filter ?gone (wv_versions db)) = ?e"
  proof -
    have "length (filter ?gone (wv_versions db)) = length (filter (\<lambda>n. n \<in> set (take ?e ?S)) (channel_numbers ch db))"
      by (simp add: channel_numbers_def filter_map comp_def)
    also have "\<dots> = length (filter (\<lambda>n. n \<in> set (take ?e ?S)) ?S)" by (metis filter_sort length_sort)
    finally show ?thesis using filter_take_drop(2) [OF S(1)] S(2) by simp
  qed
  moreover have "cleanup ch m db = (length (filter ?gone (wv_versions db)), ?db)"
    using False ne by (simp add: cleanup_def numeral_3_eq_3 Let_def)
  ultimately show ?thesis by (intro exI [of _ ?db] conjI exI [of _ "set (take ?e ?S)"]) simp_all
qed

section \<open>Properties\<close>

text \<open>
  Property C28. Version numbers are never given twice: starting from a sound database, which may hold versions of
  a channel without a counter, any interleaving of any number of archives and cleanups leaves
  pairwise different numbers in each channel, no insert meets the unique index, and no two archives
  of a channel are given the same number.
\<close>

theorem version_numbers_unique:
  assumes "db_ok db" "list_all fresh_task ts" "run_schedule sch ts db = (ts', db')"
  shows "distinct (map vkey (wv_versions db')) \<and> \<not> list_ex is_duplicate ts' \<and>
    sorted_wrt (\<lambda>t u. allocated t = None \<or> allocated t \<noteq> allocated u) ts'"
proof -
  have inv: "tasks_inv ts' db'" using run_schedule_inv [OF fresh_tasks_inv [OF assms(1,2)] assms(3)] .
  have "task_ok db' t \<Longrightarrow> \<not> is_duplicate t" for t by (induction t rule: is_duplicate.induct) auto
  then show ?thesis using inv by (auto simp: tasks_inv_def db_ok_def list_ex_iff sorted_wrt_iff_nth_less)
qed

definition toy_version :: "string \<Rightarrow> nat \<Rightarrow> version_doc" where
  "toy_version ch n =
     \<lparr>vd_channel = ch, vd_number = n, vd_target_lang = ''en'', vd_channel_name = JNull, vd_platform = JNull, vd_generated_at = JNull,
      vd_archived_at = ''t'', vd_page_count = 0, vd_model = JNull, vd_structure = JNull, vd_overview = JNull, vd_pages = JObj [],
      vd_metadata = JObj []\<rparr>"

definition toy_db :: version_db where
  "toy_db = \<lparr>wv_counters = [], wv_versions = [toy_version ''C1'' 1, toy_version ''C1'' 2]\<rparr>"

theorem version_numbers_unique_witness:
  "let ts = [Archive ''C1'' [] ''en'' Read_counter, Archive ''C1'' [] ''en'' Read_counter];
       (ts', db') = run_schedule [(i, ''t''). i \<leftarrow> [0, 1, 0, 1, 0, 0, 1, 1, 1, 0]] ts toy_db
   in \<not> list_ex is_duplicate ts' \<and> channel_numbers ''C1'' db' = [1, 2, 4, 3]"
proof -
  let ?ts = "[Archive ''C1'' [] ''en'' Read_counter, Archive ''C1'' [] ''en'' Read_counter]"
  let ?r = "run_schedule [(i, ''t''). i \<leftarrow> [0, 1, 0, 1, 0, 0, 1, 1, 1, 0]] ?ts toy_db"
  have "db_ok toy_db" "list_all fresh_task ?ts" by code_simp+
  from version_numbers_unique [OF this prod.collapse [symmetric]] have "\<not> list_ex is_duplicate (fst ?r)" by blast
  moreover have "channel_numbers ''C1'' (snd ?r) = [1, 2, 4, 3]" by code_simp
  ultimately show ?thesis by (simp only: Let_def case_prod_beta) simp
qed

text \<open>
  Cleanup keeps the newest: undisturbed, on a channel with distinct numbers, it deletes the oldest
  versions beyond the limit and no others, reports how many, and leaves other channels alone.
\<close>

theorem cleanup_keeps_newest:
  assumes "distinct (channel_numbers ch db)" "cleanup ch m db = (n, db')"
  shows "n = length (channel_numbers ch db) - m \<and>
    sort (channel_numbers ch db') = drop n (sort (channel_numbers ch db)) \<and>
    filter (\<lambda>d. vd_channel d \<noteq> ch) (wv_versions db') = filter (\<lambda>d. vd_channel d \<noteq> ch) (wv_versions db)"
proof -
  obtain X where X: "wv_versions db' = filter (\<lambda>d. \<not> (vd_channel d = ch \<and> vd_number d \<in> X)) (wv_versions db)"
      "n = length (channel_numbers ch db) - m" "sort (channel_numbers ch db') = drop n (sort (channel_numbers ch db))"
    using cleanup_sequential [OF assms(1), of m] assms(2) by auto
  have "filter (\<lambda>d. vd_channel d \<noteq> ch) (wv_versions db') = filter (\<lambda>d. vd_channel d \<noteq> ch) (wv_versions db)"
    unfolding X(1) filter_filter by (rule filter_cong) auto
  then show ?thesis using X(2,3) by blast
qed

theorem cleanup_keeps_newest_witness:
  "sort (channel_numbers ''C1'' (snd (cleanup ''C1'' 1 toy_db))) = [2]"
proof -
  have d: "distinct (channel_numbers ''C1'' toy_db)" "channel_numbers ''C1'' toy_db = [1, 2]" by code_simp+
  from cleanup_keeps_newest [OF d(1), of 1 "fst (cleanup ''C1'' 1 toy_db)" "snd (cleanup ''C1'' 1 toy_db)"] d(2)
  show ?thesis by simp
qed

text \<open>
  Two cleanups of a channel that overlap delete more than the excess: of twelve versions eight are left.
\<close>

theorem overlapping_cleanups_delete_more:
  "count_versions ''C1'' (snd (run_schedule [(i, ''t''). i \<leftarrow> [0, 1, 0, 0, 1, 1]]
     [Cleanup ''C1'' MAX_VERSIONS_DEFAULT Count_versions, Cleanup ''C1'' MAX_VERSIONS_DEFAULT Count_versions]
     \<lparr>wv_counters = [(''C1'', 12)], wv_versions = map (toy_version ''C1'') [1, 2, 3, 4, 5, 6, 7, 8, 9, 10, 11, 12]\<rparr>)) = 8"
  by code_simp

lemma set_doc_fields_get: "dict_ok new \<Longrightarrow> map_of (set_doc_fields new d) k = (case map_of new k of None \<Rightarrow> map_of d k | Some v \<Rightarrow> Some v)"
  by (induction new arbitrary: d) (auto simp: set_doc_fields_def map_of_eq_None_iff [THEN iffD2] split: option.splits)


definition toy_store :: wiki_store where
  "toy_store = \<lparr>ws_cache = [(''C1:en'', [(''channel_id'', JStr ''C1:en''), (''pages'', JObj [(''p'', JNull)])])], ws_status = [], ws_versions = toy_db\<rparr>"


end
