(* ===== verification/Write_Outbox.thy ===== *)
theory Write_Outbox
  imports Py_Json "HOL-Library.List_Lexorder" "HOL-Library.Multiset"
begin

text \<open>
  The outbox between the extraction and the two stores: the write intents of
  \<^verbatim>\<open>stores/mongodb_store.py\<close>, the order of writes and marks in \<^verbatim>\<open>agents/ingestion/persister.py\<close>, the
  retries of \<^verbatim>\<open>services/reconciler.py\<close> and the content-derived fact ids of \<^verbatim>\<open>models/domain.py\<close>.
  The vector store is a table by fact id and the graph a list of rows; whether a call of a store
  succeeds is an argument. The hash behind the ids and what the persister adds to a fact from the
  source messages are parameters.
\<close>

section \<open>Rows\<close>

record fact_row =
  fr_channel :: "string option"
  fr_text :: string
  fr_tags :: "string list"
  fr_body :: "(string, json) dict"

record entity_row =
  er_channel :: "string option"
  er_name :: string
  er_body :: "(string, json) dict"

record relationship_row =
  rr_type :: string
  rr_source :: string
  rr_target :: string
  rr_body :: "(string, json) dict"

record atomic_fact =
  af_id :: string
  af_channel :: string
  af_text :: string
  af_tags :: "string list"
  af_body :: "(string, json) dict"

record write_intent =
  wi_id :: string
  wi_channel :: "string option"
  wi_facts :: "fact_row list"
  wi_entities :: "entity_row list"
  wi_relationships :: "relationship_row list"
  weaviate_done :: bool
  neo4j_done :: bool
  wi_created_at :: seconds

record outbox =
  ob_intents :: "write_intent list"
  ob_weaviate :: "(string, atomic_fact) dict"
  ob_entities :: "entity_row list"
  ob_relationships :: "relationship_row list"

section \<open>Fact ids\<close>

abbreviation nul :: char where
  "nul \<equiv> CHR 0x00"

text \<open>The text that is hashed, and the id as a function \<open>content_id\<close> of it.\<close>

definition content_key :: "string \<Rightarrow> string list \<Rightarrow> string" where
  "content_key memory_text entity_names = memory_text @ nul # py_join [nul] (sort entity_names)"

definition deterministic_id :: "(string \<Rightarrow> string) \<Rightarrow> string \<Rightarrow> string list \<Rightarrow> string" where
  "deterministic_id content_id memory_text entity_names = content_id (content_key memory_text entity_names)"

section \<open>Intents\<close>

definition create_write_intent ::
  "seconds \<Rightarrow> string \<Rightarrow> fact_row list \<Rightarrow> entity_row list \<Rightarrow> relationship_row list \<Rightarrow> string option \<Rightarrow> outbox \<Rightarrow> outbox" where
  "create_write_intent now fresh_id facts entities relationships channel_id s =
     s\<lparr>ob_intents := ob_intents s @
        [\<lparr>wi_id = fresh_id, wi_channel = channel_id, wi_facts = facts, wi_entities = entities, wi_relationships = relationships,
          weaviate_done = False, neo4j_done = False, wi_created_at = now\<rparr>]\<rparr>"

definition update_intent :: "string \<Rightarrow> (write_intent \<Rightarrow> write_intent) \<Rightarrow> outbox \<Rightarrow> outbox" where
  "update_intent i f s = s\<lparr>ob_intents := map (\<lambda>w. if wi_id w = i then f w else w) (ob_intents s)\<rparr>"

definition mark_intent_weaviate_done :: "string \<Rightarrow> outbox \<Rightarrow> outbox" where
  "mark_intent_weaviate_done i = update_intent i (\<lambda>w. w\<lparr>weaviate_done := True\<rparr>)"

definition mark_intent_neo4j_done :: "string \<Rightarrow> outbox \<Rightarrow> outbox" where
  "mark_intent_neo4j_done i = update_intent i (\<lambda>w. w\<lparr>neo4j_done := True\<rparr>)"

definition mark_intent_complete :: "string \<Rightarrow> outbox \<Rightarrow> outbox" where
  "mark_intent_complete i = update_intent i (\<lambda>w. w\<lparr>weaviate_done := True, neo4j_done := True\<rparr>)"

definition intent_pending :: "write_intent \<Rightarrow> bool" where
  "intent_pending w \<longleftrightarrow> \<not> weaviate_done w \<or> \<not> neo4j_done w"

definition get_pending_intents :: "seconds \<Rightarrow> seconds \<Rightarrow> outbox \<Rightarrow> write_intent list" where
  "get_pending_intents now max_age_minutes s =
     filter (\<lambda>w. wi_created_at w < now - max_age_minutes * 60 \<and> intent_pending w) (ob_intents s)"

section \<open>Stores\<close>

definition batch_upsert_facts :: "atomic_fact list \<Rightarrow> outbox \<Rightarrow> outbox" where
  "batch_upsert_facts facts s = s\<lparr>ob_weaviate := fold (\<lambda>f. AList.update (af_id f) f) facts (ob_weaviate s)\<rparr>"

definition batch_upsert_entities :: "entity_row list \<Rightarrow> outbox \<Rightarrow> outbox" where
  "batch_upsert_entities es s = s\<lparr>ob_entities := ob_entities s @ filter (\<lambda>e. e \<notin> set (ob_entities s)) es\<rparr>"

definition batch_upsert_relationships :: "relationship_row list \<Rightarrow> outbox \<Rightarrow> outbox" where
  "batch_upsert_relationships rs s = s\<lparr>ob_relationships := ob_relationships s @ filter (\<lambda>r. r \<notin> set (ob_relationships s)) rs\<rparr>"

section \<open>Persister\<close>

record persist_env =
  content_hash :: "string \<Rightarrow> string"
  enrich_fact :: "fact_row \<Rightarrow> (string, json) dict"
  normalize_rels :: "relationship_row list \<Rightarrow> relationship_row list"

text \<open>
  How the two parallel upserts end: the store's call raises, the graph raises between entities and
  relationships, the mark after the writes raises, or all succeed.
  The process may also die before it gathers the results.
\<close>

datatype upsert_outcome = Upsert_ok | Store_raises | Relationships_raise | Mark_raises

record persist_run =
  pr_intent_id :: string
  pr_channel :: string
  pr_facts :: "fact_row list"
  pr_entities :: "entity_row list"
  pr_relationships :: "relationship_row list"
  pr_skip_graph :: bool
  pr_weaviate :: upsert_outcome
  pr_graph :: upsert_outcome
  pr_dies :: bool

definition persister_fact :: "persist_env \<Rightarrow> string \<Rightarrow> fact_row \<Rightarrow> atomic_fact" where
  "persister_fact E channel_id fd =
     \<lparr>af_id = deterministic_id (content_hash E) (fr_text fd) (fr_tags fd),
      af_channel = (case fr_channel fd of None \<Rightarrow> channel_id | Some c \<Rightarrow> if c = [] then channel_id else c),
      af_text = fr_text fd, af_tags = fr_tags fd, af_body = enrich_fact E fd\<rparr>"

definition upsert_weaviate :: "persist_env \<Rightarrow> persist_run \<Rightarrow> outbox \<Rightarrow> outbox" where
  "upsert_weaviate E r s =
     (if pr_facts r = [] then s
      else case pr_weaviate r of
        Store_raises \<Rightarrow> s
      | Relationships_raise \<Rightarrow> s
      | Mark_raises \<Rightarrow> batch_upsert_facts (map (persister_fact E (pr_channel r)) (pr_facts r)) s
      | Upsert_ok \<Rightarrow> mark_intent_weaviate_done (pr_intent_id r) (batch_upsert_facts (map (persister_fact E (pr_channel r)) (pr_facts r)) s))"

definition weaviate_failed :: "persist_run \<Rightarrow> bool" where
  "weaviate_failed r \<longleftrightarrow> pr_facts r \<noteq> [] \<and> pr_weaviate r \<noteq> Upsert_ok"

definition upsert_graph :: "persist_env \<Rightarrow> persist_run \<Rightarrow> outbox \<Rightarrow> outbox" where
  "upsert_graph E r s =
     (let written = (if pr_skip_graph r then s
            else batch_upsert_relationships (normalize_rels E (pr_relationships r)) (batch_upsert_entities (pr_entities r) s))
      in if pr_graph r = Store_raises \<and> \<not> pr_skip_graph r then s
         else if pr_graph r = Relationships_raise \<and> \<not> pr_skip_graph r then batch_upsert_entities (pr_entities r) s
         else if pr_graph r = Mark_raises then written
         else mark_intent_neo4j_done (pr_intent_id r) written)"

definition persist :: "persist_env \<Rightarrow> seconds \<Rightarrow> persist_run \<Rightarrow> outbox \<Rightarrow> outbox" where
  "persist E now r s =
     (let intent_channel = (if pr_channel r \<noteq> [] \<and> pr_channel r \<noteq> ''unknown'' then Some (pr_channel r) else None);
          s1 = create_write_intent now (pr_intent_id r) (pr_facts r) (pr_entities r) (pr_relationships r) intent_channel s;
          s2 = upsert_graph E r (upsert_weaviate E r s1)
      in if pr_dies r then s2 else if weaviate_failed r then s2 else mark_intent_complete (pr_intent_id r) s2)"

section \<open>Reconciler\<close>

definition replayed_fact :: "(string \<Rightarrow> string) \<Rightarrow> fact_row \<Rightarrow> atomic_fact" where
  "replayed_fact content_id fd =
     \<lparr>af_id = deterministic_id content_id (fr_text fd) (fr_tags fd), af_channel = (case fr_channel fd of None \<Rightarrow> [] | Some c \<Rightarrow> c),
      af_text = fr_text fd, af_tags = fr_tags fd, af_body = fr_body fd\<rparr>"

definition in_channels :: "string option \<Rightarrow> string set \<Rightarrow> bool" where
  "in_channels c X = (case c of None \<Rightarrow> False | Some c' \<Rightarrow> c' \<in> X)"

record reconcile_calls =
  rc_purging :: "string list option"
  rc_weaviate_ok :: bool
  rc_entities_ok :: bool
  rc_relationships_ok :: bool

text \<open>A failed read of the purging channels is an empty set. The flag is whether the intent was reconciled.\<close>

definition reconcile_intent :: "(string \<Rightarrow> string) \<Rightarrow> reconcile_calls \<Rightarrow> write_intent \<Rightarrow> outbox \<Rightarrow> bool \<times> outbox" where
  "reconcile_intent content_id c wi s =
     (let purging = (case rc_purging c of None \<Rightarrow> {} | Some ids \<Rightarrow> set ids);
          facts = map (replayed_fact content_id) (filter (\<lambda>fd. \<not> in_channels (fr_channel fd) purging) (wi_facts wi));
          entities = filter (\<lambda>ed. \<not> in_channels (er_channel ed) purging) (wi_entities wi);
          touched = list_ex (\<lambda>fd. in_channels (fr_channel fd) purging) (wi_facts wi) \<or>
            list_ex (\<lambda>ed. in_channels (er_channel ed) purging) (wi_entities wi);
          relationships = (if touched then [] else wi_relationships wi)
      in if \<not> weaviate_done wi \<and> facts \<noteq> [] \<and> \<not> rc_weaviate_ok c then (False, s)
         else
           let s1 = (if weaviate_done wi then s else mark_intent_weaviate_done (wi_id wi) (batch_upsert_facts facts s)) in
           if \<not> neo4j_done wi \<and> entities \<noteq> [] \<and> \<not> rc_entities_ok c then (False, s1)
           else if \<not> neo4j_done wi \<and> relationships \<noteq> [] \<and> \<not> rc_relationships_ok c then (False, batch_upsert_entities entities s1)
           else
             let s2 = (if neo4j_done wi then s1
                       else mark_intent_neo4j_done (wi_id wi)
                         (batch_upsert_relationships relationships (batch_upsert_entities entities s1)))
             in (True, mark_intent_complete (wi_id wi) s2))"

definition run_once :: "(string \<Rightarrow> string) \<Rightarrow> seconds \<Rightarrow> seconds \<Rightarrow> (string \<Rightarrow> reconcile_calls) \<Rightarrow> outbox \<Rightarrow> outbox" where
  "run_once content_id now interval_minutes calls s =
     fold (\<lambda>wi s. snd (reconcile_intent content_id (calls (wi_id wi)) wi s)) (get_pending_intents now interval_minutes s) s"

section \<open>Lemmas on ids\<close>

lemma content_key_perm: "mset xs = mset ys \<Longrightarrow> content_key t xs = content_key t ys"
  by (simp add: content_key_def) (metis properties_for_sort mset_sort sorted_sort)

lemma nul_split:
  "nul \<notin> set x \<Longrightarrow> nul \<notin> set y \<Longrightarrow> x @ nul # r = y @ nul # r' \<Longrightarrow> x = y \<and> r = r'"
  by (induction x arbitrary: y) (case_tac y; auto)+

lemma py_join_nul_inj:
  assumes "list_all (\<lambda>w. nul \<notin> set w) xs" "list_all (\<lambda>w. nul \<notin> set w) ys" "py_join [nul] xs = py_join [nul] ys" "[] \<notin> set xs" "[] \<notin> set ys"
  shows "xs = ys"
  using assms
proof (induction "[nul]" xs arbitrary: ys rule: py_join.induct)
  case 1
  then show ?case by (cases ys rule: remdups_adj.cases) auto
next
  case (2 w)
  then show ?case by (cases ys rule: remdups_adj.cases) auto
next
  case (3 w v vs)
  show ?case
  proof (cases ys rule: remdups_adj.cases)
    case (3 a b bs)
    then have eq: "w @ nul # py_join [nul] (v # vs) = a @ nul # py_join [nul] (b # bs)" using "3.prems"(3) by simp
    have "w = a \<and> py_join [nul] (v # vs) = py_join [nul] (b # bs)" using nul_split [OF _ _ eq] "3.prems"(1,2) 3 by simp
    moreover have "v # vs = b # bs" by (rule "3.hyps") (use "3.prems" 3 calculation in auto)
    ultimately show ?thesis using 3 by simp
  qed (use "3.prems" in auto)
qed

section \<open>Lemmas on the stores\<close>

lemma outbox_frame [simp]:
  "ob_weaviate (update_intent i f s) = ob_weaviate s"
  "ob_intents (batch_upsert_facts fs s) = ob_intents s"
  "ob_intents (batch_upsert_entities es s) = ob_intents s" "ob_weaviate (batch_upsert_entities es s) = ob_weaviate s"
  "ob_intents (batch_upsert_relationships rs s) = ob_intents s" "ob_weaviate (batch_upsert_relationships rs s) = ob_weaviate s"
  by (simp_all add: update_intent_def batch_upsert_facts_def batch_upsert_entities_def batch_upsert_relationships_def)

lemmas mark_defs = mark_intent_weaviate_done_def mark_intent_neo4j_done_def mark_intent_complete_def

text \<open>The ids in the vector store; the facts of a list that are not of the channels \<open>P\<close> are among them.\<close>

definition stored_ids :: "outbox \<Rightarrow> string set" where
  "stored_ids s = dom (map_of (ob_weaviate s))"

lemma stored_ids_frame [simp]:
  "stored_ids (update_intent i f s) = stored_ids s" "stored_ids (batch_upsert_entities es s) = stored_ids s"
  "stored_ids (batch_upsert_relationships rs s) = stored_ids s"
  by (simp_all add: stored_ids_def)

lemma upserted_facts_ids [simp]: "stored_ids (batch_upsert_facts fs s) = stored_ids s \<union> af_id ` set fs"
proof -
  have "dom (map_of (fold (\<lambda>f. AList.update (af_id f) f) fs d)) = dom (map_of d) \<union> af_id ` set fs" for d
    by (induction fs arbitrary: d) auto
  then show ?thesis by (simp add: batch_upsert_facts_def stored_ids_def)
qed

definition facts_stored :: "(string \<Rightarrow> string) \<Rightarrow> string set \<Rightarrow> string set \<Rightarrow> fact_row list \<Rightarrow> bool" where
  "facts_stored H P ids fds \<longleftrightarrow> list_all (\<lambda>fd. in_channels (fr_channel fd) P \<or> deterministic_id H (fr_text fd) (fr_tags fd) \<in> ids) fds"

definition facts_safe :: "(string \<Rightarrow> string) \<Rightarrow> string set \<Rightarrow> outbox \<Rightarrow> bool" where
  "facts_safe H P s \<longleftrightarrow> (\<forall>w \<in> set (ob_intents s). weaviate_done w \<longrightarrow> facts_stored H P (stored_ids s) (wi_facts w))"

lemma facts_stored_mono: "facts_stored H P ids fds \<Longrightarrow> ids \<subseteq> ids' \<Longrightarrow> facts_stored H P ids' fds"
  by (auto simp: facts_stored_def list_all_iff)

lemma facts_safe_upserts:
  "facts_safe H P s \<Longrightarrow> facts_safe H P (batch_upsert_facts fs s)"
  "facts_safe H P s \<Longrightarrow> facts_safe H P (batch_upsert_entities es s)"
  "facts_safe H P s \<Longrightarrow> facts_safe H P (batch_upsert_relationships rs s)"
  using facts_stored_mono [of H P "stored_ids s" _ "stored_ids s \<union> af_id ` set fs"] unfolding facts_safe_def by auto

text \<open>A mark is safe when the facts of the marked intents are stored, or it does not set the flag.\<close>

lemma facts_safe_mark:
  assumes "facts_safe H P s" "\<And>w. wi_facts (f w) = wi_facts w"
    "\<And>w. w \<in> set (ob_intents s) \<Longrightarrow> wi_id w = i \<Longrightarrow> weaviate_done (f w) \<Longrightarrow> weaviate_done w \<or> facts_stored H P (stored_ids s) (wi_facts w)"
  shows "facts_safe H P (update_intent i f s)"
  unfolding facts_safe_def
proof (intro ballI impI)
  fix w assume w: "w \<in> set (ob_intents (update_intent i f s))" "weaviate_done w"
  obtain u where u: "u \<in> set (ob_intents s)" "w = (if wi_id u = i then f u else u)" using w(1) by (auto simp: update_intent_def)
  then have "wi_facts w = wi_facts u" using assms(2) by simp
  moreover have "facts_stored H P (stored_ids s) (wi_facts u)"
  proof (cases "weaviate_done u")
    case True
    then show ?thesis using assms(1) u(1) by (simp add: facts_safe_def)
  next
    case False
    then show ?thesis using assms(3) [OF u(1)] u(2) w(2) by (auto split: if_splits)
  qed
  ultimately show "facts_stored H P (stored_ids (update_intent i f s)) (wi_facts w)" by simp
qed

lemma facts_safe_marks:
  "facts_safe H P s \<Longrightarrow> facts_safe H P (mark_intent_neo4j_done i s)"
  "facts_safe H P s \<Longrightarrow> (\<And>w. w \<in> set (ob_intents s) \<Longrightarrow> wi_id w = i \<Longrightarrow> facts_stored H P (stored_ids s) (wi_facts w)) \<Longrightarrow>
     facts_safe H P (mark_intent_weaviate_done i s)"
  "facts_safe H P s \<Longrightarrow> (\<And>w. w \<in> set (ob_intents s) \<Longrightarrow> wi_id w = i \<Longrightarrow> facts_stored H P (stored_ids s) (wi_facts w)) \<Longrightarrow>
     facts_safe H P (mark_intent_complete i s)"
  unfolding mark_defs by (rule facts_safe_mark; auto)+

text \<open>The ids and facts of the intents, which no operation but the creation changes.\<close>

definition payloads :: "outbox \<Rightarrow> (string \<times> fact_row list) list" where
  "payloads s = map (\<lambda>w. (wi_id w, wi_facts w)) (ob_intents s)"

lemma payloads_update: "(\<And>w. wi_id (f w) = wi_id w \<and> wi_facts (f w) = wi_facts w) \<Longrightarrow> payloads (update_intent i f s) = payloads s"
  by (simp add: payloads_def update_intent_def)

lemma payloads_frame [simp]:
  "payloads (mark_intent_weaviate_done i s) = payloads s" "payloads (mark_intent_neo4j_done i s) = payloads s"
  "payloads (mark_intent_complete i s) = payloads s" "payloads (batch_upsert_facts fs s) = payloads s"
  "payloads (batch_upsert_entities es s) = payloads s" "payloads (batch_upsert_relationships rs s) = payloads s"
  unfolding mark_defs by (rule payloads_update, simp)+ (simp_all add: payloads_def)

lemma stored_ids_marks [simp]:
  "stored_ids (mark_intent_weaviate_done i s) = stored_ids s" "stored_ids (mark_intent_neo4j_done i s) = stored_ids s"
  "stored_ids (mark_intent_complete i s) = stored_ids s"
  by (simp_all add: mark_defs)

text \<open>A snapshot of an intent whose facts agree with the stored intents of its id.\<close>

definition snapshot_ok :: "(string \<Rightarrow> string) \<Rightarrow> string set \<Rightarrow> write_intent \<Rightarrow> outbox \<Rightarrow> bool" where
  "snapshot_ok H P wi s \<longleftrightarrow> (\<forall>fds. (wi_id wi, fds) \<in> set (payloads s) \<longrightarrow> fds = wi_facts wi) \<and>
     (weaviate_done wi \<longrightarrow> facts_stored H P (stored_ids s) (wi_facts wi))"

lemma snapshot_facts: "snapshot_ok H P wi s \<Longrightarrow> payloads s' = payloads s \<Longrightarrow> w \<in> set (ob_intents s') \<Longrightarrow> wi_id w = wi_id wi \<Longrightarrow> wi_facts w = wi_facts wi"
proof -
  assume a: "snapshot_ok H P wi s" "payloads s' = payloads s" "w \<in> set (ob_intents s')" "wi_id w = wi_id wi"
  have "(wi_id w, wi_facts w) \<in> set (payloads s')" using a(3) by (simp add: payloads_def)
  then show ?thesis using a(1,2,4) by (simp add: snapshot_ok_def)
qed

lemma snapshot_later: "snapshot_ok H P wi s \<Longrightarrow> payloads s' = payloads s \<Longrightarrow> stored_ids s \<subseteq> stored_ids s' \<Longrightarrow> snapshot_ok H P wi s'"
  by (auto simp: snapshot_ok_def intro: facts_stored_mono)

definition replayed :: "(string \<Rightarrow> string) \<Rightarrow> reconcile_calls \<Rightarrow> write_intent \<Rightarrow> atomic_fact list" where
  "replayed H c wi = map (replayed_fact H)
     (filter (\<lambda>fd. \<not> in_channels (fr_channel fd) (case rc_purging c of None \<Rightarrow> {} | Some ids \<Rightarrow> set ids)) (wi_facts wi))"

definition calls_within :: "string set \<Rightarrow> reconcile_calls \<Rightarrow> bool" where
  "calls_within P c \<longleftrightarrow> (case rc_purging c of None \<Rightarrow> True | Some ids \<Rightarrow> set ids \<subseteq> P)"

lemma replayed_stored:
  assumes "calls_within P c"
  shows "facts_stored H P (ids \<union> af_id ` set (replayed H c wi)) (wi_facts wi)"
proof -
  have "deterministic_id H (fr_text fd) (fr_tags fd) \<in> af_id ` set (replayed H c wi)"
    if "fd \<in> set (wi_facts wi)" "\<not> in_channels (fr_channel fd) P" for fd
  proof -
    have "\<not> in_channels (fr_channel fd) (case rc_purging c of None \<Rightarrow> {} | Some ids \<Rightarrow> set ids)"
      using that(2) assms by (auto simp: calls_within_def in_channels_def split: option.splits)
    then have "replayed_fact H fd \<in> set (replayed H c wi)" using that(1) by (auto simp: replayed_def)
    then show ?thesis by (force simp: replayed_fact_def)
  qed
  then show ?thesis by (auto simp: facts_stored_def list_all_iff)
qed

text \<open>The state after the vector store's half, and after both halves.\<close>

definition half_replayed :: "(string \<Rightarrow> string) \<Rightarrow> reconcile_calls \<Rightarrow> write_intent \<Rightarrow> outbox \<Rightarrow> outbox" where
  "half_replayed H c wi s =
     (if weaviate_done wi then s else mark_intent_weaviate_done (wi_id wi) (batch_upsert_facts (replayed H c wi) s))"

lemma half_replayed_safe:
  assumes "facts_safe H P s" "calls_within P c" "snapshot_ok H P wi s"
  shows "facts_safe H P (half_replayed H c wi s)" "payloads (half_replayed H c wi s) = payloads s"
    "stored_ids s \<subseteq> stored_ids (half_replayed H c wi s)" "facts_stored H P (stored_ids (half_replayed H c wi s)) (wi_facts wi)"
proof -
  note stored = replayed_stored [OF assms(2), of H "stored_ids s" wi]
  have "wi_facts w = wi_facts wi" if "w \<in> set (ob_intents s)" "wi_id w = wi_id wi" for w
    using snapshot_facts [OF assms(3) _ that] by simp
  then show "facts_safe H P (half_replayed H c wi s)"
    using assms(1) stored unfolding half_replayed_def by (auto intro!: facts_safe_marks(2) facts_safe_upserts(1))
  show "payloads (half_replayed H c wi s) = payloads s" "stored_ids s \<subseteq> stored_ids (half_replayed H c wi s)"
    by (auto simp: half_replayed_def)
  show "facts_stored H P (stored_ids (half_replayed H c wi s)) (wi_facts wi)"
    using assms(3) stored by (auto simp: half_replayed_def snapshot_ok_def)
qed

lemma reconcile_intent_cases:
  obtains "reconcile_intent H c wi s = (False, s)" "\<not> rc_weaviate_ok c"
  | s' where "reconcile_intent H c wi s = (False, s')" "\<not> rc_entities_ok c \<or> \<not> rc_relationships_ok c"
      "s' = half_replayed H c wi s \<or> (\<exists>es. s' = batch_upsert_entities es (half_replayed H c wi s))"
  | s' where "reconcile_intent H c wi s = (True, mark_intent_complete (wi_id wi) s')"
      "s' = half_replayed H c wi s \<or> (\<exists>es rs. s' = mark_intent_neo4j_done (wi_id wi)
         (batch_upsert_relationships rs (batch_upsert_entities es (half_replayed H c wi s))))"
proof -
  define X where "X = (case rc_purging c of None \<Rightarrow> {} | Some ids \<Rightarrow> set ids)"
  define es where "es = filter (\<lambda>ed. \<not> in_channels (er_channel ed) X) (wi_entities wi)"
  define rs where "rs = (if list_ex (\<lambda>fd. in_channels (fr_channel fd) X) (wi_facts wi) \<or> list_ex (\<lambda>ed. in_channels (er_channel ed) X) (wi_entities wi)
      then [] else wi_relationships wi)"
  let ?h = "half_replayed H c wi s"
  let ?s2 = "if neo4j_done wi then ?h else mark_intent_neo4j_done (wi_id wi) (batch_upsert_relationships rs (batch_upsert_entities es ?h))"
  define s2 where "s2 = ?s2"
  define A where "A \<longleftrightarrow> \<not> weaviate_done wi \<and> replayed H c wi \<noteq> [] \<and> \<not> rc_weaviate_ok c"
  define B where "B \<longleftrightarrow> \<not> neo4j_done wi \<and> es \<noteq> [] \<and> \<not> rc_entities_ok c"
  define C where "C \<longleftrightarrow> \<not> neo4j_done wi \<and> rs \<noteq> [] \<and> \<not> rc_relationships_ok c"
  have r: "reconcile_intent H c wi s = (if A then (False, s) else if B then (False, ?h)
      else if C then (False, batch_upsert_entities es ?h) else (True, mark_intent_complete (wi_id wi) s2))"
    unfolding A_def B_def C_def s2_def reconcile_intent_def Let_def X_def [symmetric] es_def [symmetric] rs_def [symmetric] half_replayed_def replayed_def
    by (rule refl)
  have s2: "s2 = ?h \<or> (\<exists>es rs. s2 = mark_intent_neo4j_done (wi_id wi) (batch_upsert_relationships rs (batch_upsert_entities es ?h)))"
    by (auto simp: s2_def)
  show thesis
  proof (cases A)
    case True
    then show thesis using that(1) r by (simp add: A_def)
  next
    case False
    show thesis
    proof (cases "B \<or> C")
      case True
      have "batch_upsert_entities es ?h = ?h \<or> (\<exists>es'. batch_upsert_entities es ?h = batch_upsert_entities es' ?h)" by blast
      then show thesis using that(2) [of ?h] that(2) [of "batch_upsert_entities es ?h"] r False True by (cases B) (auto simp: B_def C_def)
    next
      case nb: False
      show thesis by (rule that(3) [OF _ s2]) (use r False nb in simp)
    qed
  qed
qed

lemma reconcile_intent_safe:
  assumes "facts_safe H P s" "calls_within P c" "snapshot_ok H P wi s"
  shows "facts_safe H P (snd (reconcile_intent H c wi s)) \<and> payloads (snd (reconcile_intent H c wi s)) = payloads s \<and>
    stored_ids s \<subseteq> stored_ids (snd (reconcile_intent H c wi s))"
proof (cases rule: reconcile_intent_cases [of H c wi s])
  case (3 s')
  note half = half_replayed_safe [OF assms]
  have s': "facts_safe H P s'" "payloads s' = payloads s" "stored_ids s' = stored_ids (half_replayed H c wi s)"
    using 3(2) half by (auto simp: facts_safe_marks facts_safe_upserts)
  have "facts_safe H P (mark_intent_complete (wi_id wi) s')"
    using s' half snapshot_facts [OF assms(3) s'(2)] by (intro facts_safe_marks(3)) auto
  then show ?thesis using 3(1) s' half by simp
qed (use assms half_replayed_safe [OF assms] in \<open>auto simp: facts_safe_upserts\<close>)

section \<open>Runs\<close>

text \<open>What happens to the outbox: a batch is persisted, the reconciler runs.\<close>

datatype outbox_event = Persist seconds persist_run | Reconcile seconds seconds "string \<Rightarrow> reconcile_calls"

definition outbox_step :: "persist_env \<Rightarrow> outbox_event \<Rightarrow> outbox \<Rightarrow> outbox" where
  "outbox_step E ev s =
     (case ev of
        Persist now r \<Rightarrow> persist E now r s
      | Reconcile now interval calls \<Rightarrow> run_once (content_hash E) now interval calls s)"

definition empty_outbox :: outbox where
  "empty_outbox = \<lparr>ob_intents = [], ob_weaviate = [], ob_entities = [], ob_relationships = []\<rparr>"

fun event_ids :: "outbox_event list \<Rightarrow> string list" where
  "event_ids [] = []"
| "event_ids (Persist now r # evs) = pr_intent_id r # event_ids evs"
| "event_ids (Reconcile now interval calls # evs) = event_ids evs"

definition event_within :: "string set \<Rightarrow> outbox_event \<Rightarrow> bool" where
  "event_within P ev = (case ev of Persist now r \<Rightarrow> True | Reconcile now interval calls \<Rightarrow> (\<forall>i. calls_within P (calls i)))"

definition outbox_ok :: "(string \<Rightarrow> string) \<Rightarrow> string set \<Rightarrow> outbox \<Rightarrow> bool" where
  "outbox_ok H P s \<longleftrightarrow> facts_safe H P s \<and> distinct (map fst (payloads s))"

lemma pending_snapshot:
  assumes "outbox_ok H P s" "wi \<in> set (ob_intents s)"
  shows "snapshot_ok H P wi s"
proof -
  have "(wi_id wi, wi_facts wi) \<in> set (payloads s)" using assms(2) by (simp add: payloads_def)
  then have "fds = wi_facts wi" if "(wi_id wi, fds) \<in> set (payloads s)" for fds
    using that assms(1) by (auto simp: outbox_ok_def dest: eq_key_imp_eq_value)
  then show ?thesis using assms by (auto simp: snapshot_ok_def outbox_ok_def facts_safe_def)
qed

lemma reconcile_fold_safe:
  assumes "outbox_ok H P s" "\<And>wi. wi \<in> set wis \<Longrightarrow> snapshot_ok H P wi s" "\<And>i. calls_within P (calls i)"
  shows "outbox_ok H P (fold (\<lambda>wi s. snd (reconcile_intent H (calls (wi_id wi)) wi s)) wis s) \<and>
    payloads (fold (\<lambda>wi s. snd (reconcile_intent H (calls (wi_id wi)) wi s)) wis s) = payloads s"
  using assms
proof (induction wis arbitrary: s)
  case (Cons wi wis)
  let ?s = "snd (reconcile_intent H (calls (wi_id wi)) wi s)"
  have "facts_safe H P s" "snapshot_ok H P wi s" using Cons.prems by (auto simp: outbox_ok_def)
  then have r: "facts_safe H P ?s" "payloads ?s = payloads s" "stored_ids s \<subseteq> stored_ids ?s"
    using reconcile_intent_safe Cons.prems(3) by blast+
  have "outbox_ok H P ?s" using r Cons.prems(1) by (simp add: outbox_ok_def)
  moreover have "snapshot_ok H P v ?s" if "v \<in> set wis" for v
    using snapshot_later [OF Cons.prems(2) r(2,3)] that by simp
  ultimately show ?case using Cons.IH [of ?s] Cons.prems(3) r(2) by simp
qed simp

lemma run_once_ok:
  assumes "outbox_ok H P s" "\<And>i. calls_within P (calls i)"
  shows "outbox_ok H P (run_once H now m calls s) \<and> payloads (run_once H now m calls s) = payloads s"
  unfolding run_once_def
  by (rule reconcile_fold_safe [OF assms(1) _ assms(2)]) (auto simp: get_pending_intents_def intro: pending_snapshot [OF assms(1)])

lemma persister_facts_stored: "facts_stored H P (ids \<union> af_id ` set (map (persister_fact E ch) fds)) fds" if "content_hash E = H"
  using that by (force simp: facts_stored_def list_all_iff persister_fact_def)

lemma payloads_create: "payloads (create_write_intent now i fds es rs ch s) = payloads s @ [(i, fds)]"
  by (simp add: payloads_def create_write_intent_def)

lemma facts_safe_create: "facts_safe H P s \<Longrightarrow> facts_safe H P (create_write_intent now i fds es rs ch s)"
  by (auto simp: facts_safe_def create_write_intent_def stored_ids_def)

lemma payload_of: "distinct (map fst (payloads s)) \<Longrightarrow> (i, fds) \<in> set (payloads s) \<Longrightarrow> w \<in> set (ob_intents s) \<Longrightarrow> wi_id w = i \<Longrightarrow> wi_facts w = fds"
proof -
  assume a: "distinct (map fst (payloads s))" "(i, fds) \<in> set (payloads s)" "w \<in> set (ob_intents s)" "wi_id w = i"
  have "(i, wi_facts w) \<in> set (payloads s)" using a(3,4) by (force simp: payloads_def)
  then show ?thesis using eq_key_imp_eq_value [OF a(1,2)] by simp
qed

lemma persist_ok:
  assumes "outbox_ok (content_hash E) P s" "pr_intent_id r \<notin> fst ` set (payloads s)"
  shows "outbox_ok (content_hash E) P (persist E now r s) \<and> payloads (persist E now r s) = payloads s @ [(pr_intent_id r, pr_facts r)]"
proof -
  let ?H = "content_hash E" and ?i = "pr_intent_id r"
  define s1 where "s1 = create_write_intent now ?i (pr_facts r) (pr_entities r) (pr_relationships r)
    (if pr_channel r \<noteq> [] \<and> pr_channel r \<noteq> ''unknown'' then Some (pr_channel r) else None) s"
  have p1: "payloads s1 = payloads s @ [(?i, pr_facts r)]" and f1: "facts_safe ?H P s1"
    using assms by (simp_all add: s1_def payloads_create facts_safe_create outbox_ok_def)
  have d1: "distinct (map fst (payloads s1))" using assms by (auto simp: p1 outbox_ok_def)
  let ?fs = "map (persister_fact E (pr_channel r)) (pr_facts r)"
  note stored = persister_facts_stored [OF refl, of E P "stored_ids s1" "pr_channel r" "pr_facts r"]
  have own: "wi_facts w = pr_facts r" if "w \<in> set (ob_intents s')" "wi_id w = ?i" "payloads s' = payloads s1" for w s'
    using payload_of [of s' ?i "pr_facts r" w] that d1 p1 by simp
  let ?s2 = "upsert_weaviate E r s1"
  have s2: "facts_safe ?H P ?s2" "payloads ?s2 = payloads s1" "\<not> weaviate_failed r \<Longrightarrow> facts_stored ?H P (stored_ids ?s2) (pr_facts r)"
    using f1 stored own [of _ s1]
    by (auto simp: upsert_weaviate_def weaviate_failed_def facts_stored_def split: upsert_outcome.split
        intro!: facts_safe_marks(2) facts_safe_upserts(1))
  let ?s3 = "upsert_graph E r ?s2"
  have s3: "facts_safe ?H P ?s3" "payloads ?s3 = payloads s1" "stored_ids ?s3 = stored_ids ?s2"
    using s2 by (auto simp: upsert_graph_def Let_def facts_safe_marks(1) facts_safe_upserts)
  have "facts_safe ?H P (mark_intent_complete ?i ?s3)" if "\<not> weaviate_failed r"
    using s3 s2(3) [OF that] own [of _ ?s3] by (intro facts_safe_marks(3)) auto
  moreover have "persist E now r s = (if pr_dies r then ?s3 else if weaviate_failed r then ?s3 else mark_intent_complete ?i ?s3)"
    by (simp add: persist_def s1_def Let_def)
  ultimately show ?thesis using s3 d1 p1 by (auto simp: outbox_ok_def)
qed

lemma outbox_run_ok:
  "outbox_ok (content_hash E) P s \<Longrightarrow> distinct (event_ids evs) \<Longrightarrow> set (event_ids evs) \<inter> fst ` set (payloads s) = {} \<Longrightarrow>
     list_all (event_within P) evs \<Longrightarrow> outbox_ok (content_hash E) P (fold (outbox_step E) evs s)"
proof (induction evs arbitrary: s)
  case (Cons ev evs)
  show ?case
  proof (cases ev)
    case (Persist now r)
    have "outbox_ok (content_hash E) P (persist E now r s) \<and> payloads (persist E now r s) = payloads s @ [(pr_intent_id r, pr_facts r)]"
      using Cons.prems Persist by (intro persist_ok) auto
    then show ?thesis using Cons.IH [of "persist E now r s"] Cons.prems Persist by (auto simp: outbox_step_def)
  next
    case (Reconcile now m calls)
    have "outbox_ok (content_hash E) P (run_once (content_hash E) now m calls s) \<and> payloads (run_once (content_hash E) now m calls s) = payloads s"
      using Cons.prems Reconcile by (intro run_once_ok) (auto simp: event_within_def)
    then show ?thesis using Cons.IH [of "run_once (content_hash E) now m calls s"] Cons.prems Reconcile by (auto simp: outbox_step_def)
  qed
qed simp

section \<open>Progress\<close>

text \<open>No intent of \<open>s'\<close> is pending that was not pending in \<open>s\<close>, and none of the ids \<open>X\<close> is.\<close>

definition settles :: "string set \<Rightarrow> outbox \<Rightarrow> outbox \<Rightarrow> bool" where
  "settles X s s' \<longleftrightarrow> (\<forall>w \<in> set (ob_intents s'). \<exists>u \<in> set (ob_intents s).
     wi_id u = wi_id w \<and> wi_created_at u = wi_created_at w \<and> (intent_pending w \<longrightarrow> intent_pending u \<and> wi_id w \<notin> X))"

lemma settles_trans: "settles X s s' \<Longrightarrow> settles Y s' s'' \<Longrightarrow> settles (X \<union> Y) s s''"
  unfolding settles_def by (metis Un_iff)

lemma settles_same: "ob_intents s' = ob_intents s \<Longrightarrow> settles {} s s'"
  by (auto simp: settles_def)

lemma settles_update:
  assumes "\<And>w. wi_id (f w) = wi_id w \<and> wi_created_at (f w) = wi_created_at w \<and> (intent_pending (f w) \<longrightarrow> intent_pending w \<and> X = {})" "X \<subseteq> {i}"
  shows "settles X s (update_intent i f s)"
  unfolding settles_def
proof
  fix w assume "w \<in> set (ob_intents (update_intent i f s))"
  then obtain u where u: "u \<in> set (ob_intents s)" "w = (if wi_id u = i then f u else u)" by (auto simp: update_intent_def)
  show "\<exists>u \<in> set (ob_intents s). wi_id u = wi_id w \<and> wi_created_at u = wi_created_at w \<and> (intent_pending w \<longrightarrow> intent_pending u \<and> wi_id w \<notin> X)"
    by (rule bexI [OF _ u(1)]) (use u(2) assms(1) [of u] assms(2) in \<open>cases "wi_id u = i"; auto\<close>)
qed

lemma settles_marks:
  "settles {} s (mark_intent_weaviate_done i s)" "settles {} s (mark_intent_neo4j_done i s)" "settles {i} s (mark_intent_complete i s)"
  unfolding mark_defs by (rule settles_update; simp add: intent_pending_def)+

lemma settles_half: "settles {} s (half_replayed H c wi s)"
  using settles_trans [OF settles_same settles_marks(1), of "batch_upsert_facts (replayed H c wi) s" s "wi_id wi"]
  by (auto simp: half_replayed_def settles_same)

lemma settles_reconcile:
  assumes "rc_weaviate_ok c \<and> rc_entities_ok c \<and> rc_relationships_ok c"
  shows "settles {wi_id wi} s (snd (reconcile_intent H c wi s))"
proof (cases rule: reconcile_intent_cases [of H c wi s])
  case (3 s')
  let ?h = "half_replayed H c wi s"
  have "settles {} ?h (mark_intent_neo4j_done (wi_id wi) (batch_upsert_relationships rs (batch_upsert_entities es ?h)))" for es rs
    using settles_trans [OF settles_same settles_marks(2), of "batch_upsert_relationships rs (batch_upsert_entities es ?h)" ?h "wi_id wi"] by simp
  then have "settles {} ?h s'" using 3(2) by (auto simp: settles_same)
  from settles_trans [OF settles_trans [OF settles_half this] settles_marks(3)] 3(1) show ?thesis by simp
qed (use assms in auto)

lemma settles_fold:
  assumes "\<And>i. rc_weaviate_ok (calls i) \<and> rc_entities_ok (calls i) \<and> rc_relationships_ok (calls i)"
  shows "settles (wi_id ` set wis) s (fold (\<lambda>wi s. snd (reconcile_intent H (calls (wi_id wi)) wi s)) wis s)"
proof (induction wis arbitrary: s)
  case (Cons wi wis)
  show ?case
    using settles_trans [OF settles_reconcile Cons.IH, of "calls (wi_id wi)" wi s H] assms by simp
qed (simp add: settles_same)

section \<open>Properties\<close>

text \<open>
  Property C26. No extracted fact is lost between the outbox and the vector store: in any sequence of persisted
  batches (with fresh intent ids) and runs of the reconciler, whichever calls of the stores fail and
  wherever the persister dies, an intent is marked as written to the vector store only when the store
  holds each of its facts under its content id; the exception are facts of channels that were being
  purged.
\<close>

theorem marked_facts_are_stored:
  assumes "distinct (event_ids evs)" "list_all (event_within P) evs"
    "w \<in> set (ob_intents (fold (outbox_step E) evs empty_outbox))" "weaviate_done w"
    "fd \<in> set (wi_facts w)" "\<not> in_channels (fr_channel fd) P"
  shows "deterministic_id (content_hash E) (fr_text fd) (fr_tags fd) \<in> dom (map_of (ob_weaviate (fold (outbox_step E) evs empty_outbox)))"
proof -
  have "outbox_ok (content_hash E) P empty_outbox"
    by (simp add: outbox_ok_def facts_safe_def empty_outbox_def payloads_def)
  from outbox_run_ok [OF this assms(1) _ assms(2)]
  have "facts_safe (content_hash E) P (fold (outbox_step E) evs empty_outbox)"
    by (simp add: outbox_ok_def empty_outbox_def payloads_def)
  then have "facts_stored (content_hash E) P (stored_ids (fold (outbox_step E) evs empty_outbox)) (wi_facts w)"
    using assms(3,4) by (simp add: facts_safe_def)
  then have "in_channels (fr_channel fd) P \<or>
      deterministic_id (content_hash E) (fr_text fd) (fr_tags fd) \<in> stored_ids (fold (outbox_step E) evs empty_outbox)"
    using assms(5) unfolding facts_stored_def list_all_iff by blast
  then show ?thesis using assms(6) by (simp only: stored_ids_def simp_thms)
qed

definition toy_fact :: fact_row where
  "toy_fact = \<lparr>fr_channel = None, fr_text = ''Redis is used'', fr_tags = [''Redis''], fr_body = []\<rparr>"

definition toy_entity_row :: entity_row where
  "toy_entity_row = \<lparr>er_channel = None, er_name = ''Redis'', er_body = []\<rparr>"

definition toy_run :: "upsert_outcome \<Rightarrow> upsert_outcome \<Rightarrow> persist_run" where
  "toy_run w g = \<lparr>pr_intent_id = ''i1'', pr_channel = ''C1'', pr_facts = [toy_fact], pr_entities = [toy_entity_row], pr_relationships = [],
     pr_skip_graph = False, pr_weaviate = w, pr_graph = g, pr_dies = False\<rparr>"

definition toy_persist_env :: persist_env where
  "toy_persist_env = \<lparr>content_hash = (\<lambda>t. t), enrich_fact = fr_body, normalize_rels = (\<lambda>rs. rs)\<rparr>"

definition toy_calls :: "string \<Rightarrow> reconcile_calls" where
  "toy_calls i = \<lparr>rc_purging = Some [''C2''], rc_weaviate_ok = True, rc_entities_ok = True, rc_relationships_ok = True\<rparr>"

theorem marked_facts_are_stored_witness:
  "map_of (ob_weaviate (fold (outbox_step toy_persist_env) [Persist 0 (toy_run Store_raises Upsert_ok), Reconcile 2000 15 toy_calls] empty_outbox))
     (deterministic_id (\<lambda>t. t) ''Redis is used'' [''Redis'']) \<noteq> None"
proof -
  let ?evs = "[Persist 0 (toy_run Store_raises Upsert_ok), Reconcile 2000 15 toy_calls]"
  let ?s = "fold (outbox_step toy_persist_env) ?evs empty_outbox"
  have h: "distinct (event_ids ?evs)" "list_all (event_within {''C2''}) ?evs"
    by (simp_all add: event_within_def calls_within_def toy_calls_def)
  have i: "map weaviate_done (ob_intents ?s) = [True]" "map wi_facts (ob_intents ?s) = [[toy_fact]]" by code_simp+
  then have m: "hd (ob_intents ?s) \<in> set (ob_intents ?s)" "weaviate_done (hd (ob_intents ?s))" "toy_fact \<in> set (wi_facts (hd (ob_intents ?s)))"
    by (cases "ob_intents ?s"; simp)+
  have f: "\<not> in_channels (fr_channel toy_fact) {''C2''}" by (simp add: toy_fact_def in_channels_def)
  from marked_facts_are_stored [OF h m f] show ?thesis by (simp add: domIff toy_fact_def toy_persist_env_def)
qed



text \<open>
  The content id separates facts as far as the hash does: on texts and tags without null characters
  and without empty tags, two facts have the same key if and only if they have the same text and the
  same tags up to order.
\<close>

theorem content_key_exact:
  assumes "nul \<notin> set t" "nul \<notin> set t'" "list_all (\<lambda>w. nul \<notin> set w \<and> w \<noteq> []) xs" "list_all (\<lambda>w. nul \<notin> set w \<and> w \<noteq> []) ys"
  shows "content_key t xs = content_key t' ys \<longleftrightarrow> t = t' \<and> mset xs = mset ys"
proof
  assume "content_key t xs = content_key t' ys"
  then have eq: "t = t'" "py_join [nul] (sort xs) = py_join [nul] (sort ys)"
    using nul_split [OF assms(1,2)] by (auto simp: content_key_def)
  have "sort xs = sort ys"
    by (rule py_join_nul_inj [OF _ _ eq(2)]) (use assms(3,4) in \<open>auto simp: list_all_iff\<close>)
  then show "t = t' \<and> mset xs = mset ys" using eq(1) by (metis mset_sort)
next
  assume "t = t' \<and> mset xs = mset ys"
  then show "content_key t xs = content_key t' ys" by (auto intro: content_key_perm)
qed

theorem content_key_exact_witness:
  "content_key ''a'' [''x'', ''y''] = content_key ''a'' [''y'', ''x''] \<and> content_key ''a'' [''x''] \<noteq> content_key ''a'' [''x'', ''x'']"
proof -
  have h: "nul \<notin> set ''a''" "list_all (\<lambda>w. nul \<notin> set w \<and> w \<noteq> []) [''x'', ''y'']" "list_all (\<lambda>w. nul \<notin> set w \<and> w \<noteq> []) [''y'', ''x'']"
    "list_all (\<lambda>w. nul \<notin> set w \<and> w \<noteq> []) [''x'']" "list_all (\<lambda>w. nul \<notin> set w \<and> w \<noteq> []) [''x'', ''x'']" by simp_all
  show ?thesis using content_key_exact [OF h(1) h(1) h(2,3)] content_key_exact [OF h(1) h(1) h(4,5)] by simp
qed

text \<open>
  A graph write that fails is forgotten: the persister marks the intent complete when the vector
  store succeeded, so the reconciler never retries the entities of the batch.
\<close>

theorem graph_failure_forgotten:
  "let s = persist toy_persist_env 0 (toy_run Upsert_ok Store_raises) empty_outbox in
     ob_entities s = [] \<and> map neo4j_done (ob_intents s) = [True] \<and> get_pending_intents 2000 15 s = []"
  by code_simp

text \<open>
  A replayed fact loses its channel: the stored rows carry none, and the reconciler does not look at the intent's.
\<close>

theorem replayed_fact_loses_channel:
  "let s = persist toy_persist_env 0 (toy_run Store_raises Upsert_ok) empty_outbox in
     map wi_channel (ob_intents s) = [Some ''C1''] \<and>
     map (\<lambda>e. af_channel (snd e)) (ob_weaviate (run_once (\<lambda>t. t) 2000 15 toy_calls s)) = [[]]"
  by code_simp

end
