(* ===== verification/Push_Sources.thy ===== *)
theory Push_Sources
  imports Extraction_Queue Loader_Token Interleaving
begin

text \<open>
  Push sources: the signature check of \<^verbatim>\<open>services/push_hmac.py\<close>, the ingest endpoint of
  \<^verbatim>\<open>api/sources.py\<close>, the registry and the replay cache of \<^verbatim>\<open>stores/mongodb_store.py\<close> and the
  registry endpoints of \<^verbatim>\<open>api/admin.py\<close>. A request is a task of atomic database calls, so that
  requests interleave; the parsing of a request body into its fields (\<^verbatim>\<open>json.loads\<close> and the
  coercions of the model class), SHA-256 and HMAC-SHA256 are parameters, and no property needs a law
  of them. The limits the model class declares are checked here. The rate limiter in front of the
  endpoint is a library and left out.
\<close>

section \<open>Standard library\<close>

text \<open>\<^verbatim>\<open>bytes.fromhex\<close>: ASCII whitespace may stand between the bytes.\<close>

definition ascii_space :: "char \<Rightarrow> bool" where
  "ascii_space c \<longleftrightarrow> c = CHR '' '' \<or> 9 \<le> ord c \<and> ord c \<le> 13"

fun fromhex :: "string \<Rightarrow> string option" where
  "fromhex [] = Some []"
| "fromhex (c # r) =
     (if ascii_space c then fromhex r
      else case r of
        [] \<Rightarrow> None
      | d # r' \<Rightarrow>
          (case (hex_value c, hex_value d) of
             (Some h, Some l) \<Rightarrow> map_option (Cons (char_of (16 * h + l))) (fromhex r')
           | _ \<Rightarrow> None))"

definition hexdigest :: "string \<Rightarrow> string" where
  "hexdigest bs = concat (map (\<lambda>b. [hex_digit (ord b div 16), hex_digit (ord b mod 16)]) bs)"

text \<open>\<^verbatim>\<open>s.partition("=")\<close>.\<close>

definition partition_eq :: "string \<Rightarrow> string \<times> string" where
  "partition_eq s = (takeWhile (\<lambda>c. c \<noteq> CHR ''='') s, drop 1 (dropWhile (\<lambda>c. c \<noteq> CHR ''='') s))"

text \<open>
  \<^verbatim>\<open>fnmatch\<close>: \<^verbatim>\<open>*\<close>, \<^verbatim>\<open>?\<close> and character classes. A class ends at the first closing bracket that
  does not open it; without one the bracket is literal. An empty range contributes nothing.
\<close>

fun class_has :: "string \<Rightarrow> char \<Rightarrow> bool" where
  "class_has (a # m # b # r) c = (if m = CHR ''-'' then ord a \<le> ord c \<and> ord c \<le> ord b \<or> class_has r c else c = a \<or> class_has (m # b # r) c)"
| "class_has (a # r) c = (c = a \<or> class_has r c)"
| "class_has [] c = False"

definition split_class :: "string \<Rightarrow> (bool \<times> string \<times> string) option" where
  "split_class p =
     (let neg = (take 1 p = ''!'');
          p1 = (if neg then drop 1 p else p);
          first = (if take 1 p1 = '']'' then 1 else 0);
          body = takeWhile (\<lambda>c. c \<noteq> CHR '']'') (drop first p1);
          n = first + length body
      in if n < length p1 then Some (neg, take n p1, drop (Suc n) p1) else None)"

lemma split_class_shrinks: "split_class p = Some (neg, body, rest) \<Longrightarrow> length rest < Suc (length p)"
  by (auto simp: split_class_def Let_def split: if_splits)

function fnmatch :: "string \<Rightarrow> string \<Rightarrow> bool" where
  "fnmatch s [] = (s = [])"
| "fnmatch s (p # ps) =
     (if p = CHR ''*'' then fnmatch s ps \<or> (case s of [] \<Rightarrow> False | c # cs \<Rightarrow> fnmatch cs (p # ps))
      else case s of
        [] \<Rightarrow> False
      | c # cs \<Rightarrow>
          if p = CHR ''?'' then fnmatch cs ps
          else if p = CHR ''['' then
            (case split_class ps of
               None \<Rightarrow> c = p \<and> fnmatch cs ps
             | Some (neg, body, rest) \<Rightarrow> class_has body c \<noteq> neg \<and> fnmatch cs rest)
          else c = p \<and> fnmatch cs ps)"
  by pat_completeness auto

termination fnmatch
  by (relation "measure (\<lambda>(s, p). length s + length p)") (auto dest: split_class_shrinks)

section \<open>Signatures\<close>

record push_env =
  push_hmac :: "string \<Rightarrow> string \<Rightarrow> string"
  push_sha256 :: "string \<Rightarrow> string"

definition DEFAULT_SKEW_SECONDS :: int where
  "DEFAULT_SKEW_SECONDS = 300"

record HMACVerifyResult =
  hv_ok :: bool
  hv_reason :: "string option"

text \<open>\<^verbatim>\<open>int(v)\<close> refuses more digits than the interpreter's limit.\<close>

definition INT_MAX_STR_DIGITS :: int where
  "INT_MAX_STR_DIGITS = 4300"

definition int_of_text :: "string \<Rightarrow> int option" where
  "int_of_text v = (if INT_MAX_STR_DIGITS < int (length (filter py_isdigit v)) then None else py_parse_int v)"

fun parse_signature_parts :: "string list \<Rightarrow> int option \<Rightarrow> string option \<Rightarrow> int option \<times> string option" where
  "parse_signature_parts [] ts sig = (ts, sig)"
| "parse_signature_parts (part # parts) ts sig =
     (if CHR ''='' \<notin> set part then parse_signature_parts parts ts sig
      else
        let (k, v) = map_prod py_strip py_strip (partition_eq (py_strip part)) in
        if k = ''t'' then
          (case int_of_text v of None \<Rightarrow> (None, None) | Some n \<Rightarrow> parse_signature_parts parts (Some n) sig)
        else if k = ''v1'' then parse_signature_parts parts ts (Some v)
        else parse_signature_parts parts ts sig)"

definition parse_signature_header :: "string \<Rightarrow> int option \<times> string option" where
  "parse_signature_header header =
     (if header = [] then (None, None) else parse_signature_parts (py_split_char (CHR '','') header) None None)"

definition signed_message :: "int \<Rightarrow> string \<Rightarrow> string" where
  "signed_message ts body = py_str_int ts @ ''.'' @ body"

abbreviation verify_failed :: "string \<Rightarrow> HMACVerifyResult" where
  "verify_failed why \<equiv> \<lparr>hv_ok = False, hv_reason = Some why\<rparr>"

definition verify_push_signature :: "push_env \<Rightarrow> int \<Rightarrow> string \<Rightarrow> string \<Rightarrow> string \<Rightarrow> HMACVerifyResult" where
  "verify_push_signature E now_unix signature_header body secret =
     (if signature_header = [] then verify_failed ''missing_header''
      else if secret = [] then verify_failed ''missing_secret''
      else case parse_signature_header signature_header of
        (Some ts, Some sig) \<Rightarrow>
          if DEFAULT_SKEW_SECONDS < \<bar>now_unix - ts\<bar> then verify_failed ''skew_exceeded''
          else (case fromhex sig of
             None \<Rightarrow> verify_failed ''malformed_signature''
           | Some provided \<Rightarrow>
               if push_hmac E secret (signed_message ts body) \<noteq> provided then verify_failed ''signature_mismatch''
               else \<lparr>hv_ok = True, hv_reason = None\<rparr>)
      | _ \<Rightarrow> verify_failed ''malformed_header'')"

definition hash_secret :: "push_env \<Rightarrow> string \<Rightarrow> string" where
  "hash_secret E secret = hexdigest (push_sha256 E secret)"

definition secrets_equal :: "push_env \<Rightarrow> string \<Rightarrow> string \<Rightarrow> bool" where
  "secrets_equal E provided stored_hash \<longleftrightarrow> hash_secret E provided = stored_hash"

text \<open>What the documented client sends.\<close>

definition signature_header :: "push_env \<Rightarrow> int \<Rightarrow> string \<Rightarrow> string \<Rightarrow> string" where
  "signature_header E ts secret body = ''t='' @ py_str_int ts @ '',v1='' @ hexdigest (push_hmac E secret (signed_message ts body))"

section \<open>Registry and replay cache\<close>

record ExternalSource =
  es_source_id :: string
  es_secret :: string
  es_secret_fingerprint :: string
  es_allowed_channels_pattern :: string
  es_description :: string
  es_created_at :: seconds
  es_rotated_at :: "seconds option"

record PushEventResponse =
  pr_accepted :: nat
  pr_deduplicated :: nat
  pr_channel_id :: string
  pr_extraction :: string

record idempotency_record =
  ir_source_id :: string
  ir_key :: string
  ir_response :: PushEventResponse
  ir_created_at :: seconds

record push_store =
  px_sources :: "ExternalSource list"
  px_replays :: "idempotency_record list"
  px_queue :: queue

definition get_external_source :: "string \<Rightarrow> push_store \<Rightarrow> ExternalSource option" where
  "get_external_source source_id s = List.find (\<lambda>x. es_source_id x = source_id) (px_sources s)"

text \<open>The document is written whole; one that exists is marked as rotated.\<close>

definition upsert_external_source :: "push_env \<Rightarrow> seconds \<Rightarrow> ExternalSource \<Rightarrow> push_store \<Rightarrow> push_store" where
  "upsert_external_source E now source s =
     (let doc = source\<lparr>es_secret_fingerprint := hash_secret E (es_secret source)\<rparr> in
      case get_external_source (es_source_id source) s of
        None \<Rightarrow> s\<lparr>px_sources := px_sources s @ [doc]\<rparr>
      | Some _ \<Rightarrow>
          s\<lparr>px_sources := map (\<lambda>x. if es_source_id x = es_source_id source then doc\<lparr>es_rotated_at := Some now\<rparr> else x) (px_sources s)\<rparr>)"

definition delete_external_source :: "string \<Rightarrow> push_store \<Rightarrow> bool \<times> push_store" where
  "delete_external_source source_id s =
     (get_external_source source_id s \<noteq> None, s\<lparr>px_sources := filter (\<lambda>x. es_source_id x \<noteq> source_id) (px_sources s)\<rparr>)"

definition list_external_sources :: "push_store \<Rightarrow> ExternalSource list" where
  "list_external_sources s = sort_key es_source_id (px_sources s)"

definition count_idempotency_replays_for_source :: "string \<Rightarrow> push_store \<Rightarrow> nat" where
  "count_idempotency_replays_for_source source_id s = length (filter (\<lambda>r. ir_source_id r = source_id) (px_replays s))"

definition get_idempotency_record :: "string \<Rightarrow> string \<Rightarrow> push_store \<Rightarrow> idempotency_record option" where
  "get_idempotency_record source_id key s = List.find (\<lambda>r. ir_source_id r = source_id \<and> ir_key r = key) (px_replays s)"

text \<open>The compound unique index refuses a second reservation.\<close>

definition reserve_idempotency_record :: "seconds \<Rightarrow> string \<Rightarrow> string \<Rightarrow> PushEventResponse \<Rightarrow> push_store \<Rightarrow> bool \<times> push_store" where
  "reserve_idempotency_record now source_id key response s =
     (if get_idempotency_record source_id key s \<noteq> None then (False, s)
      else (True, s\<lparr>px_replays := px_replays s @ [\<lparr>ir_source_id = source_id, ir_key = key, ir_response = response, ir_created_at = now\<rparr>]\<rparr>))"

text \<open>The TTL index of the collection drops records once they are a day old.\<close>

definition IDEMPOTENCY_TTL_SECONDS :: seconds where
  "IDEMPOTENCY_TTL_SECONDS = 86400"

definition expire_replays :: "seconds \<Rightarrow> push_store \<Rightarrow> push_store" where
  "expire_replays now s = s\<lparr>px_replays := filter (\<lambda>r. now - ir_created_at r < IDEMPOTENCY_TTL_SECONDS) (px_replays s)\<rparr>"

section \<open>The endpoint\<close>

record PushEvent =
  pv_message_id :: string
  pv_timestamp :: string
  pv_author :: string
  pv_author_name :: string
  pv_author_image :: string
  pv_content :: string
  pv_thread_id :: "string option"
  pv_attachments :: "json list"
  pv_reactions :: "json list"
  pv_reply_count :: int
  pv_is_bot :: bool
  pv_raw_metadata :: "(string \<times> json) list"

record PushEventRequest =
  pq_channel_id :: string
  pq_channel_name :: string
  pq_events :: "PushEvent list"

definition event_in_limits :: "PushEvent \<Rightarrow> bool" where
  "event_in_limits ev \<longleftrightarrow>
     int (length (pv_message_id ev)) \<le> 512 \<and> int (length (pv_author ev)) \<le> 256 \<and> int (length (pv_author_name ev)) \<le> 256 \<and>
     int (length (pv_author_image ev)) \<le> 2048 \<and> int (length (pv_content ev)) \<le> 100000 \<and>
     (case pv_thread_id ev of None \<Rightarrow> True | Some t \<Rightarrow> int (length t) \<le> 512) \<and>
     int (length (pv_attachments ev)) \<le> 64 \<and> int (length (pv_reactions ev)) \<le> 128 \<and>
     0 \<le> pv_reply_count ev \<and> pv_reply_count ev \<le> 100000"

definition request_in_limits :: "PushEventRequest \<Rightarrow> bool" where
  "request_in_limits p \<longleftrightarrow>
     int (length (pq_channel_id p)) \<le> 512 \<and> int (length (pq_channel_name p)) \<le> 512 \<and> int (length (pq_events p)) \<le> 1000 \<and>
     list_all event_in_limits (pq_events p)"

definition MAX_BODY_BYTES :: int where
  "MAX_BODY_BYTES = 10000000"

text \<open>The body arrives in chunks; \<^const>\<open>None\<close> when they outgrow the cap.\<close>

fun read_body :: "string \<Rightarrow> string list \<Rightarrow> string option" where
  "read_body buf [] = Some buf"
| "read_body buf (chunk # chunks) =
     (let buf' = buf @ chunk in if MAX_BODY_BYTES < int (length buf') then None else read_body buf' chunks)"

definition channel_allowed :: "ExternalSource \<Rightarrow> string \<Rightarrow> bool" where
  "channel_allowed source channel_id =
     (let pattern = (if es_allowed_channels_pattern source = [] then ''*'' else es_allowed_channels_pattern source)
      in pattern = ''*'' \<or> fnmatch channel_id pattern)"

definition push_row :: "seconds \<Rightarrow> string \<Rightarrow> PushEventRequest \<Rightarrow> PushEvent \<Rightarrow> ChannelMessage" where
  "push_row now source_id p ev =
     \<lparr>cm_source_id = source_id, cm_channel_id = pq_channel_id p, cm_message_id = pv_message_id ev,
      cm_fields =
        [(''guild_id'', JStr []),
         (''channel_name'', JStr (if pq_channel_name p = [] then pq_channel_id p else pq_channel_name p)),
         (''timestamp'', JStr (pv_timestamp ev)), (''author'', JStr (pv_author ev)), (''author_name'', JStr (pv_author_name ev)),
         (''author_image'', JStr (pv_author_image ev)), (''content'', JStr (pv_content ev)),
         (''thread_id'', case pv_thread_id ev of None \<Rightarrow> JNull | Some t \<Rightarrow> JStr t),
         (''attachments'', JList (pv_attachments ev)), (''reactions'', JList (pv_reactions ev)),
         (''reply_count'', JInt (pv_reply_count ev)), (''is_bot'', JBool (pv_is_bot ev)), (''links'', JList []),
         (''raw_metadata'', JObj (pv_raw_metadata ev))],
      extraction_status = Pending, attempt_count = 0, next_attempt_at = now, last_error = None,
      cm_created_at = now, cm_updated_at = now\<rparr>"

definition push_rows :: "seconds \<Rightarrow> string \<Rightarrow> PushEventRequest \<Rightarrow> ChannelMessage list" where
  "push_rows now source_id p = map (push_row now source_id p) (pq_events p)"

record push_request =
  rq_source_id :: string
  rq_chunks :: "string list"
  rq_signature :: "string option"
  rq_idempotency_key :: "string option"

definition replay_key :: "push_request \<Rightarrow> string option" where
  "replay_key rq = (case rq_idempotency_key rq of None \<Rightarrow> None | Some k \<Rightarrow> if k = [] then None else Some k)"

text \<open>Where a request stands between two calls of the database, and how it ended.\<close>

datatype push_point =
    Find_source
  | Find_replay ExternalSource string
  | Store_rows PushEventRequest
  | Reserve PushEventResponse
  | Refused_push nat
  | Accepted PushEventResponse

definition push_validate :: "(string \<Rightarrow> PushEventRequest option) \<Rightarrow> ExternalSource \<Rightarrow> string \<Rightarrow> push_point" where
  "push_validate parse source body =
     (case parse body of
        None \<Rightarrow> Refused_push 400
      | Some p \<Rightarrow>
          if \<not> request_in_limits p then Refused_push 400
          else if \<not> channel_allowed source (pq_channel_id p) then Refused_push 403
          else Store_rows p)"

definition push_authenticate ::
    "push_env \<Rightarrow> (string \<Rightarrow> PushEventRequest option) \<Rightarrow> int \<Rightarrow> push_request \<Rightarrow> string \<Rightarrow> ExternalSource option \<Rightarrow> push_point" where
  "push_authenticate E parse now_unix rq body found =
     (case found of
        None \<Rightarrow> Refused_push 401
      | Some source \<Rightarrow>
          if \<not> hv_ok (verify_push_signature E now_unix (case rq_signature rq of None \<Rightarrow> [] | Some h \<Rightarrow> h) body (es_secret source)) then Refused_push 401
          else if replay_key rq \<noteq> None then Find_replay source body
          else push_validate parse source body)"

definition push_respond :: "PushEventRequest \<Rightarrow> upsert_counts \<Rightarrow> PushEventResponse" where
  "push_respond p c = \<lparr>pr_accepted = ur_inserted c, pr_deduplicated = ur_matched c, pr_channel_id = pq_channel_id p, pr_extraction = ''queued''\<rparr>"

text \<open>One database call of a request, with the clock at that moment.\<close>

fun push_step ::
    "push_env \<Rightarrow> (string \<Rightarrow> PushEventRequest option) \<Rightarrow> seconds \<Rightarrow> push_request \<Rightarrow> push_point \<Rightarrow> push_store \<Rightarrow> push_point \<times> push_store" where
  "push_step E parse now rq Find_source s =
     ((case read_body [] (rq_chunks rq) of
         None \<Rightarrow> Refused_push 413
       | Some body \<Rightarrow> push_authenticate E parse (py_int now) rq body (get_external_source (rq_source_id rq) s)), s)"
| "push_step E parse now rq (Find_replay source body) s =
     ((case get_idempotency_record (rq_source_id rq) (the (replay_key rq)) s of
         Some r \<Rightarrow> Accepted (ir_response r)
       | None \<Rightarrow> push_validate parse source body), s)"
| "push_step E parse now rq (Store_rows p) s =
     (let rows = push_rows now (rq_source_id rq) p;
          response = push_respond p (upsert_outcome now rows (px_queue s))
      in (if replay_key rq = None then Accepted response else Reserve response,
          s\<lparr>px_queue := upsert_channel_messages now rows (px_queue s)\<rparr>))"
| "push_step E parse now rq (Reserve response) s =
     (Accepted response, snd (reserve_idempotency_record now (rq_source_id rq) (the (replay_key rq)) response s))"
| "push_step E parse now rq p s = (p, s)"

text \<open>A request that nothing disturbs takes at most four calls.\<close>

definition post_source_events ::
    "push_env \<Rightarrow> (string \<Rightarrow> PushEventRequest option) \<Rightarrow> seconds \<Rightarrow> push_request \<Rightarrow> push_store \<Rightarrow> push_point \<times> push_store" where
  "post_source_events E parse now rq s = ((\<lambda>(p, s). push_step E parse now rq p s) ^^ 4) (Find_source, s)"

section \<open>Registry endpoints\<close>

text \<open>The generated secret is an argument. \<^const>\<open>Inl\<close> carries the HTTP status.\<close>

record CreateSourceResponse =
  sr_source_id :: string
  sr_secret :: string
  sr_secret_fingerprint :: string
  sr_rotated_at :: "seconds option"

record SourceListItem =
  sl_source_id :: string
  sl_allowed_channels_pattern :: string
  sl_description :: string
  sl_secret_fingerprint :: string
  sl_created_at :: seconds
  sl_rotated_at :: "seconds option"
  sl_idempotency_replay_count_24h :: nat

definition to_list_item :: "ExternalSource \<Rightarrow> nat \<Rightarrow> SourceListItem" where
  "to_list_item x replay_count =
     \<lparr>sl_source_id = es_source_id x, sl_allowed_channels_pattern = es_allowed_channels_pattern x, sl_description = es_description x,
      sl_secret_fingerprint = es_secret_fingerprint x, sl_created_at = es_created_at x, sl_rotated_at = es_rotated_at x,
      sl_idempotency_replay_count_24h = replay_count\<rparr>"

definition list_sources :: "push_store \<Rightarrow> SourceListItem list" where
  "list_sources s = map (\<lambda>x. to_list_item x (count_idempotency_replays_for_source (es_source_id x) s)) (list_external_sources s)"

definition create_source ::
    "push_env \<Rightarrow> seconds \<Rightarrow> string \<Rightarrow> string \<Rightarrow> string \<Rightarrow> string \<Rightarrow> push_store \<Rightarrow> (nat + CreateSourceResponse) \<times> push_store" where
  "create_source E now plain_secret source_id pattern description s =
     (if get_external_source source_id s \<noteq> None then (Inl 409, s)
      else
        let source = \<lparr>es_source_id = source_id, es_secret = plain_secret, es_secret_fingerprint = [], es_allowed_channels_pattern = pattern,
              es_description = description, es_created_at = now, es_rotated_at = None\<rparr>;
            s' = upsert_external_source E now source s
        in (Inr \<lparr>sr_source_id = source_id, sr_secret = plain_secret,
              sr_secret_fingerprint = (case get_external_source source_id s' of Some x \<Rightarrow> es_secret_fingerprint x | None \<Rightarrow> []),
              sr_rotated_at = None\<rparr>, s'))"

definition rotate_source_secret :: "push_env \<Rightarrow> seconds \<Rightarrow> string \<Rightarrow> string \<Rightarrow> push_store \<Rightarrow> (nat + CreateSourceResponse) \<times> push_store" where
  "rotate_source_secret E now new_secret source_id s =
     (case get_external_source source_id s of
        None \<Rightarrow> (Inl 404, s)
      | Some existing \<Rightarrow>
          let rotated = \<lparr>es_source_id = source_id, es_secret = new_secret, es_secret_fingerprint = [],
                es_allowed_channels_pattern = es_allowed_channels_pattern existing, es_description = es_description existing,
                es_created_at = es_created_at existing, es_rotated_at = None\<rparr>;
              s' = upsert_external_source E now rotated s;
              persisted = get_external_source source_id s'
          in (Inr \<lparr>sr_source_id = source_id, sr_secret = new_secret,
                sr_secret_fingerprint = (case persisted of Some x \<Rightarrow> es_secret_fingerprint x | None \<Rightarrow> []),
                sr_rotated_at = (case persisted of Some x \<Rightarrow> es_rotated_at x | None \<Rightarrow> None)\<rparr>, s'))"

definition delete_source :: "string \<Rightarrow> push_store \<Rightarrow> nat \<times> push_store" where
  "delete_source source_id s = (let (deleted, s') = delete_external_source source_id s in (if deleted then 204 else 404, s'))"

section \<open>The header a client sends\<close>

definition hex_text :: "string \<Rightarrow> bool" where
  "hex_text s \<longleftrightarrow> list_all (\<lambda>c. hex_value c \<noteq> None) s"

lemma hex_value_char: "hex_value c \<noteq> None \<Longrightarrow> c \<noteq> CHR '','' \<and> c \<noteq> CHR ''='' \<and> \<not> py_isspace c \<and> \<not> ascii_space c"
  by (auto simp: hex_value_def py_isspace_def ascii_space_def Let_def split: if_splits)

lemma hexdigest_text: "hex_text (hexdigest bs)"
proof -
  have "ord b div 16 < 16" for b :: char by (rule less_mult_imp_div_less) simp
  then show ?thesis by (induction bs) (auto simp: hex_text_def hexdigest_def hex_value_digit)
qed

lemma fromhex_hexdigest: "fromhex (hexdigest bs) = Some bs"
proof (induction bs)
  case (Cons b bs)
  have d: "ord b div 16 < 16" by (rule less_mult_imp_div_less) simp
  have "char_of (16 * (ord b div 16) + ord b mod 16) = b" by (simp only: mult_div_mod_eq char_of_char)
  moreover have "\<not> ascii_space (hex_digit (ord b div 16))"
    using hex_value_char [of "hex_digit (ord b div 16)"] hex_value_digit [OF d] by simp
  moreover have "hexdigest (b # bs) = hex_digit (ord b div 16) # hex_digit (ord b mod 16) # hexdigest bs"
    by (simp add: hexdigest_def)
  ultimately show ?case using Cons d by (simp add: hex_value_digit)
qed (simp add: hexdigest_def)

lemma int_text_chars: "c \<in> set (py_str_int ts) \<Longrightarrow> py_isdigit c \<or> c = CHR ''-''"
  using nat_digits_shape by (auto simp: py_str_int_def split: if_splits)

lemma digit_not_space: "py_isdigit c \<or> c = CHR ''-'' \<Longrightarrow> \<not> py_isspace c \<and> c \<noteq> CHR '','' \<and> c \<noteq> CHR ''=''"
  by (auto simp: py_isdigit_def py_isspace_def Let_def)

lemma no_space_strip: "\<forall>c \<in> set s. \<not> py_isspace c \<Longrightarrow> py_strip s = s"
  by (rule py_strip_clean) (cases s, auto)

lemma int_text_parses: "py_parse_int (py_str_int ts) = Some ts"
proof -
  have st: "py_strip (py_str_int ts) = py_str_int ts"
    using int_text_chars digit_not_space by (intro no_space_strip) blast
  show ?thesis
  proof (cases "ts < 0")
    case True
    then show ?thesis using st nat_digits_value [of "nat (- ts)"] by (simp add: py_parse_int_def py_str_int_def)
  next
    case False
    obtain c cs where c: "nat_digits (nat ts) = c # cs" "py_isdigit c"
      using nat_digits_shape [of "nat ts"] by (cases "nat_digits (nat ts)") auto
    then have "c \<noteq> CHR ''-'' \<and> c \<noteq> CHR ''+''" by (auto simp: py_isdigit_def)
    then show ?thesis using False st c nat_digits_value [of "nat ts"] by (simp add: py_parse_int_def py_str_int_def)
  qed
qed

lemma signature_header_parses:
  assumes "int (length (py_str_int ts)) \<le> INT_MAX_STR_DIGITS" "hex_text hex"
  shows "parse_signature_header (''t='' @ py_str_int ts @ '',v1='' @ hex) = (Some ts, Some hex)"
proof -
  let ?t = "''t='' @ py_str_int ts" and ?v = "''v1='' @ hex"
  have tc: "\<forall>c \<in> set (py_str_int ts). \<not> py_isspace c \<and> c \<noteq> CHR '','' \<and> c \<noteq> CHR ''=''"
    using int_text_chars digit_not_space by blast
  have hc: "\<forall>c \<in> set hex. \<not> py_isspace c \<and> c \<noteq> CHR '','' \<and> c \<noteq> CHR ''=''"
    using assms(2) hex_value_char by (auto simp: hex_text_def list_all_iff)
  have c: "CHR '','' \<notin> set ?t" "CHR '','' \<notin> set ?v" using tc hc by auto
  have sp: "py_split_char (CHR '','') (?t @ CHR '','' # ?v) = [?t, ?v]"
    unfolding split_char_append [OF c(1)] split_char_none [OF c(2)] ..
  have k: "\<not> py_isspace (CHR ''t'')" "\<not> py_isspace (CHR ''v'')" "\<not> py_isspace (CHR ''1'')" "\<not> py_isspace (CHR ''='')" by code_simp+
  have "py_strip ?t = ?t" by (rule no_space_strip) (use tc k in simp)
  moreover have "py_strip ?v = ?v" by (rule no_space_strip) (use hc k in simp)
  moreover have "py_strip (py_str_int ts) = py_str_int ts" "py_strip hex = hex" using tc hc by (auto intro: no_space_strip)
  moreover have "py_strip ''t'' = ''t''" "py_strip ''v1'' = ''v1''" by code_simp+
  moreover have "partition_eq ?t = (''t'', py_str_int ts)" "partition_eq ?v = (''v1'', hex)" by (simp_all add: partition_eq_def)
  moreover have "int_of_text (py_str_int ts) = Some ts"
  proof -
    have "int (length (filter py_isdigit (py_str_int ts))) \<le> INT_MAX_STR_DIGITS" by (rule order_trans [OF _ assms(1)]) simp
    then show ?thesis by (simp add: int_of_text_def int_text_parses)
  qed
  moreover have "''t='' @ py_str_int ts @ '',v1='' @ hex = ?t @ CHR '','' # ?v" by simp
  ultimately show ?thesis unfolding parse_signature_header_def by (simp only: sp) simp
qed

section \<open>Who may write\<close>

text \<open>A request that passed the checks, at some reading of the clock, for the source registered under its id.\<close>

definition authentic :: "push_env \<Rightarrow> ExternalSource list \<Rightarrow> seconds set \<Rightarrow> push_request \<Rightarrow> ExternalSource \<Rightarrow> string \<Rightarrow> bool" where
  "authentic E sources ticks rq source body \<longleftrightarrow>
     List.find (\<lambda>x. es_source_id x = rq_source_id rq) sources = Some source \<and> read_body [] (rq_chunks rq) = Some body \<and>
     (\<exists>ts sig now. parse_signature_header (case rq_signature rq of None \<Rightarrow> [] | Some h \<Rightarrow> h) = (Some ts, Some sig) \<and> now \<in> ticks \<and>
        \<bar>py_int now - ts\<bar> \<le> DEFAULT_SKEW_SECONDS \<and> es_secret source \<noteq> [] \<and>
        fromhex sig = Some (push_hmac E (es_secret source) (signed_message ts body)))"

definition authorised ::
    "push_env \<Rightarrow> (string \<Rightarrow> PushEventRequest option) \<Rightarrow> ExternalSource list \<Rightarrow> seconds set \<Rightarrow> push_request \<Rightarrow> PushEventRequest \<Rightarrow> bool" where
  "authorised E parse sources ticks rq p \<longleftrightarrow>
     (\<exists>source body. authentic E sources ticks rq source body \<and> parse body = Some p \<and> request_in_limits p \<and>
        channel_allowed source (pq_channel_id p))"

lemma verify_ok_iff:
  "hv_ok (verify_push_signature E now header body secret) \<longleftrightarrow>
     secret \<noteq> [] \<and> (\<exists>ts sig. parse_signature_header header = (Some ts, Some sig) \<and> \<bar>now - ts\<bar> \<le> DEFAULT_SKEW_SECONDS \<and>
       fromhex sig = Some (push_hmac E secret (signed_message ts body)))"
proof (cases "header = []")
  case True
  then show ?thesis by (simp add: verify_push_signature_def parse_signature_header_def)
next
  case False
  then show ?thesis
    by (auto simp: verify_push_signature_def split: prod.splits option.splits if_splits)
qed

lemma authentic_iff:
  "authentic E sources ticks rq source body \<longleftrightarrow>
     List.find (\<lambda>x. es_source_id x = rq_source_id rq) sources = Some source \<and> read_body [] (rq_chunks rq) = Some body \<and>
     (\<exists>now \<in> ticks. hv_ok (verify_push_signature E (py_int now) (case rq_signature rq of None \<Rightarrow> [] | Some h \<Rightarrow> h) body (es_secret source)))"
  unfolding authentic_def verify_ok_iff by auto

definition point_ok ::
    "push_env \<Rightarrow> (string \<Rightarrow> PushEventRequest option) \<Rightarrow> ExternalSource list \<Rightarrow> seconds set \<Rightarrow> push_request \<Rightarrow> push_point \<Rightarrow> bool" where
  "point_ok E parse sources ticks rq pt =
     (case pt of
        Find_replay source body \<Rightarrow> authentic E sources ticks rq source body
      | Store_rows p \<Rightarrow> authorised E parse sources ticks rq p
      | _ \<Rightarrow> True)"

lemma push_validate_ok:
  "authentic E sources ticks rq source body \<Longrightarrow> point_ok E parse sources ticks rq (push_validate parse source body)"
  by (auto simp: push_validate_def point_ok_def authorised_def split: option.split)

lemma push_authenticate_ok:
  assumes "now \<in> ticks" "read_body [] (rq_chunks rq) = Some body"
    "found = List.find (\<lambda>x. es_source_id x = rq_source_id rq) sources"
  shows "point_ok E parse sources ticks rq (push_authenticate E parse (py_int now) rq body found)"
proof (cases found)
  case None
  then show ?thesis by (simp add: push_authenticate_def point_ok_def)
next
  case (Some source)
  let ?h = "case rq_signature rq of None \<Rightarrow> [] | Some h \<Rightarrow> h"
  show ?thesis
  proof (cases "hv_ok (verify_push_signature E (py_int now) ?h body (es_secret source))")
    case True
    then have "authentic E sources ticks rq source body"
      using assms Some unfolding authentic_def verify_ok_iff by auto
    then show ?thesis using Some True push_validate_ok [of E sources ticks rq source body parse]
      by (auto simp: push_authenticate_def point_ok_def)
  next
    case False
    then show ?thesis using Some by (simp add: push_authenticate_def point_ok_def)
  qed
qed

lemma upserts_written:
  "m \<in> set (upsert_channel_messages now ms q) \<Longrightarrow> m \<in> set q \<or> message_key m \<in> message_key ` set ms"
proof (induction ms arbitrary: q)
  case (Cons x ms)
  have "m \<in> set (upsert_channel_message now x q) \<Longrightarrow> m \<in> set q \<or> message_key m = message_key x"
    by (auto simp: upsert_channel_message_def message_key_def split: if_splits)
  then show ?case using Cons.IH [of "upsert_channel_message now x q"] Cons.prems
    by (auto simp: upsert_channel_messages_def)
qed (simp add: upsert_channel_messages_def)

text \<open>The rows of the queue are old ones or rows that an authorised request names.\<close>

definition row_authorised ::
    "push_env \<Rightarrow> (string \<Rightarrow> PushEventRequest option) \<Rightarrow> ExternalSource list \<Rightarrow> seconds set \<Rightarrow> push_request list \<Rightarrow> ChannelMessage \<Rightarrow> bool" where
  "row_authorised E parse sources ticks rqs m \<longleftrightarrow>
     (\<exists>rq p. rq \<in> set rqs \<and> authorised E parse sources ticks rq p \<and>
        cm_source_id m = rq_source_id rq \<and> cm_channel_id m = pq_channel_id p \<and> cm_message_id m \<in> pv_message_id ` set (pq_events p))"

record push_scene =
  sc_sources :: "ExternalSource list"
  sc_times :: "seconds set"
  sc_requests :: "push_request list"
  sc_queue :: queue

definition push_inv :: "push_env \<Rightarrow> (string \<Rightarrow> PushEventRequest option) \<Rightarrow> push_scene \<Rightarrow> (push_request \<times> push_point) list \<Rightarrow> push_store \<Rightarrow> bool" where
  "push_inv E parse sc ts s \<longleftrightarrow>
     px_sources s = sc_sources sc \<and> map fst ts = sc_requests sc \<and>
     list_all (\<lambda>(rq, pt). point_ok E parse (sc_sources sc) (sc_times sc) rq pt) ts \<and>
     list_all (\<lambda>m. m \<in> set (sc_queue sc) \<or> row_authorised E parse (sc_sources sc) (sc_times sc) (sc_requests sc) m) (px_queue s)"

definition push_task_step ::
    "push_env \<Rightarrow> (string \<Rightarrow> PushEventRequest option) \<Rightarrow> seconds \<Rightarrow> push_request \<times> push_point \<Rightarrow> push_store \<Rightarrow> (push_request \<times> push_point) \<times> push_store" where
  "push_task_step E parse now t s = (case t of (rq, pt) \<Rightarrow> apfst (Pair rq) (push_step E parse now rq pt s))"

lemma push_step_sources: "push_step E parse now rq pt s = (pt', s') \<Longrightarrow> px_sources s' = px_sources s"
  by (cases pt) (auto simp: Let_def reserve_idempotency_record_def split: if_splits)

lemma push_step_queue:
  "push_step E parse now rq pt s = (pt', s') \<Longrightarrow>
     px_queue s' = (case pt of Store_rows p \<Rightarrow> upsert_channel_messages now (push_rows now (rq_source_id rq) p) (px_queue s) | _ \<Rightarrow> px_queue s)"
  by (cases pt) (auto simp: Let_def reserve_idempotency_record_def split: if_splits)

lemma push_step_point:
  assumes "push_step E parse now rq pt s = (pt', s')" "point_ok E parse (px_sources s) ticks rq pt" "now \<in> ticks"
  shows "point_ok E parse (px_sources s) ticks rq pt'"
proof (cases pt)
  case Find_source
  then show ?thesis using assms push_authenticate_ok [of now ticks rq _ "get_external_source (rq_source_id rq) s" "px_sources s" E parse]
    by (auto simp: get_external_source_def point_ok_def split: option.splits)
next
  case (Find_replay source body)
  then have "authentic E (px_sources s) ticks rq source body" using assms(2) by (simp add: point_ok_def)
  then show ?thesis using assms(1) Find_replay push_validate_ok by (auto simp: point_ok_def split: option.splits)
qed (use assms in \<open>auto simp: point_ok_def Let_def split: if_splits\<close>)

interpretation pushes: interleaving "push_task_step E parse" "push_inv E parse" "\<lambda>sc now. now \<in> sc_times sc" for E parse
proof
  fix sc ts s i now t s'
  assume inv: "push_inv E parse sc ts s" and i: "i < length ts" and now: "now \<in> sc_times sc"
    and st: "push_task_step E parse now (ts ! i) s = (t, s')"
  obtain rq pt where t0: "ts ! i = (rq, pt)" by fastforce
  then obtain pt' where t: "t = (rq, pt')" and ps: "push_step E parse now rq pt s = (pt', s')"
    using st by (auto simp: push_task_step_def apfst_def map_prod_def split: prod.splits)
  have src: "px_sources s = sc_sources sc" "px_sources s' = sc_sources sc"
    using inv push_step_sources [OF ps] by (simp_all add: push_inv_def)
  have point: "point_ok E parse (sc_sources sc) (sc_times sc) rq pt"
    using inv i t0 by (auto simp: push_inv_def list_all_length)
  then have point': "point_ok E parse (sc_sources sc) (sc_times sc) rq pt'"
    using push_step_point [OF ps _ now] src by simp
  have "(rq, pt) \<in> set ts" using nth_mem [OF i] t0 by simp
  then have "rq \<in> set (map fst ts)" by force
  moreover have reqs: "map fst ts = sc_requests sc" using inv by (simp add: push_inv_def)
  ultimately have rq: "rq \<in> set (sc_requests sc)" by (simp only:)
  have "map fst (ts[i := t]) = map fst ts" using i t0 t by (simp add: map_update list_update_same_conv)
  moreover have "list_all (\<lambda>(rq, pt). point_ok E parse (sc_sources sc) (sc_times sc) rq pt) (ts[i := t])"
    using inv point' t unfolding push_inv_def list_all_iff by (auto dest!: set_update_subset_insert [THEN subsetD])
  moreover have "m \<in> set (sc_queue sc) \<or> row_authorised E parse (sc_sources sc) (sc_times sc) (sc_requests sc) m" if m: "m \<in> set (px_queue s')" for m
  proof (cases "m \<in> set (px_queue s)")
    case True
    then show ?thesis using inv by (auto simp: push_inv_def list_all_iff)
  next
    case False
    then obtain p where p: "pt = Store_rows p" "m \<in> set (upsert_channel_messages now (push_rows now (rq_source_id rq) p) (px_queue s))"
      using m push_step_queue [OF ps] by (auto split: push_point.splits)
    then obtain ev where "ev \<in> set (pq_events p)" "message_key m = message_key (push_row now (rq_source_id rq) p ev)"
      using upserts_written [OF p(2)] False by (auto simp: push_rows_def)
    then show ?thesis using point p(1) rq unfolding row_authorised_def
      by (intro disjI2 exI [of _ rq] exI [of _ p]) (auto simp: point_ok_def message_key_def push_row_def)
  qed
  ultimately show "push_inv E parse sc (ts[i := t]) s'"
    using inv src by (simp add: push_inv_def list_all_iff)
qed

section \<open>The replay cache\<close>

lemma find_append_some: "List.find P xs = Some x \<Longrightarrow> List.find P (xs @ ys) = Some x"
  by (induction xs) auto

lemma find_append_new: "List.find P xs = None \<Longrightarrow> P y \<Longrightarrow> List.find P (xs @ [y]) = Some y"
  by (induction xs) (auto split: if_splits)

lemma reserve_keeps:
  "get_idempotency_record sid k s = Some r \<Longrightarrow> get_idempotency_record sid k (snd (reserve_idempotency_record now sid' k' resp s)) = Some r"
  by (auto simp: reserve_idempotency_record_def get_idempotency_record_def find_append_some)

lemma reserve_new:
  "get_idempotency_record sid k s = None \<Longrightarrow>
     get_idempotency_record sid k (snd (reserve_idempotency_record now sid k resp s)) =
       Some \<lparr>ir_source_id = sid, ir_key = k, ir_response = resp, ir_created_at = now\<rparr>"
  by (simp add: reserve_idempotency_record_def get_idempotency_record_def find_append_new)

lemma push_step_record:
  "get_idempotency_record sid k s = Some r \<Longrightarrow> push_step E parse now rq pt s = (pt', s') \<Longrightarrow> get_idempotency_record sid k s' = Some r"
  by (cases pt) (auto simp: Let_def get_idempotency_record_def [of sid k "s\<lparr>px_queue := _\<rparr>"] get_idempotency_record_def [of sid k s, symmetric]
      intro: reserve_keeps)

interpretation replays: interleaving "push_task_step E parse"
  "\<lambda>(sid, k, r) ts s. get_idempotency_record sid k s = Some r" "\<lambda>_ _. True" for E parse
  by unfold_locales (auto simp: push_task_step_def apfst_def map_prod_def intro: push_step_record split: prod.splits)

lemma post_steps:
  "post_source_events E parse now rq s =
     (let f = (\<lambda>(p, s). push_step E parse now rq p s) in f (f (f (f (Find_source, s)))))"
  by (simp add: post_source_events_def eval_nat_numeral Let_def)

lemma post_replays:
  assumes "read_body [] (rq_chunks rq) = Some body" "get_external_source (rq_source_id rq) s = Some source"
    "hv_ok (verify_push_signature E (py_int now) (case rq_signature rq of None \<Rightarrow> [] | Some h \<Rightarrow> h) body (es_secret source))"
    "replay_key rq = Some k" "get_idempotency_record (rq_source_id rq) k s = Some r"
  shows "post_source_events E parse now rq s = (Accepted (ir_response r), s)"
  using assms by (simp add: post_steps Let_def push_authenticate_def)

lemma post_accepted_record:
  assumes "post_source_events E parse now rq s = (Accepted r, s')" "replay_key rq = Some k"
  shows "\<exists>rec. get_idempotency_record (rq_source_id rq) k s' = Some rec \<and> ir_response rec = r"
proof -
  obtain body where b: "read_body [] (rq_chunks rq) = Some body" using assms(1) by (cases "read_body [] (rq_chunks rq)") (auto simp: post_steps Let_def)
  let ?a = "push_authenticate E parse (py_int now) rq body (get_external_source (rq_source_id rq) s)"
  have "\<exists>n. ?a = Refused_push n \<or> (\<exists>source. ?a = Find_replay source body)"
    using assms(2) by (auto simp: push_authenticate_def split: option.splits)
  moreover have "?a \<noteq> Refused_push n" for n using assms(1) b by (auto simp: post_steps Let_def)
  ultimately obtain source where a: "?a = Find_replay source body" by blast
  show ?thesis
  proof (cases "get_idempotency_record (rq_source_id rq) k s")
    case (Some rec)
    then have "s' = s \<and> r = ir_response rec" using assms a b by (simp add: post_steps Let_def)
    then show ?thesis using Some by simp
  next
    case None
    show ?thesis
    proof (cases "push_validate parse source body")
      case (Store_rows p)
      let ?rows = "push_rows now (rq_source_id rq) p"
      let ?s = "s\<lparr>px_queue := upsert_channel_messages now ?rows (px_queue s)\<rparr>"
      have "r = push_respond p (upsert_outcome now ?rows (px_queue s)) \<and> s' = snd (reserve_idempotency_record now (rq_source_id rq) k r ?s)"
        using assms a b None Store_rows by (auto simp: post_steps Let_def)
      moreover have "get_idempotency_record (rq_source_id rq) k ?s = None" using None by (simp add: get_idempotency_record_def)
      ultimately show ?thesis using reserve_new by fastforce
    qed (use assms a b None in \<open>auto simp: post_steps Let_def push_validate_def split: option.splits if_splits\<close>)
  qed
qed

lemma upserts_keys_grow:
  "message_key ` set q \<union> message_key ` set ms \<subseteq> message_key ` set (upsert_channel_messages now ms q)"
proof (induction ms arbitrary: q)
  case (Cons m ms)
  have "message_key ` set (upsert_channel_message now m q) = insert (message_key m) (message_key ` set q)"
    using arg_cong [OF upsert_keys [of now m q], of set] by (auto simp: insert_absorb)
  then show ?case using Cons.IH [of "upsert_channel_message now m q"] by (simp add: upsert_channel_messages_def)
qed (simp add: upsert_channel_messages_def)

section \<open>The registry\<close>

lemma find_map_key:
  "(\<And>x. es_source_id (f x) = es_source_id x) \<Longrightarrow>
     List.find (\<lambda>x. es_source_id x = k) (map f xs) = map_option f (List.find (\<lambda>x. es_source_id x = k) xs)"
  by (induction xs) auto

lemma get_after_upsert:
  "get_external_source (es_source_id x) (upsert_external_source E now x s) =
     Some (x\<lparr>es_secret_fingerprint := hash_secret E (es_secret x),
        es_rotated_at := (if get_external_source (es_source_id x) s = None then es_rotated_at x else Some now)\<rparr>)"
proof (cases "get_external_source (es_source_id x) s")
  case None
  then show ?thesis by (simp add: upsert_external_source_def Let_def get_external_source_def find_append_new)
next
  case (Some y)
  then have "es_source_id y = es_source_id x" by (simp add: get_external_source_def find_Some_iff) blast
  then show ?thesis using Some
    by (simp add: upsert_external_source_def Let_def get_external_source_def) (subst find_map_key; simp)
qed

lemma upsert_external_queue: "px_queue (upsert_external_source E now x s) = px_queue s" "px_replays (upsert_external_source E now x s) = px_replays s"
  by (simp_all add: upsert_external_source_def Let_def split: option.split)

section \<open>Properties\<close>

text \<open>
  The documented client gets in exactly within the time window: a header signed with the secret of the
  source is accepted if and only if its timestamp is at most five minutes away from the server's clock,
  in either direction.
\<close>

theorem push_signature_roundtrip:
  assumes "secret \<noteq> []" "int (length (py_str_int ts)) \<le> INT_MAX_STR_DIGITS"
  shows "hv_ok (verify_push_signature E now (signature_header E ts secret body) body secret) \<longleftrightarrow> \<bar>now - ts\<bar> \<le> DEFAULT_SKEW_SECONDS"
  using assms signature_header_parses [OF assms(2) hexdigest_text]
  by (simp add: verify_ok_iff signature_header_def fromhex_hexdigest)

definition toy_push_env :: push_env where
  "toy_push_env = \<lparr>push_hmac = (\<lambda>k m. k @ m), push_sha256 = rev\<rparr>"

theorem push_signature_roundtrip_witness:
  "hv_ok (verify_push_signature toy_push_env 1300 (signature_header toy_push_env 1000 ''k1'' ''{}'') ''{}'' ''k1'') \<and>
   \<not> hv_ok (verify_push_signature toy_push_env 1301 (signature_header toy_push_env 1000 ''k1'' ''{}'') ''{}'' ''k1'')"
proof -
  have d: "length (py_str_int 1000) = 4" by code_simp
  have h: "''k1'' \<noteq> []" "int (length (py_str_int 1000)) \<le> INT_MAX_STR_DIGITS" by (simp_all add: d INT_MAX_STR_DIGITS_def)
  show ?thesis using push_signature_roundtrip [OF h] by (simp add: DEFAULT_SKEW_SECONDS_def)
qed

text \<open>
  Property C24. Only authorised requests write: in any interleaving of push requests, every row of the queue that
  was not there before belongs to a request that carries, for the source registered under its id, a
  signature of exactly the body it sent, within the time window, whose body keeps the declared limits
  and whose channel matches the pattern of the source; the row carries the source, the channel and a
  message id of that request.
\<close>

theorem push_rows_authorised:
  assumes "list_all (\<lambda>(rq, pt). pt = Find_source) ts" "interleave (push_task_step E parse) sch ts s = (ts', s')" "m \<in> set (px_queue s')"
  shows "m \<in> set (px_queue s) \<or> row_authorised E parse (px_sources s) (snd ` set sch) (map fst ts) m"
proof -
  let ?sc = "\<lparr>sc_sources = px_sources s, sc_times = snd ` set sch, sc_requests = map fst ts, sc_queue = px_queue s\<rparr>"
  have "push_inv E parse ?sc ts s" using assms(1) by (auto simp: push_inv_def list_all_iff point_ok_def)
  from pushes.run_inv [OF this _ assms(2)] have "push_inv E parse ?sc ts' s'" by (simp add: list_all_iff)
  then show ?thesis using assms(3) by (auto simp: push_inv_def list_all_iff)
qed

definition toy_event :: "string \<Rightarrow> PushEvent" where
  "toy_event i = \<lparr>pv_message_id = i, pv_timestamp = ''2024-01-01T00:00:00Z'', pv_author = ''a'', pv_author_name = [], pv_author_image = [],
     pv_content = ''hi'', pv_thread_id = None, pv_attachments = [], pv_reactions = [], pv_reply_count = 0, pv_is_bot = False, pv_raw_metadata = []\<rparr>"

definition toy_parse :: "string \<Rightarrow> PushEventRequest option" where
  "toy_parse body = (if body = ''B1'' then Some \<lparr>pq_channel_id = ''C1'', pq_channel_name = [], pq_events = [toy_event ''m1'', toy_event ''m2'']\<rparr>
     else if body = ''B2'' then Some \<lparr>pq_channel_id = ''D1'', pq_channel_name = [], pq_events = []\<rparr> else None)"

definition toy_push_store :: push_store where
  "toy_push_store = \<lparr>px_sources = [\<lparr>es_source_id = ''claw'', es_secret = ''k1'', es_secret_fingerprint = [], es_allowed_channels_pattern = ''C[!a-c]*'',
     es_description = [], es_created_at = 0, es_rotated_at = None\<rparr>], px_replays = [], px_queue = []\<rparr>"

definition toy_push :: "string option \<Rightarrow> string \<Rightarrow> push_request" where
  "toy_push key body = \<lparr>rq_source_id = ''claw'', rq_chunks = [body], rq_signature = Some (signature_header toy_push_env 1000 ''k1'' body), rq_idempotency_key = key\<rparr>"

theorem push_rows_authorised_witness:
  "\<exists>m. cm_message_id m = ''m1'' \<and>
     row_authorised toy_push_env toy_parse (px_sources toy_push_store) {1100} [toy_push None ''B1''] m"
proof -
  let ?r = "interleave (push_task_step toy_push_env toy_parse) [(0, 1100), (0, 1100)] [(toy_push None ''B1'', Find_source)] toy_push_store"
  have q: "map cm_message_id (px_queue (snd ?r)) = [''m1'', ''m2'']" by code_simp
  then have m: "hd (px_queue (snd ?r)) \<in> set (px_queue (snd ?r))" "cm_message_id (hd (px_queue (snd ?r))) = ''m1''"
    by (cases "px_queue (snd ?r)"; simp)+
  have "hd (px_queue (snd ?r)) \<notin> set (px_queue toy_push_store)" by (simp add: toy_push_store_def)
  then show ?thesis using push_rows_authorised [OF _ prod.collapse [symmetric] m(1)] m(2) by auto
qed



text \<open>
  The registry endpoints and the ingest agree: after a source has been created, a request signed with
  the secret that the response showed is accepted, within the window and the limits, and its messages
  are in the queue.
\<close>

theorem created_source_accepts:
  assumes "create_source E t secret sid pattern d s = (Inr resp, s')" "secret \<noteq> []" "replay_key rq = None"
    "rq_source_id rq = sid" "read_body [] (rq_chunks rq) = Some body"
    "rq_signature rq = Some (signature_header E ts (sr_secret resp) body)" "int (length (py_str_int ts)) \<le> INT_MAX_STR_DIGITS"
    "\<bar>py_int now - ts\<bar> \<le> DEFAULT_SKEW_SECONDS" "parse body = Some p" "request_in_limits p"
    "pattern \<in> {[], ''*''} \<or> fnmatch (pq_channel_id p) pattern"
  shows "(\<exists>r. fst (post_source_events E parse now rq s') = Accepted r) \<and>
    message_key ` set (push_rows now sid p) \<subseteq> message_key ` set (px_queue (snd (post_source_events E parse now rq s')))"
proof -
  let ?src = "\<lparr>es_source_id = sid, es_secret = secret, es_secret_fingerprint = [], es_allowed_channels_pattern = pattern,
              es_description = d, es_created_at = t, es_rotated_at = None\<rparr>"
  have fresh: "get_external_source sid s = None" using assms(1) by (auto simp: create_source_def split: if_splits)
  have s': "s' = upsert_external_source E t ?src s" and resp: "sr_secret resp = secret"
    using assms(1) fresh by (auto simp: create_source_def Let_def)
  obtain src where src: "get_external_source sid s' = Some src" "es_secret src = secret" "es_allowed_channels_pattern src = pattern"
    using get_after_upsert [of ?src E t s] s' by simp
  have ok: "hv_ok (verify_push_signature E (py_int now) (signature_header E ts secret body) body secret)"
    using assms(2,8) signature_header_parses [OF assms(7) hexdigest_text]
    by (simp add: verify_ok_iff signature_header_def fromhex_hexdigest)
  have "channel_allowed src (pq_channel_id p)" using assms(11) src(3) by (auto simp: channel_allowed_def Let_def)
  then have a: "push_authenticate E parse (py_int now) rq body (Some src) = Store_rows p"
    using ok assms(3,6,9,10) src(2) resp by (simp add: push_authenticate_def push_validate_def)
  have post: "post_source_events E parse now rq s' =
      (Accepted (push_respond p (upsert_outcome now (push_rows now sid p) (px_queue s'))),
       s'\<lparr>px_queue := upsert_channel_messages now (push_rows now sid p) (px_queue s')\<rparr>)"
    using a assms(3,4,5) src(1) by (simp add: post_steps Let_def)
  have "message_key ` set ms \<subseteq> message_key ` set (upsert_channel_messages now ms q)" for ms q
    using upserts_keys_grow by blast
  then show ?thesis unfolding post by simp
qed

theorem created_source_accepts_witness:
  "let (resp, s1) = create_source toy_push_env 900 ''k1'' ''claw'' ''C*'' [] \<lparr>px_sources = [], px_replays = [], px_queue = []\<rparr>
   in \<exists>r. fst (post_source_events toy_push_env toy_parse 1000 (toy_push None ''B1'') s1) = Accepted r"
proof -
  let ?c = "create_source toy_push_env 900 ''k1'' ''claw'' ''C*'' [] \<lparr>px_sources = [], px_replays = [], px_queue = []\<rparr>"
  let ?resp = "\<lparr>sr_source_id = ''claw'', sr_secret = ''k1'', sr_secret_fingerprint = hexdigest (rev ''k1''), sr_rotated_at = None\<rparr>"
  let ?p = "\<lparr>pq_channel_id = ''C1'', pq_channel_name = [], pq_events = [toy_event ''m1'', toy_event ''m2'']\<rparr>"
  have "fst ?c = Inr ?resp" by code_simp
  then have c: "?c = (Inr ?resp, snd ?c)" by (metis prod.collapse)
  have f: "fnmatch ''C1'' ''C*''" "py_int 1000 = 1000" "toy_parse ''B1'' = Some ?p" "request_in_limits ?p"
    "length (py_str_int 1000) = 4" "read_body [] [''B1''] = Some ''B1''" by code_simp+
  have "\<exists>r. fst (post_source_events toy_push_env toy_parse 1000 (toy_push None ''B1'') (snd ?c)) = Accepted r"
    by (rule conjunct1 [OF created_source_accepts [where p = ?p and body = "''B1''" and ts = 1000, OF c]])
      (use f in \<open>simp_all add: toy_push_def replay_key_def INT_MAX_STR_DIGITS_def DEFAULT_SKEW_SECONDS_def del: fnmatch.simps read_body.simps\<close>)
  then show ?thesis by (simp only: Let_def case_prod_beta)
qed

text \<open>
  Rotation revokes the old secret: after a rotation, a request whose header was made with the old
  secret is refused, unless the two secrets give its message the same HMAC.
\<close>

theorem rotation_revokes:
  assumes "rotate_source_secret E t new sid s = (Inr resp, s')" "rq_source_id rq = sid" "read_body [] (rq_chunks rq) = Some body"
    "rq_signature rq = Some (signature_header E ts old body)" "int (length (py_str_int ts)) \<le> INT_MAX_STR_DIGITS"
    "push_hmac E new (signed_message ts body) \<noteq> push_hmac E old (signed_message ts body)"
  shows "post_source_events E parse now rq s' = (Refused_push 401, s')"
proof -
  obtain existing where ex: "get_external_source sid s = Some existing" using assms(1) by (auto simp: rotate_source_secret_def split: option.splits)
  let ?src = "\<lparr>es_source_id = sid, es_secret = new, es_secret_fingerprint = [], es_allowed_channels_pattern = es_allowed_channels_pattern existing,
    es_description = es_description existing, es_created_at = es_created_at existing, es_rotated_at = None\<rparr>"
  have s': "s' = upsert_external_source E t ?src s" using assms(1) ex by (auto simp: rotate_source_secret_def Let_def)
  obtain src where src: "get_external_source sid s' = Some src" "es_secret src = new"
    using get_after_upsert [of ?src E t s] s' by simp
  have "\<not> hv_ok (verify_push_signature E (py_int now) (signature_header E ts old body) body new)"
    using assms(6) signature_header_parses [OF assms(5) hexdigest_text]
    by (simp add: verify_ok_iff signature_header_def fromhex_hexdigest)
  then show ?thesis using assms(2,3,4) src by (simp add: post_steps Let_def push_authenticate_def)
qed

theorem rotation_revokes_witness:
  "let (resp, s1) = rotate_source_secret toy_push_env 950 ''k2'' ''claw'' toy_push_store
   in post_source_events toy_push_env toy_parse 1000 (toy_push None ''B1'') s1 = (Refused_push 401, s1)"
proof -
  let ?c = "rotate_source_secret toy_push_env 950 ''k2'' ''claw'' toy_push_store"
  let ?resp = "\<lparr>sr_source_id = ''claw'', sr_secret = ''k2'', sr_secret_fingerprint = hexdigest (rev ''k2''), sr_rotated_at = Some 950\<rparr>"
  have "fst ?c = Inr ?resp" by code_simp
  then have c: "?c = (Inr ?resp, snd ?c)" by (metis prod.collapse)
  have f: "length (py_str_int 1000) = 4" "read_body [] [''B1''] = Some ''B1''" by code_simp+
  have "post_source_events toy_push_env toy_parse 1000 (toy_push None ''B1'') (snd ?c) = (Refused_push 401, snd ?c)"
    by (rule rotation_revokes [OF c, of _ "''B1''" 1000 "''k1''"])
      (use f in \<open>simp_all add: toy_push_def INT_MAX_STR_DIGITS_def toy_push_env_def\<close>)
  then show ?thesis by (simp only: Let_def case_prod_beta)
qed

text \<open>
  The listing never depends on a secret: replacing the secrets of all registered sources by others
  leaves what the administrator sees unchanged.
\<close>

theorem listing_hides_secrets:
  "list_sources (s\<lparr>px_sources := map (\<lambda>x. x\<lparr>es_secret := f x\<rparr>) (px_sources s)\<rparr>) = list_sources s"
proof -
  have "insort_key es_source_id (g x) (map g xs) = map g (insort_key es_source_id x xs)"
    if "\<And>x. es_source_id (g x) = es_source_id x" for g :: "ExternalSource \<Rightarrow> ExternalSource" and x xs
    by (induction xs) (simp_all add: that)
  then have "sort_key es_source_id (map g xs) = map g (sort_key es_source_id xs)"
    if "\<And>x. es_source_id (g x) = es_source_id x" for g :: "ExternalSource \<Rightarrow> ExternalSource" and xs
    using that by (induction xs) simp_all
  then show ?thesis
    by (simp add: list_sources_def list_external_sources_def to_list_item_def count_idempotency_replays_for_source_def comp_def)
qed

section \<open>Divergences\<close>

text \<open>
  The response counts nothing as accepted: the driver's count of inserted rows leaves out the rows an
  upsert creates.
\<close>

theorem accepted_counts_nothing:
  "pr_accepted (push_respond p (upsert_outcome now rows q)) = 0"
  by (simp add: push_respond_def upsert_outcome_inserted)

text \<open>
  Two requests with the same key that overlap both do the work, and the one that loses the reservation
  answers with its own counters, not with the cached response.
\<close>

theorem lost_reservation_ignored:
  "let rq = toy_push (Some ''key'') ''B1'';
       (ts, s) = interleave (push_task_step toy_push_env toy_parse) [(i, 1000). i \<leftarrow> [0, 1, 0, 1, 0, 1, 0, 1]]
         [(rq, Find_source), (rq, Find_source)] toy_push_store
   in map snd ts = [Accepted \<lparr>pr_accepted = 0, pr_deduplicated = 0, pr_channel_id = ''C1'', pr_extraction = ''queued''\<rparr>,
        Accepted \<lparr>pr_accepted = 0, pr_deduplicated = 2, pr_channel_id = ''C1'', pr_extraction = ''queued''\<rparr>] \<and>
      map ir_response (px_replays s) = [\<lparr>pr_accepted = 0, pr_deduplicated = 0, pr_channel_id = ''C1'', pr_extraction = ''queued''\<rparr>]"
  by code_simp

end
