(* ===== verification/Py_Url.thy ===== *)
theory Py_Url
  imports Py_Json "HOL-Library.Word"
begin

text \<open>
  The parts of Python's \<^verbatim>\<open>urllib.parse\<close> and \<^verbatim>\<open>ipaddress\<close> that the request guard uses: splitting a URL,
  its host and port, putting it together again, percent-encoding, and reading the text of an address
  into a word of 32 or 128 bits. What a patch release of the library refuses in the authority part
  beyond unbalanced brackets (the bracketed text, the NFKC check) is the argument \<open>refused\<close>.
\<close>

unbundle bit_operations_syntax

section \<open>Splitting\<close>

text \<open>\<^verbatim>\<open>s.partition(c)\<close> for one character.\<close>

definition before :: "char \<Rightarrow> string \<Rightarrow> string" where
  "before a s = takeWhile (\<lambda>c. c \<noteq> a) s"

definition behind :: "char \<Rightarrow> string \<Rightarrow> string" where
  "behind a s = drop 1 (dropWhile (\<lambda>c. c \<noteq> a) s)"

section \<open>URLs\<close>

record parse_result =
  url_scheme :: string
  url_netloc :: string
  url_path :: string
  url_params :: string
  url_query :: string
  url_fragment :: string

definition ascii_alpha :: "char \<Rightarrow> bool" where
  "ascii_alpha c \<longleftrightarrow> 65 \<le> ord c \<and> ord c \<le> 90 \<or> 97 \<le> ord c \<and> ord c \<le> 122"

definition scheme_char :: "char \<Rightarrow> bool" where
  "scheme_char c \<longleftrightarrow> ascii_alpha c \<or> py_isdigit c \<or> c = CHR ''+'' \<or> c = CHR ''-'' \<or> c = CHR ''.''"

definition clean_url :: "string \<Rightarrow> string" where
  "clean_url url = filter (\<lambda>c. c \<noteq> CHR 0x09 \<and> c \<noteq> CHR 0x0D \<and> c \<noteq> CHR 0x0A) (dropWhile (\<lambda>c. ord c \<le> 32) url)"

definition split_scheme :: "string \<Rightarrow> string \<times> string" where
  "split_scheme url =
     (let s = before (CHR '':'') url in
      if CHR '':'' \<in> set url \<and> s \<noteq> [] \<and> ascii_alpha (hd s) \<and> list_all scheme_char s then (py_lower s, behind (CHR '':'') url)
      else ([], url))"

definition netloc_end :: "char \<Rightarrow> bool" where
  "netloc_end c \<longleftrightarrow> c = CHR ''/'' \<or> c = CHR ''?'' \<or> c = CHR ''#''"

definition split_netloc :: "string \<Rightarrow> string \<times> string" where
  "split_netloc url =
     (if take 2 url = ''//'' then (takeWhile (\<lambda>c. \<not> netloc_end c) (drop 2 url), dropWhile (\<lambda>c. \<not> netloc_end c) (drop 2 url))
      else ([], url))"

text \<open>The parameters of the last path segment, for the schemes that have them.\<close>

definition split_params :: "string \<Rightarrow> string \<Rightarrow> string \<times> string" where
  "split_params scheme path =
     (let base = rev (dropWhile (\<lambda>c. c \<noteq> CHR ''/'') (rev path)); seg = drop (length base) path in
      if scheme \<in> {[], ''http'', ''https'', ''ftp'', ''hdl'', ''prospero'', ''rtsp'', ''rtspu'', ''rtsps'', ''sip'', ''sips'', ''mms'', ''sftp'', ''tel'', ''shttp'', ''imap''}
         \<and> CHR '';'' \<in> set seg
      then (base @ before (CHR '';'') seg, behind (CHR '';'') seg) else (path, []))"

text \<open>\<^verbatim>\<open>urlparse\<close>; \<^const>\<open>None\<close> is its ValueError.\<close>

definition urlparse :: "(string \<Rightarrow> bool) \<Rightarrow> string \<Rightarrow> parse_result option" where
  "urlparse refused url =
     (let (scheme, rest) = split_scheme (clean_url url);
          (netloc, rest) = split_netloc rest
      in if (CHR ''['' \<in> set netloc) \<noteq> (CHR '']'' \<in> set netloc) \<or> refused netloc then None
         else
           let fragment = behind (CHR ''#'') rest; rest = before (CHR ''#'') rest;
               query = behind (CHR ''?'') rest; path = before (CHR ''?'') rest;
               (path, params) = split_params scheme path
           in Some \<lparr>url_scheme = scheme, url_netloc = netloc, url_path = path, url_params = params, url_query = query, url_fragment = fragment\<rparr>)"

definition hostinfo :: "parse_result \<Rightarrow> string \<times> string" where
  "hostinfo p =
     (let info = rev (before (CHR ''@'') (rev (url_netloc p))) in
      if CHR ''['' \<in> set info then
        (let bracketed = behind (CHR ''['') info in (before (CHR '']'') bracketed, behind (CHR '':'') (behind (CHR '']'') bracketed)))
      else (before (CHR '':'') info, behind (CHR '':'') info))"

definition url_hostname :: "parse_result \<Rightarrow> string option" where
  "url_hostname p =
     (let h = fst (hostinfo p) in
      if h = [] then None else Some (py_lower (before (CHR ''%'') h) @ dropWhile (\<lambda>c. c \<noteq> CHR ''%'') h))"

text \<open>The inner \<^const>\<open>None\<close> is a missing port, the outer one a ValueError.\<close>

definition url_port :: "parse_result \<Rightarrow> int option option" where
  "url_port p =
     (let t = snd (hostinfo p) in
      if t = [] then Some None
      else if \<not> list_all py_isdigit t then None
      else if dec_value t \<le> 65535 then Some (Some (dec_value t)) else None)"

text \<open>\<^verbatim>\<open>urlunparse\<close> of a URL with a scheme and an authority.\<close>

definition url_tail :: "parse_result \<Rightarrow> string" where
  "url_tail p =
     (let path = url_path p @ (if url_params p = [] then [] else '';'' @ url_params p)
      in (if path \<noteq> [] \<and> hd path \<noteq> CHR ''/'' then ''/'' else []) @ path @
         (if url_query p = [] then [] else ''?'' @ url_query p) @ (if url_fragment p = [] then [] else ''#'' @ url_fragment p))"

definition urlunparse :: "parse_result \<Rightarrow> string" where
  "urlunparse p = url_scheme p @ ''://'' @ url_netloc p @ url_tail p"

section \<open>Percent-encoding\<close>

definition utf8 :: "string \<Rightarrow> string" where
  "utf8 s = concat (map (\<lambda>c. if ord c < 128 then [c] else [char_of (192 + ord c div 64), char_of (128 + ord c mod 64)]) s)"

definition unreserved :: "char \<Rightarrow> bool" where
  "unreserved c \<longleftrightarrow> ascii_alpha c \<or> py_isdigit c \<or> c = CHR ''_'' \<or> c = CHR ''.'' \<or> c = CHR ''-'' \<or> c = CHR ''~''"

definition hex_upper :: "nat \<Rightarrow> char" where
  "hex_upper n = (if n < 10 then char_of (48 + n) else char_of (55 + n))"

definition quote_byte :: "char \<Rightarrow> string" where
  "quote_byte b = (if unreserved b then [b] else [CHR ''%'', hex_upper (ord b div 16), hex_upper (ord b mod 16)])"

text \<open>\<^verbatim>\<open>quote(s, safe="")\<close> and its inverse on the receiving side.\<close>

definition url_quote :: "string \<Rightarrow> string" where
  "url_quote s = concat (map quote_byte (utf8 s))"

fun unquote_to_bytes :: "string \<Rightarrow> string" where
  "unquote_to_bytes (c # h # l # r) =
     (case (c = CHR ''%'', hex_value h, hex_value l) of
        (True, Some i, Some j) \<Rightarrow> char_of (16 * i + j) # unquote_to_bytes r
      | _ \<Rightarrow> c # unquote_to_bytes (h # l # r))"
| "unquote_to_bytes (c # r) = c # unquote_to_bytes r"
| "unquote_to_bytes [] = []"

section \<open>Addresses\<close>

datatype ip_addr = V4 "32 word" | V6 "128 word"

datatype ip_net = V4_net "32 word" nat | V6_net "128 word" nat

text \<open>\<^verbatim>\<open>addr in net\<close>: the same version, and the base of the network under its mask.\<close>

fun in_net :: "ip_addr \<Rightarrow> ip_net \<Rightarrow> bool" where
  "in_net (V4 w) (V4_net base len) = (w AND NOT (mask (32 - len)) = base)"
| "in_net (V6 w) (V6_net base len) = (w AND NOT (mask (128 - len)) = base)"
| "in_net _ _ = False"

definition parse_octet :: "string \<Rightarrow> int option" where
  "parse_octet s =
     (if s = [] \<or> \<not> list_all py_isdigit s \<or> 3 < length s \<or> s \<noteq> ''0'' \<and> hd s = CHR ''0'' \<or> 255 < dec_value s then None
      else Some (dec_value s))"

definition parse_ipv4 :: "string \<Rightarrow> (32 word) option" where
  "parse_ipv4 s =
     (case map parse_octet (py_split_char (CHR ''.'') s) of
        [Some a, Some b, Some c, Some d] \<Rightarrow> Some (of_int (((a * 256 + b) * 256 + c) * 256 + d))
      | _ \<Rightarrow> None)"

text \<open>An IPv6 group of at most four hexadecimal digits.\<close>

definition parse_hextet :: "string \<Rightarrow> int option" where
  "parse_hextet s =
     (if s = [] \<or> 4 < length s \<or> list_ex (\<lambda>c. hex_value c = None) s then None
      else Some (foldl (\<lambda>n c. 16 * n + int (the (hex_value c))) 0 s))"

text \<open>The groups before the gap, the number of groups it stands for, and the groups after it.\<close>

definition ipv6_groups :: "string list \<Rightarrow> (string list \<times> nat \<times> string list) option" where
  "ipv6_groups parts =
     (case filter (\<lambda>i. parts ! i = []) [1..<length parts - 1] of
        [] \<Rightarrow> if length parts \<noteq> 8 \<or> hd parts = [] \<or> last parts = [] then None else Some (parts, 0, [])
      | [k] \<Rightarrow>
          let hi = take k parts; lo = drop (Suc k) parts in
          if hd parts = [] \<and> length hi \<noteq> 1 \<or> last parts = [] \<and> length lo \<noteq> 1 then None
          else
            let hi = (if hd parts = [] then [] else hi); lo = (if last parts = [] then [] else lo) in
            if 8 \<le> length hi + length lo then None else Some (hi, 8 - (length hi + length lo), lo)
      | _ \<Rightarrow> None)"

definition groups_value :: "int option list \<Rightarrow> 128 word \<Rightarrow> 128 word" where
  "groups_value gs acc = foldl (\<lambda>w g. push_bit 16 w OR of_int (the g)) acc gs"

text \<open>A dotted quad at the end counts as two groups.\<close>

definition ipv4_tail :: "string list \<Rightarrow> string list option" where
  "ipv4_tail parts =
     (if CHR ''.'' \<in> set (last parts) then
        (case parse_ipv4 (last parts) of
           None \<Rightarrow> None
         | Some w \<Rightarrow>
             let hex = (\<lambda>n. map (\<lambda>k. hex_digit (nat (n div k mod 16))) [4096, 256, 16, 1])
             in Some (butlast parts @ [hex (uint w div 65536), hex (uint w mod 65536)]))
      else Some parts)"

definition parse_ipv6 :: "string \<Rightarrow> (128 word) option" where
  "parse_ipv6 s =
     (let addr = before (CHR ''%'') s; zone = behind (CHR ''%'') s; parts = py_split_char (CHR '':'') addr in
      if CHR ''%'' \<in> set s \<and> (zone = [] \<or> CHR ''%'' \<in> set zone) \<or> CHR ''/'' \<in> set s \<or> length parts < 3 then None
      else case ipv4_tail parts of
        None \<Rightarrow> None
      | Some parts \<Rightarrow>
          if 9 < length parts then None
          else case ipv6_groups parts of
            None \<Rightarrow> None
          | Some (hi, skipped, lo) \<Rightarrow>
              if None \<in> set (map parse_hextet (hi @ lo)) then None
              else Some (groups_value (map parse_hextet lo) (push_bit (16 * skipped) (groups_value (map parse_hextet hi) 0))))"

text \<open>\<^verbatim>\<open>ipaddress.ip_address\<close>.\<close>

definition ip_address :: "string \<Rightarrow> ip_addr option" where
  "ip_address s = (case parse_ipv4 s of Some w \<Rightarrow> Some (V4 w) | None \<Rightarrow> map_option V6 (parse_ipv6 s))"

lemma ip_address_examples:
  "ip_address ''169.254.169.254'' = Some (V4 0xA9FEA9FE)" "ip_address ''01.2.3.4'' = None" "ip_address ''1.2.3'' = None"
  "ip_address ''::1'' = Some (V6 1)" "ip_address ''::'' = Some (V6 0)" "ip_address ''fe80::1%eth0'' = Some (V6 0xFE800000000000000000000000000001)"
  "ip_address ''::ffff:10.0.0.1'' = Some (V6 0xFFFF0A000001)" "ip_address ''1:2:3:4:5:6:7::'' = Some (V6 0x00010002000300040005000600070000)"
  "ip_address '':1:2:3:4:5:6:7'' = None" "ip_address ''1::2::3'' = None" "ip_address ''12345::'' = None"
  by code_simp+

lemma urlparse_examples:
  "map_option (\<lambda>p. (url_hostname p, url_port p)) (urlparse (\<lambda>_. False) ''HTTPS://u@Files.Slack.com:8443/a;b?c#d'') = Some (Some ''files.slack.com'', Some (Some 8443))"
  "map_option urlunparse (urlparse (\<lambda>_. False) ''HTTPS://u@Files.Slack.com:8443/a;b?c#d'') = Some ''https://u@Files.Slack.com:8443/a;b?c#d''"
  "map_option url_hostname (urlparse (\<lambda>_. False) ''http://[::1]:80/'') = Some (Some ''::1'')"
  "urlparse (\<lambda>_. False) ''http://[::1/'' = None"
  by code_simp+

end
