(* ===== verification/Http_Safe.thy ===== *)
theory Http_Safe
  imports Py_Url Platform_Store
begin

text \<open>
  The guard against server-side request forgery, \<^verbatim>\<open>infra/http_safe.py\<close>, the host allowlist that
  \<^verbatim>\<open>infra/platform_hosts.py\<close> derives from the connections, and the gates of the two browser proxies
  (\<^verbatim>\<open>api/loaders.py\<close>, \<^verbatim>\<open>api/media.py\<close>). The resolver is a parameter: the addresses of a host, as text,
  or \<^const>\<open>None\<close> when it fails; so is the order in which Python iterates over a set of strings, and
  what a patch release of the URL parser refuses. An error is the exception of the source.
\<close>

section \<open>The guard\<close>

datatype guard_error = Value_error | Permission_error

record guard_env =
  refused :: "string \<Rightarrow> bool"
  getaddrinfo :: "string \<Rightarrow> int \<Rightarrow> string list option"
  iter_set :: "string list \<Rightarrow> string list"

definition PRIVATE_NETS :: "ip_net list" where
  "PRIVATE_NETS =
     [V4_net 0x0A000000 8, V4_net 0xAC100000 12, V4_net 0xC0A80000 16, V4_net 0x7F000000 8, V4_net 0xA9FE0000 16,
      V4_net 0x64400000 10, V4_net 0 8, V6_net 1 128, V6_net 0xFC000000000000000000000000000000 7,
      V6_net 0xFE800000000000000000000000000000 10, V4_net 0xA9FEA9FE 32]"

definition is_private_addr :: "ip_addr \<Rightarrow> bool" where
  "is_private_addr addr \<longleftrightarrow> list_ex (in_net addr) PRIVATE_NETS"

definition is_private :: "string \<Rightarrow> bool option" where
  "is_private ip = map_option is_private_addr (ip_address ip)"

definition PLATFORM_HOST_ALLOWLIST :: "string list" where
  "PLATFORM_HOST_ALLOWLIST =
     [''files.slack.com'', ''cdn.discordapp.com'', ''api.telegram.org'', ''files.mattermost.com'', ''graph.microsoft.com'',
      ''tg.invalid'', ''suffix:.sharepoint.com'', ''suffix:.slack-edge.com'']"

definition register_runtime_hosts :: "string list \<Rightarrow> string list" where
  "register_runtime_hosts hosts = remdups (map (\<lambda>h. py_lower (py_strip h)) (filter (\<lambda>h. h \<noteq> [] \<and> py_strip h \<noteq> []) hosts))"

definition parse_env_allowlist :: "string \<Rightarrow> string list" where
  "parse_env_allowlist raw = filter (\<lambda>p. p \<noteq> []) (map py_strip (py_split_char (CHR '','') raw))"

definition host_matches :: "string \<Rightarrow> string \<Rightarrow> bool" where
  "host_matches host entry =
     (if py_startswith entry ''suffix:''
      then let suffix = drop 7 entry in py_endswith host suffix \<and> host \<noteq> dropWhile (\<lambda>c. c = CHR ''.'') suffix
      else host = entry)"

record allowlist_env =
  env_allowlist :: string
  env_allowlist_extra :: string
  runtime_hosts :: "string list"

definition active_allowlist :: "allowlist_env \<Rightarrow> string list option \<Rightarrow> string list" where
  "active_allowlist A override =
     (case override of
        Some hosts \<Rightarrow> hosts
      | None \<Rightarrow>
          let full = py_strip (env_allowlist A); extra = py_strip (env_allowlist_extra A) in
          if full \<noteq> [] then parse_env_allowlist full @ runtime_hosts A
          else if extra \<noteq> [] then PLATFORM_HOST_ALLOWLIST @ parse_env_allowlist extra @ runtime_hosts A
          else PLATFORM_HOST_ALLOWLIST @ runtime_hosts A)"

definition OPAQUE_HANDLE_HOSTS :: "string list" where
  "OPAQUE_HANDLE_HOSTS = [''tg.invalid'']"

definition is_opaque_handle_url :: "guard_env \<Rightarrow> string \<Rightarrow> string list \<Rightarrow> bool" where
  "is_opaque_handle_url E url allowlist =
     (case urlparse (refused E) url of
        None \<Rightarrow> False
      | Some p \<Rightarrow>
          let host = (case url_hostname p of None \<Rightarrow> [] | Some h \<Rightarrow> py_lower h) in
          host \<in> set OPAQUE_HANDLE_HOSTS \<and> list_ex (host_matches host) allowlist)"

text \<open>The addresses in the order of the set; the first error ends the loop.\<close>

fun check_addresses :: "string list \<Rightarrow> guard_error option" where
  "check_addresses [] = None"
| "check_addresses (ip # ips) =
     (case is_private ip of None \<Rightarrow> Some Value_error | Some True \<Rightarrow> Some Permission_error | Some False \<Rightarrow> check_addresses ips)"

definition pinned_netloc :: "string \<Rightarrow> int \<Rightarrow> string" where
  "pinned_netloc ip port =
     (if CHR '':'' \<in> set ip then ''['' @ ip @ '']'' else ip) @ '':'' @ py_str_int port"

definition resolve_and_validate :: "guard_env \<Rightarrow> string list option \<Rightarrow> string \<Rightarrow> guard_error + string \<times> string" where
  "resolve_and_validate E allowlist url =
     (case urlparse (refused E) url of
        None \<Rightarrow> Inl Value_error
      | Some parsed \<Rightarrow>
          if url_scheme parsed \<noteq> ''http'' \<and> url_scheme parsed \<noteq> ''https'' then Inl Value_error
          else case url_hostname parsed of
            None \<Rightarrow> Inl Value_error
          | Some host \<Rightarrow>
              if (case allowlist of None \<Rightarrow> False | Some al \<Rightarrow> \<not> list_ex (host_matches host) al) then Inl Permission_error
              else case url_port parsed of
                None \<Rightarrow> Inl Value_error
              | Some given \<Rightarrow>
                  let port = (case given of Some n \<Rightarrow> if n = 0 then (if url_scheme parsed = ''https'' then 443 else 80) else n
                              | None \<Rightarrow> if url_scheme parsed = ''https'' then 443 else 80) in
                  case getaddrinfo E host port of
                    None \<Rightarrow> Inl Value_error
                  | Some infos \<Rightarrow>
                      let ips = iter_set E (remdups infos) in
                      if ips = [] then Inl Value_error
                      else case check_addresses ips of
                        Some e \<Rightarrow> Inl e
                      | None \<Rightarrow> Inr (urlunparse (parsed\<lparr>url_netloc := pinned_netloc (hd ips) port\<rparr>), host))"

text \<open>What \<^verbatim>\<open>safe_get\<close> and \<^verbatim>\<open>safe_post\<close> hand to the client: the URL and the headers.\<close>

definition merge_host_header :: "(string, string) dict option \<Rightarrow> string \<Rightarrow> (string, string) dict" where
  "merge_host_header headers host = AList.update ''Host'' host (case headers of None \<Rightarrow> [] | Some h \<Rightarrow> h)"

definition safe_request :: "guard_env \<Rightarrow> string list option \<Rightarrow> (string, string) dict option \<Rightarrow> string \<Rightarrow> guard_error + string \<times> (string, string) dict" where
  "safe_request E allowlist headers url =
     (case resolve_and_validate E allowlist url of
        Inl e \<Rightarrow> Inl e
      | Inr (pinned, host) \<Rightarrow> Inr (pinned, merge_host_header headers host))"

definition validate_proxy_url :: "guard_env \<Rightarrow> allowlist_env \<Rightarrow> string list option \<Rightarrow> string \<Rightarrow> guard_error + string" where
  "validate_proxy_url E A allowlist url =
     (let active = active_allowlist A allowlist in
      if is_opaque_handle_url E url active then Inr (url_quote url)
      else case resolve_and_validate E (Some active) url of Inl e \<Rightarrow> Inl e | Inr _ \<Rightarrow> Inr (url_quote url))"

section \<open>Hosts of the connections\<close>

definition URL_CREDENTIAL_KEYS :: "string list" where
  "URL_CREDENTIAL_KEYS = [''base_url'', ''server_url'', ''instance_url'']"

definition hostname_of :: "(string \<Rightarrow> bool) \<Rightarrow> json \<Rightarrow> string option" where
  "hostname_of ref value =
     (case value of
        JStr s \<Rightarrow>
          if py_strip s = [] then None
          else (case urlparse ref (py_strip s) of
             None \<Rightarrow> None
           | Some p \<Rightarrow>
               if url_scheme p \<noteq> ''http'' \<and> url_scheme p \<noteq> ''https'' then None
               else (case url_hostname p of None \<Rightarrow> None | Some h \<Rightarrow> if py_lower h = [] then None else Some (py_lower h)))
      | _ \<Rightarrow> None)"

text \<open>
  \<open>decrypt\<close> yields the decrypted credentials, or \<^const>\<open>None\<close> when it raises; a failing read of the
  connections leaves the set empty.
\<close>

definition derive_proxy_hosts_from_connections ::
    "(string \<Rightarrow> bool) \<Rightarrow> (platform_connection \<Rightarrow> json option) \<Rightarrow> platform_connection list option \<Rightarrow> string list" where
  "derive_proxy_hosts_from_connections ref decrypt connections =
     (case connections of
        None \<Rightarrow> []
      | Some cs \<Rightarrow>
          remdups (concat (map (\<lambda>c. if conn_status c \<noteq> ''connected'' then []
             else case decrypt c of
               Some (JObj creds) \<Rightarrow> List.map_filter (\<lambda>k. hostname_of ref (json_get creds k)) URL_CREDENTIAL_KEYS
             | _ \<Rightarrow> []) cs)))"

definition refresh_runtime_proxy_hosts ::
    "(string \<Rightarrow> bool) \<Rightarrow> (platform_connection \<Rightarrow> json option) \<Rightarrow> platform_connection list option \<Rightarrow> allowlist_env \<Rightarrow> allowlist_env" where
  "refresh_runtime_proxy_hosts ref decrypt connections A =
     A\<lparr>runtime_hosts := register_runtime_hosts (derive_proxy_hosts_from_connections ref decrypt connections)\<rparr>"

section \<open>The browser proxies\<close>

definition ALLOWED_HOSTS :: "string list" where
  "ALLOWED_HOSTS = [''files.slack.com'', ''slack-files.com'', ''cdn.discordapp.com'', ''media.discordapp.net'', ''tg.invalid'']"

definition effective_allowed_hosts :: "string list \<Rightarrow> string list" where
  "effective_allowed_hosts runtime = ALLOWED_HOSTS @ runtime"

definition INLINE_SAFE_TYPES :: "string list" where
  "INLINE_SAFE_TYPES = [''image/png'', ''image/jpeg'', ''image/gif'', ''image/webp'', ''image/avif'', ''application/pdf'']"

definition safe_media_headers :: "string option \<Rightarrow> (string, string) dict" where
  "safe_media_headers content_type =
     (let mime = py_lower (py_strip (before (CHR '';'') (case content_type of None \<Rightarrow> [] | Some t \<Rightarrow> t)))
      in [(''X-Content-Type-Options'', ''nosniff''), (''Content-Security-Policy'', ''default-src '' @ [CHR 0x27] @ ''none'' @ [CHR 0x27] @ ''; sandbox''),
          (''Content-Disposition'', if mime \<in> set INLINE_SAFE_TYPES then ''inline'' else ''attachment'')])"

text \<open>
  The front of the file proxy: what it sends to the bridge, the status of its refusal, or the
  ValueError that escapes while the handler prepares the log line.
\<close>

datatype proxy_gate = Forward string | Bad_request | Uncaught

definition file_proxy_gate :: "guard_env \<Rightarrow> allowlist_env \<Rightarrow> string \<Rightarrow> proxy_gate" where
  "file_proxy_gate E A url =
     (case validate_proxy_url E A None url of
        Inr encoded \<Rightarrow> Forward encoded
      | Inl _ \<Rightarrow> if url \<noteq> [] \<and> urlparse (refused E) url = None then Uncaught else Bad_request)"

definition bridge_url :: "string \<Rightarrow> string \<Rightarrow> string option \<Rightarrow> string" where
  "bridge_url base encoded connection_id =
     base @ ''/bridge/files?url='' @ encoded @
     (case connection_id of None \<Rightarrow> [] | Some c \<Rightarrow> if c = [] then [] else ''&connection_id='' @ url_quote c)"

text \<open>
  The media proxy, once the durable store has missed: it fetches the URL itself, for the hosts of
  Slack with each bot token in turn.
\<close>

definition SLACK_HOSTS :: "string list" where
  "SLACK_HOSTS = [''files.slack.com'', ''slack-files.com'']"

datatype media_gate = Fetch_with_tokens string "string list" | Fetch string | Refuse_media nat

definition media_proxy_gate :: "guard_env \<Rightarrow> string list \<Rightarrow> string list \<Rightarrow> string \<Rightarrow> media_gate" where
  "media_proxy_gate E runtime tokens url =
     (case urlparse (refused E) url of
        None \<Rightarrow> Refuse_media 400
      | Some parsed \<Rightarrow>
          if url_scheme parsed \<noteq> ''http'' \<and> url_scheme parsed \<noteq> ''https'' then Refuse_media 400
          else
            let host = (case url_hostname parsed of None \<Rightarrow> [] | Some h \<Rightarrow> py_lower h); allowed = effective_allowed_hosts runtime in
            if host \<notin> set allowed then Refuse_media 400
            else case resolve_and_validate E (Some allowed) url of
              Inl _ \<Rightarrow> Refuse_media 400
            | Inr _ \<Rightarrow>
                if host \<in> set SLACK_HOSTS then
                  (if tokens = [] then Refuse_media 502 else Fetch_with_tokens (urlunparse parsed) tokens)
                else Fetch (urlunparse parsed))"

section \<open>Networks as numbers\<close>

lemma uint_high_bits: "uint (w AND NOT (mask k)) = uint w div 2 ^ k * 2 ^ k" for w :: "'a :: len word"
proof -
  have "uint (w AND NOT (mask k)) = uint w AND NOT (mask k)"
    by (rule bit_eqI) (auto simp: bit_simps dest: bit_imp_le_length)
  also have "\<dots> = push_bit k (drop_bit k (uint w))"
    by (rule bit_eqI) (auto simp: bit_simps)
  finally show ?thesis by (simp add: push_bit_eq_mult drop_bit_eq_div)
qed

lemma in_net_v4: "in_net (V4 w) (V4_net base len) \<longleftrightarrow> uint w div 2 ^ (32 - len) * 2 ^ (32 - len) = uint base"
  by (simp add: word_uint_eq_iff [of "w AND NOT (mask (32 - len))"] uint_high_bits)

lemma quad_uint:
  assumes "a \<le> 255" "b \<le> 255" "c \<le> 255" "d \<le> 255" "0 \<le> a" "0 \<le> b" "0 \<le> c" "0 \<le> d"
  shows "uint (word_of_int (((a * 256 + b) * 256 + c) * 256 + d) :: 32 word) = ((a * 256 + b) * 256 + c) * 256 + d"
proof -
  have u: "uint (word_of_int x :: 32 word) = x" if "0 \<le> x" "x < 2 ^ 32" for x
    using that by (simp add: uint_word_of_int_eq take_bit_int_eq_self)
  show ?thesis by (rule u) (use assms in simp_all)
qed

lemma quad_div:
  assumes "b = m * q + r" "0 \<le> r" "r < m" "0 \<le> c" "c \<le> 255" "0 \<le> d" "d \<le> 255" "k * m = 256"
  shows "(((a * 256 + b) * 256 + c) * 256 + d) div (m * 65536) = a * k + (q :: int)"
proof (rule int_div_pos_eq [of _ _ _ "r * 65536 + c * 256 + d"])
  have "a * 256 = a * k * m" using assms(8) by simp
  then show "((a * 256 + b) * 256 + c) * 256 + d = m * 65536 * (a * k + q) + (r * 65536 + c * 256 + d)"
    using assms(1) by (simp add: algebra_simps)
  show "0 \<le> r * 65536 + c * 256 + d" using assms by simp
  have "r * 65536 \<le> (m - 1) * 65536" using assms(3) by simp
  then show "r * 65536 + c * 256 + d < m * 65536" using assms by (simp add: algebra_simps)
qed

lemma private_v4:
  "is_private_addr (V4 w) \<longleftrightarrow>
     uint w div 16777216 = 10 \<or> uint w div 1048576 = 2753 \<or> uint w div 65536 = 49320 \<or> uint w div 16777216 = 127 \<or>
     uint w div 65536 = 43518 \<or> uint w div 4194304 = 401 \<or> uint w div 16777216 = 0 \<or> uint w = 2852039166"
proof -
  have m: "x * k = y * k \<longleftrightarrow> x = y" if "k \<noteq> 0" for x y k :: int using that by simp
  have "x * 16777216 = 167772160 \<longleftrightarrow> x = 10" "x * 1048576 = 2886729728 \<longleftrightarrow> x = 2753" "x * 65536 = 3232235520 \<longleftrightarrow> x = 49320"
    "x * 16777216 = 2130706432 \<longleftrightarrow> x = 127" "x * 65536 = 2851995648 \<longleftrightarrow> x = 43518" "x * 4194304 = 1681915904 \<longleftrightarrow> x = 401" for x :: int
    using m [of 16777216 x 10] m [of 1048576 x 2753] m [of 65536 x 49320] m [of 16777216 x 127] m [of 65536 x 43518] m [of 4194304 x 401]
    by simp_all
  then show ?thesis by (simp add: is_private_addr_def PRIVATE_NETS_def in_net_v4 del: in_net.simps(1))
qed

lemma private_quad:
  assumes "a \<le> 255" "b \<le> 255" "c \<le> 255" "d \<le> 255" "0 \<le> a" "0 \<le> b" "0 \<le> c" "0 \<le> d"
  shows "is_private_addr (V4 (word_of_int (((a * 256 + b) * 256 + c) * 256 + d))) \<longleftrightarrow>
    a = 10 \<or> a = 172 \<and> 16 \<le> b \<and> b \<le> 31 \<or> a = 192 \<and> b = 168 \<or> a = 127 \<or> a = 169 \<and> b = 254 \<or> a = 100 \<and> 64 \<le> b \<and> b \<le> 127 \<or> a = 0"
proof -
  let ?n = "((a * 256 + b) * 256 + c) * 256 + d"
  obtain q r where q: "b = 16 * q + r" "0 \<le> r" "r < 16" "0 \<le> q" "q < 16"
    using assms(2,6) that [of "b div 16" "b mod 16"] by (simp add: div_mult_mod_eq)
  obtain u v where u: "b = 64 * u + v" "0 \<le> v" "v < 64" "0 \<le> u" "u < 4"
    using assms(2,6) that [of "b div 64" "b mod 64"] by (simp add: div_mult_mod_eq)
  have n24: "?n div 16777216 = a" using quad_div [of b 256 0 b c d 1 a] assms by simp
  have n16: "?n div 65536 = a * 256 + b" using quad_div [of b 1 b 0 c d 256 a] assms by simp
  have n20: "?n div 1048576 = a * 16 + q" using quad_div [OF q(1,2,3), of c d 16 a] assms by simp
  have n22: "?n div 4194304 = a * 4 + u" using quad_div [OF u(1,2,3), of c d 4 a] assms by simp
  have l20: "a * 16 + q = 2753 \<longleftrightarrow> a = 172 \<and> 16 \<le> b \<and> b \<le> 31"
  proof
    assume e: "a * 16 + q = 2753"
    then have "a = 172" using q by linarith
    with e have "q = 1" by simp
    then show "a = 172 \<and> 16 \<le> b \<and> b \<le> 31" using \<open>a = 172\<close> q by simp
  next
    assume "a = 172 \<and> 16 \<le> b \<and> b \<le> 31"
    moreover from this have "q = 1" using q by linarith
    ultimately show "a * 16 + q = 2753" by simp
  qed
  have l22: "a * 4 + u = 401 \<longleftrightarrow> a = 100 \<and> 64 \<le> b \<and> b \<le> 127"
  proof
    assume e: "a * 4 + u = 401"
    then have "a = 100" using u by linarith
    with e have "u = 1" by simp
    then show "a = 100 \<and> 64 \<le> b \<and> b \<le> 127" using \<open>a = 100\<close> u by simp
  next
    assume "a = 100 \<and> 64 \<le> b \<and> b \<le> 127"
    moreover from this have "u = 1" using u by linarith
    ultimately show "a * 4 + u = 401" by simp
  qed
  have l16: "a * 256 + b = x * 256 + y \<longleftrightarrow> a = x \<and> b = y" if "0 \<le> y" "y \<le> 255" for x y
  proof
    assume e: "a * 256 + b = x * 256 + y"
    then have "a = x" using assms(2,6) that by linarith
    then show "a = x \<and> b = y" using e by simp
  qed simp
  have l16': "a * 256 + b = 49320 \<longleftrightarrow> a = 192 \<and> b = 168" "a * 256 + b = 43518 \<longleftrightarrow> a = 169 \<and> b = 254"
    using l16 [of 168 192] l16 [of 254 169] by simp_all
  have l32: "a = 169 \<and> b = 254" if "?n = 2852039166"
    using n16 l16'(2) unfolding that by simp
  show ?thesis
    unfolding private_v4 quad_uint [OF assms] n24 n16 n20 n22 l20 l22 l16' using l32 by blast
qed

lemma octet_text:
  assumes "n \<le> 255" "0 \<le> n"
  shows "parse_octet (py_str_int n) = Some n" "CHR ''.'' \<notin> set (py_str_int n)"
proof -
  let ?s = "nat_digits (nat n)"
  have sh: "?s \<noteq> []" "\<forall>c \<in> set ?s. py_isdigit c" "dec_value ?s = n" "hd ?s = CHR ''0'' \<longrightarrow> n = 0"
    using nat_digits_shape [of "nat n"] assms(2) by auto
  have len: "length (nat_digits m) \<le> 3" if "m < 1000" for m
  proof -
    have "m div 10 < 100" "m div 10 div 10 < 10" using that by simp_all
    then show ?thesis by (simp add: nat_digits.simps [of m] nat_digits.simps [of "m div 10"] nat_digits.simps [of "m div 10 div 10"])
  qed
  have "length ?s \<le> 3" using assms by (intro len) simp
  moreover have "?s = ''0''" if "hd ?s = CHR ''0''"
    using sh(4) that by (simp add: nat_digits.simps [of 0])
  ultimately show "parse_octet (py_str_int n) = Some n"
    using sh assms by (auto simp: parse_octet_def py_str_int_def list_all_iff)
  show "CHR ''.'' \<notin> set (py_str_int n)" using sh(2) assms(2) by (auto simp: py_str_int_def py_isdigit_def)
qed

definition dotted_quad :: "int \<Rightarrow> int \<Rightarrow> int \<Rightarrow> int \<Rightarrow> string" where
  "dotted_quad a b c d = py_str_int a @ ''.'' @ py_str_int b @ ''.'' @ py_str_int c @ ''.'' @ py_str_int d"

lemma dotted_quad_parses:
  assumes "a \<le> 255" "b \<le> 255" "c \<le> 255" "d \<le> 255" "0 \<le> a" "0 \<le> b" "0 \<le> c" "0 \<le> d"
  shows "ip_address (dotted_quad a b c d) = Some (V4 (word_of_int (((a * 256 + b) * 256 + c) * 256 + d)))"
proof -
  have "py_split_char (CHR ''.'') (dotted_quad a b c d) = [py_str_int a, py_str_int b, py_str_int c, py_str_int d]"
    using assms octet_text(2) [of a] octet_text(2) [of b] octet_text(2) [of c] octet_text(2) [of d]
    by (simp add: dotted_quad_def split_char_append split_char_none)
  then show ?thesis
    using octet_text(1) [of a] octet_text(1) [of b] octet_text(1) [of c] octet_text(1) [of d] assms
    by (simp add: ip_address_def parse_ipv4_def)
qed

section \<open>The text of an address\<close>

definition ip_char :: "char \<Rightarrow> bool" where
  "ip_char c \<longleftrightarrow> hex_value c \<noteq> None \<or> c = CHR ''.'' \<or> c = CHR '':''"

lemma digit_hex: "py_isdigit c \<Longrightarrow> hex_value c \<noteq> None"
  by (simp add: py_isdigit_def hex_value_def Let_def)

lemma octet_digits: "parse_octet x \<noteq> None \<Longrightarrow> d \<in> set x \<Longrightarrow> py_isdigit d"
  by (auto simp: parse_octet_def list_all_iff split: if_splits)

lemma split_char_cover: "c \<in> set s \<Longrightarrow> c = a \<or> (\<exists>x \<in> set (py_split_char a s). c \<in> set x)"
  using split_char_set [of s a] by auto

lemma ipv4_chars: "parse_ipv4 s = Some w \<Longrightarrow> c \<in> set s \<Longrightarrow> ip_char c"
proof -
  assume p: "parse_ipv4 s = Some w" and c: "c \<in> set s"
  have "x \<in> set (py_split_char (CHR ''.'') s) \<Longrightarrow> parse_octet x \<noteq> None" for x
    using p by (auto simp: parse_ipv4_def split: list.splits option.splits)
  then have "x \<in> set (py_split_char (CHR ''.'') s) \<Longrightarrow> d \<in> set x \<Longrightarrow> py_isdigit d" for x d
    using octet_digits by blast
  then show "ip_char c" using split_char_cover [OF c, of "CHR ''.''"] digit_hex unfolding ip_char_def by blast
qed

lemma ipv6_groups_parts:
  assumes "ipv6_groups ps = Some (hi, k, lo)" "p \<in> set ps"
  shows "p = [] \<or> p \<in> set (hi @ lo)"
proof (cases "filter (\<lambda>i. ps ! i = []) [1..<length ps - 1]")
  case Nil
  then show ?thesis using assms by (auto simp: ipv6_groups_def split: if_splits)
next
  case (Cons j js)
  show ?thesis
  proof (cases js)
    case Nil
    have "j \<in> set (filter (\<lambda>i. ps ! i = []) [1..<length ps - 1])" using Cons by simp
    then have j: "ps ! j = []" "j < length ps" by auto
    then have "ps = take j ps @ [] # drop (Suc j) ps" using id_take_nth_drop [of j ps] by simp
    then have "p = [] \<or> p \<in> set (take j ps) \<or> p \<in> set (drop (Suc j) ps)" using assms(2) by (metis Un_iff set_ConsD set_append)
    moreover have "p = []" if "p \<in> set (take j ps)" "hd ps = []" "length (take j ps) = 1"
    proof -
      have "take j ps = [hd ps]" using that(1,3) by (cases ps; cases j) (auto simp: min_def split: if_splits)
      then show ?thesis using that(1,2) by simp
    qed
    moreover have "p = []" if p: "p \<in> set (drop (Suc j) ps)" and l: "last ps = []" and n: "length (drop (Suc j) ps) = 1"
    proof -
      obtain x where x: "drop (Suc j) ps = [x]" using n by (metis One_nat_def length_0_conv length_Suc_conv)
      then have "last (drop (Suc j) ps) = last ps" by (intro last_drop) (metis drop_all linorder_not_less not_Cons_self2)
      then show ?thesis using p l x by simp
    qed
    moreover have "hi = (if hd ps = [] then [] else take j ps) \<and> lo = (if last ps = [] then [] else drop (Suc j) ps) \<and>
        (hd ps = [] \<longrightarrow> length (take j ps) = 1) \<and> (last ps = [] \<longrightarrow> length (drop (Suc j) ps) = 1)"
      using assms(1) unfolding ipv6_groups_def Cons Nil by (simp add: Let_def split: if_split_asm)
    ultimately show ?thesis by (metis Un_iff set_append)
  qed (use assms(1) Cons in \<open>simp add: ipv6_groups_def\<close>)
qed

lemma ipv4_tail_parts:
  "ipv4_tail ps = Some qs \<Longrightarrow> ps \<noteq> [] \<Longrightarrow> p \<in> set ps \<Longrightarrow> p \<in> set qs \<or> parse_ipv4 p \<noteq> None"
proof -
  assume a: "ipv4_tail ps = Some qs" "ps \<noteq> []" "p \<in> set ps"
  then have "p \<in> set (butlast ps) \<or> p = last ps" by (metis append_butlast_last_id in_set_conv_decomp_last rotate1.simps(2) set_ConsD set_rotate1)
  then show "p \<in> set qs \<or> parse_ipv4 p \<noteq> None"
    using a by (auto simp: ipv4_tail_def Let_def split: if_splits option.splits)
qed

lemma ipv6_chars: "parse_ipv6 s = Some w \<Longrightarrow> CHR ''%'' \<notin> set s \<Longrightarrow> c \<in> set s \<Longrightarrow> ip_char c"
proof -
  assume p: "parse_ipv6 s = Some w" and z: "CHR ''%'' \<notin> set s" and c: "c \<in> set s"
  let ?ps = "py_split_char (CHR '':'') s"
  have s: "before (CHR ''%'') s = s" using z by (auto simp: before_def takeWhile_eq_all_conv)
  obtain qs where q: "ipv4_tail ?ps = Some qs" using p s by (auto simp: parse_ipv6_def Let_def split: option.splits if_splits)
  obtain hi k lo where g: "ipv6_groups qs = Some (hi, k, lo)" "None \<notin> set (map parse_hextet (hi @ lo))"
    using p s q by (auto simp: parse_ipv6_def Let_def split: option.splits if_splits)
  have hex: "ip_char d" if "x \<in> set (hi @ lo)" "d \<in> set x" for x d
  proof -
    have "parse_hextet x \<noteq> None" using g(2) that(1) by (metis image_eqI list.set_map)
    then show ?thesis using that(2) by (auto simp: parse_hextet_def ip_char_def list_ex_iff split: if_splits)
  qed
  have "ip_char d" if x: "x \<in> set ?ps" and d: "d \<in> set x" for x d
    using ipv4_tail_parts [OF q split_char_ne x]
  proof
    assume "x \<in> set qs"
    then show ?thesis using ipv6_groups_parts [OF g(1)] hex d by fastforce
  next
    assume "parse_ipv4 x \<noteq> None"
    then show ?thesis using ipv4_chars d by blast
  qed
  then show "ip_char c" using split_char_cover [OF c, of "CHR '':''"] unfolding ip_char_def by blast
qed

lemma ip_chars: "ip_address s = Some a \<Longrightarrow> CHR ''%'' \<notin> set s \<Longrightarrow> c \<in> set s \<Longrightarrow> ip_char c"
  using ipv4_chars ipv6_chars by (auto simp: ip_address_def split: option.splits)

section \<open>The pinned URL\<close>

lemma urlparse_built:
  assumes "sch \<in> {''http'', ''https''}" "\<forall>c \<in> set n. \<not> netloc_end c \<and> c \<noteq> CHR 0x09 \<and> c \<noteq> CHR 0x0D \<and> c \<noteq> CHR 0x0A"
    "tail = [] \<or> netloc_end (hd tail)" "(CHR ''['' \<in> set n) = (CHR '']'' \<in> set n)" "\<not> ref n"
  shows "\<exists>p. urlparse ref (sch @ ''://'' @ n @ tail) = Some p \<and> url_netloc p = n"
proof -
  let ?keep = "\<lambda>c. c \<noteq> CHR 0x09 \<and> c \<noteq> CHR 0x0D \<and> c \<noteq> CHR 0x0A"
  let ?t = "filter ?keep tail"
  have n: "filter ?keep n = n" using assms(2) by (simp add: filter_id_conv)
  have clean: "clean_url (sch @ ''://'' @ n @ tail) = sch @ CHR '':'' # ''//'' @ n @ ?t"
    using assms(1) n by (auto simp: clean_url_def)
  have ends: "netloc_end c \<Longrightarrow> ?keep c" for c by (auto simp: netloc_end_def)
  have t: "?t = [] \<or> netloc_end (hd ?t)" using assms(3) ends by (cases tail) auto
  have sp: "split_scheme (sch @ CHR '':'' # r) = (sch, r)" for r
    using assms(1) by (auto simp: split_scheme_def before_def behind_def scheme_char_def ascii_alpha_def Let_def py_lower_def py_lower_char_def)
  have "takeWhile (\<lambda>c. \<not> netloc_end c) (n @ ?t) = n" using assms(2) t by (cases ?t) (auto simp: takeWhile_append2)
  then have "fst (split_netloc (''//'' @ n @ ?t)) = n" by (simp add: split_netloc_def)
  then show ?thesis using assms(4,5) unfolding urlparse_def clean sp
    by (auto simp: Let_def split: prod.splits)
qed

lemma tail_head:
  "y = [] \<or> netloc_end (hd y) \<Longrightarrow> z = [] \<or> netloc_end (hd z) \<Longrightarrow>
     t = (if x \<noteq> [] \<and> hd x \<noteq> CHR ''/'' then ''/'' else []) @ x @ y @ z \<Longrightarrow> t = [] \<or> netloc_end (hd t)"
  by (cases x; cases y) (auto simp: netloc_end_def)

lemma url_tail_head: "url_tail p = [] \<or> netloc_end (hd (url_tail p))"
  by (rule tail_head [OF _ _ url_tail_def [unfolded Let_def]]) (simp_all add: netloc_end_def)

lemma dec_value_nonneg: "0 \<le> dec_value s"
  by (induction s rule: rev_induct) (simp_all add: dec_value_snoc, simp add: dec_value_def)

lemma url_port_range: "url_port p = Some (Some n) \<Longrightarrow> 0 \<le> n \<and> n \<le> 65535"
  using dec_value_nonneg by (auto simp: url_port_def Let_def split: if_splits)

lemma ip_char_facts: "ip_char c \<Longrightarrow> \<not> netloc_end c \<and> c \<noteq> CHR 0x09 \<and> c \<noteq> CHR 0x0D \<and> c \<noteq> CHR 0x0A \<and>
    c \<noteq> CHR ''@'' \<and> c \<noteq> CHR ''['' \<and> c \<noteq> CHR '']'' \<and> c \<noteq> CHR ''%''"
  by (auto simp: ip_char_def netloc_end_def hex_value_def Let_def)

lemma port_text: "0 \<le> n \<Longrightarrow> list_all py_isdigit (py_str_int n) \<and> dec_value (py_str_int n) = n \<and> py_str_int n \<noteq> []"
  using nat_digits_shape [of "nat n"] by (auto simp: py_str_int_def list_all_iff)

lemma digit_ip_char: "py_isdigit c \<Longrightarrow> ip_char c \<and> c \<noteq> CHR '':''"
  using digit_hex by (auto simp: ip_char_def py_isdigit_def)

lemma before_none: "a \<notin> set s \<Longrightarrow> before a s = s" by (auto simp: before_def takeWhile_eq_all_conv)

lemma before_append: "a \<notin> set s \<Longrightarrow> before a (s @ a # r) = s" by (induction s) (auto simp: before_def)

lemma behind_append: "a \<notin> set s \<Longrightarrow> behind a (s @ a # r) = r" by (induction s) (auto simp: behind_def)

lemma pinned_host:
  assumes "\<forall>c \<in> set ip. ip_char c" "ip \<noteq> []" "0 \<le> port" "port \<le> 65535" "url_netloc p = pinned_netloc ip port"
  shows "url_hostname p = Some (py_lower ip)" "url_port p = Some (Some port)"
proof -
  let ?t = "py_str_int port"
  have t: "list_all py_isdigit ?t" "dec_value ?t = port" "?t \<noteq> []" using port_text [OF assms(3)] by simp_all
  have no: "CHR ''@'' \<notin> set ?t" "CHR '':'' \<notin> set ?t" "CHR ''['' \<notin> set ?t" "CHR '']'' \<notin> set ?t"
    using t(1) digit_ip_char ip_char_facts by (auto simp: list_all_iff)
  have ni: "CHR ''@'' \<notin> set ip" "CHR ''['' \<notin> set ip" "CHR '']'' \<notin> set ip" "CHR ''%'' \<notin> set ip"
    using assms(1) ip_char_facts by auto
  have "CHR ''@'' \<notin> set (rev (pinned_netloc ip port))" using no ni by (simp add: pinned_netloc_def)
  then have info: "rev (before (CHR ''@'') (rev (url_netloc p))) = pinned_netloc ip port" by (simp add: assms(5) before_none)
  have h: "hostinfo p = (ip, ?t)"
  proof (cases "CHR '':'' \<in> set ip")
    case True
    have b: "behind (CHR ''['') (pinned_netloc ip port) = ip @ CHR '']'' # CHR '':'' # ?t"
      using True by (simp add: pinned_netloc_def behind_def)
    have "CHR ''['' \<in> set (pinned_netloc ip port)" using True by (simp add: pinned_netloc_def)
    moreover have "behind (CHR '':'') (CHR '':'' # ?t) = ?t" by (simp add: behind_def)
    ultimately show ?thesis unfolding hostinfo_def info b using before_append [OF ni(3)] behind_append [OF ni(3)] by (simp add: Let_def b)
  next
    case False
    then have "pinned_netloc ip port = ip @ CHR '':'' # ?t" by (simp add: pinned_netloc_def)
    moreover have "CHR ''['' \<notin> set (ip @ CHR '':'' # ?t)" using ni no by simp
    ultimately show ?thesis unfolding hostinfo_def info using before_append [OF False] behind_append [OF False] by (simp add: Let_def)
  qed
  have "dropWhile (\<lambda>c. c \<noteq> CHR ''%'') ip = []" using ni(4) by (auto simp: dropWhile_eq_Nil_conv)
  then show "url_hostname p = Some (py_lower ip)" using assms(2) ni(4) by (simp add: url_hostname_def h before_none)
  show "url_port p = Some (Some port)" using t assms(4) by (simp add: url_port_def h)
qed

lemma check_addresses_ok: "check_addresses ips = None \<Longrightarrow> list_all (\<lambda>ip. is_private ip = Some False) ips"
  by (induction ips rule: check_addresses.induct) (auto split: option.splits bool.splits)

lemma pinned_netloc_clean:
  assumes "\<forall>c \<in> set ip. ip_char c" "\<forall>c \<in> set (py_str_int port). ip_char c"
  shows "\<forall>c \<in> set (pinned_netloc ip port). \<not> netloc_end c \<and> c \<noteq> CHR 0x09 \<and> c \<noteq> CHR 0x0D \<and> c \<noteq> CHR 0x0A"
    "(CHR ''['' \<in> set (pinned_netloc ip port)) = (CHR '']'' \<in> set (pinned_netloc ip port))"
proof -
  have "c \<in> set (pinned_netloc ip port) \<Longrightarrow> ip_char c \<or> c = CHR ''['' \<or> c = CHR '']'' \<or> c = CHR '':''" for c
    using assms by (auto simp: pinned_netloc_def split: if_splits)
  moreover have "\<not> netloc_end (CHR ''['') \<and> \<not> netloc_end (CHR '']'') \<and> \<not> netloc_end (CHR '':'')" by (simp add: netloc_end_def)
  ultimately show "\<forall>c \<in> set (pinned_netloc ip port). \<not> netloc_end c \<and> c \<noteq> CHR 0x09 \<and> c \<noteq> CHR 0x0D \<and> c \<noteq> CHR 0x0A"
    using ip_char_facts by blast
  have "\<not> ip_char (CHR ''['')" "\<not> ip_char (CHR '']'')" using ip_char_facts by blast+
  then have "CHR ''['' \<notin> set ip" "CHR '']'' \<notin> set ip" "CHR ''['' \<notin> set (py_str_int port)" "CHR '']'' \<notin> set (py_str_int port)"
    using assms by blast+
  then show "(CHR ''['' \<in> set (pinned_netloc ip port)) = (CHR '']'' \<in> set (pinned_netloc ip port))"
    by (simp add: pinned_netloc_def)
qed

section \<open>Encoded URLs\<close>

lemma utf8_byte: "b \<in> set (utf8 s) \<Longrightarrow> unreserved b \<Longrightarrow> b \<noteq> CHR ''%''"
  by (auto simp: unreserved_def ascii_alpha_def py_isdigit_def)

lemma quote_safe: "list_all (\<lambda>c. unreserved c \<or> c = CHR ''%'') (url_quote s)"
proof -
  have h: "unreserved (hex_upper n)" if "n < 16" for n
    using that by (auto simp: unreserved_def hex_upper_def ascii_alpha_def py_isdigit_def)
  have "ord b div 16 < 16" for b :: char by (rule less_mult_imp_div_less) simp
  then show ?thesis using h by (auto simp: url_quote_def quote_byte_def list_all_iff split: if_splits)
qed

lemma hex_value_upper: "n < 16 \<Longrightarrow> hex_value (hex_upper n) = Some n"
  by (auto simp: hex_value_def hex_upper_def Let_def)

lemma unquote_byte: "unquote_to_bytes (quote_byte b @ r) = b # unquote_to_bytes r"
proof (cases "unreserved b")
  case True
  then have "b \<noteq> CHR ''%''" by (auto simp: unreserved_def ascii_alpha_def py_isdigit_def)
  then have "unquote_to_bytes (b # r) = b # unquote_to_bytes r" by (cases "(b # r)" rule: unquote_to_bytes.cases) auto
  then show ?thesis using True by (simp add: quote_byte_def)
next
  case False
  have d: "ord b div 16 < 16" by (rule less_mult_imp_div_less) simp
  have "char_of (16 * (ord b div 16) + ord b mod 16) = b" by (simp only: mult_div_mod_eq char_of_char)
  then show ?thesis using False d by (simp add: quote_byte_def hex_value_upper)
qed

lemma unquote_quote: "unquote_to_bytes (url_quote s) = utf8 s"
proof -
  have "unquote_to_bytes (concat (map quote_byte bs)) = bs" for bs
    by (induction bs) (simp_all add: unquote_byte)
  then show ?thesis by (simp add: url_quote_def)
qed

lemma safe_no_separator: "list_all (\<lambda>c. unreserved c \<or> c = CHR ''%'') s \<Longrightarrow> CHR ''&'' \<notin> set s"
  by (auto simp: list_all_iff unreserved_def ascii_alpha_def py_isdigit_def)

lemma validated_is_quoted: "validate_proxy_url E A al url = Inr enc \<Longrightarrow> enc = url_quote url"
  by (auto simp: validate_proxy_url_def Let_def split: if_splits sum.splits)

section \<open>Origin of the derived hosts\<close>

lemma derived_host_origin:
  assumes "h \<in> set (derive_proxy_hosts_from_connections ref decrypt (Some cs))"
  shows "\<exists>c \<in> set cs. \<exists>creds k. conn_status c = ''connected'' \<and> decrypt c = Some (JObj creds) \<and> k \<in> set URL_CREDENTIAL_KEYS \<and>
    hostname_of ref (json_get creds k) = Some h"
proof -
  obtain c where c: "c \<in> set cs" "h \<in> set (if conn_status c \<noteq> ''connected'' then []
      else case decrypt c of Some (JObj creds) \<Rightarrow> List.map_filter (\<lambda>k. hostname_of ref (json_get creds k)) URL_CREDENTIAL_KEYS | _ \<Rightarrow> [])"
    using assms unfolding derive_proxy_hosts_from_connections_def option.case set_remdups set_concat set_map by blast
  then have conn: "conn_status c = ''connected''" by (auto split: if_splits)
  obtain creds where creds: "decrypt c = Some (JObj creds)" "h \<in> set (List.map_filter (\<lambda>k. hostname_of ref (json_get creds k)) URL_CREDENTIAL_KEYS)"
    using c(2) conn by (cases "decrypt c") (auto split: json.splits)
  then obtain k where "k \<in> set URL_CREDENTIAL_KEYS" "hostname_of ref (json_get creds k) = Some h"
    by (auto simp: map_filter_def)
  then show ?thesis using c(1) conn creds(1) by blast
qed

lemma opaque_host:
  assumes "is_opaque_handle_url E url al"
  obtains parsed h where "urlparse (refused E) url = Some parsed" "url_hostname parsed = Some h" "list_ex (host_matches (py_lower h)) al"
proof (cases "urlparse (refused E) url")
  case None
  then show ?thesis using assms by (simp add: is_opaque_handle_url_def)
next
  case (Some parsed)
  show ?thesis
  proof (cases "url_hostname parsed")
    case None
    then show ?thesis using assms Some by (simp add: is_opaque_handle_url_def OPAQUE_HANDLE_HOSTS_def)
  next
    case h: (Some h)
    then show ?thesis using assms Some by (intro that [of parsed h]) (simp_all add: is_opaque_handle_url_def Let_def)
  qed
qed

section \<open>Properties\<close>


definition toy_guard :: guard_env where
  "toy_guard = \<lparr>refused = (\<lambda>_. False), getaddrinfo = (\<lambda>h n. if h = ''files.slack.com'' then Some [''52.1.2.3''] else if h = ''intra'' then Some [''10.0.0.7''] else None),
     iter_set = (\<lambda>xs. xs)\<rparr>"


text \<open>
  Property C19. The blocked IPv4 ranges are the intended ones: the test on the text of an address, by words and
  masks, agrees with the ranges of its octets.
\<close>

theorem private_ranges_exact:
  assumes "a \<le> 255" "b \<le> 255" "c \<le> 255" "d \<le> 255" "0 \<le> a" "0 \<le> b" "0 \<le> c" "0 \<le> d"
  shows "is_private (dotted_quad a b c d) =
    Some (a = 10 \<or> a = 172 \<and> 16 \<le> b \<and> b \<le> 31 \<or> a = 192 \<and> b = 168 \<or> a = 127 \<or> a = 169 \<and> b = 254 \<or> a = 100 \<and> 64 \<le> b \<and> b \<le> 127 \<or> a = 0)"
  using dotted_quad_parses [OF assms] private_quad [OF assms] by (simp add: is_private_def)

theorem private_ranges_exact_witness:
  "is_private (dotted_quad 172 31 0 1) = Some True \<and> is_private (dotted_quad 172 32 0 1) = Some False"
  using private_ranges_exact [of 172 31 0 1] private_ranges_exact [of 172 32 0 1] by simp

text \<open>
  Property C20. The encoded URL is inert and faithful: a URL that the proxy forwards is percent-encoded into
  unreserved characters and escapes, the bridge decodes it to the bytes of the URL that was validated,
  and no parameter of the bridge request can be forged through it.
\<close>

theorem forwarded_url_inert:
  assumes "file_proxy_gate E A url = Forward enc"
  shows "list_all (\<lambda>c. unreserved c \<or> c = CHR ''%'') enc \<and> unquote_to_bytes enc = utf8 url \<and>
    before (CHR ''&'') (drop (length base + 18) (bridge_url base enc conn)) = enc"
proof -
  have "validate_proxy_url E A None url = Inr enc" using assms by (auto simp: file_proxy_gate_def split: sum.splits if_splits)
  then have enc: "enc = url_quote url" by (rule validated_is_quoted)
  have no: "CHR ''&'' \<notin> set enc" unfolding enc by (rule safe_no_separator [OF quote_safe])
  have "drop (length base + 18) (bridge_url base enc conn) = enc @ (case conn of None \<Rightarrow> [] | Some c \<Rightarrow> if c = [] then [] else ''&connection_id='' @ url_quote c)"
    by (simp add: bridge_url_def)
  then have "before (CHR ''&'') (drop (length base + 18) (bridge_url base enc conn)) = enc"
    using no before_none [OF no] before_append [OF no] by (auto split: option.split)
  then show ?thesis using enc quote_safe unquote_quote by blast
qed

theorem forwarded_url_inert_witness:
  "\<exists>enc. file_proxy_gate toy_guard \<lparr>env_allowlist = [], env_allowlist_extra = [], runtime_hosts = []\<rparr> ''https://files.slack.com/a?x&y'' = Forward enc \<and>
     unquote_to_bytes enc = ''https://files.slack.com/a?x&y''"
proof -
  let ?url = "''https://files.slack.com/a?x&y''"
  have g: "file_proxy_gate toy_guard \<lparr>env_allowlist = [], env_allowlist_extra = [], runtime_hosts = []\<rparr> ?url = Forward (url_quote ?url)" by code_simp
  have u: "utf8 ?url = ?url" by code_simp
  show ?thesis using forwarded_url_inert [OF g] g u by auto
qed

text \<open>
  Property C21. The allowlist follows the connections: after a refresh, without overrides by the operator, a URL is
  accepted only for a host that matches a built-in entry or the server host in the credentials of a
  connection that is connected now.
\<close>

theorem proxy_hosts_follow_connections:
  assumes "validate_proxy_url E (refresh_runtime_proxy_hosts ref decrypt (Some cs) A) None url = Inr enc"
    "py_strip (env_allowlist A) = []" "py_strip (env_allowlist_extra A) = []"
  shows "\<exists>parsed h host entry. urlparse (refused E) url = Some parsed \<and> url_hostname parsed = Some h \<and> host \<in> {h, py_lower h} \<and> host_matches host entry \<and>
    (entry \<in> set PLATFORM_HOST_ALLOWLIST \<or>
     (\<exists>c \<in> set cs. \<exists>creds k h'. conn_status c = ''connected'' \<and> decrypt c = Some (JObj creds) \<and> k \<in> set URL_CREDENTIAL_KEYS \<and>
        hostname_of ref (json_get creds k) = Some h' \<and> entry = py_lower (py_strip h')))"
proof -
  let ?A = "refresh_runtime_proxy_hosts ref decrypt (Some cs) A"
  have origin: "entry \<in> set PLATFORM_HOST_ALLOWLIST \<or>
     (\<exists>c \<in> set cs. \<exists>creds k h'. conn_status c = ''connected'' \<and> decrypt c = Some (JObj creds) \<and> k \<in> set URL_CREDENTIAL_KEYS \<and>
        hostname_of ref (json_get creds k) = Some h' \<and> entry = py_lower (py_strip h'))"
    if "entry \<in> set (active_allowlist ?A None)" for entry
  proof (cases "entry \<in> set PLATFORM_HOST_ALLOWLIST")
    case False
    then have "entry \<in> set (register_runtime_hosts (derive_proxy_hosts_from_connections ref decrypt (Some cs)))"
      using that assms(2,3) by (simp add: active_allowlist_def refresh_runtime_proxy_hosts_def Let_def)
    then obtain h' where h: "h' \<in> set (derive_proxy_hosts_from_connections ref decrypt (Some cs))" "entry = py_lower (py_strip h')"
      by (auto simp: register_runtime_hosts_def)
    then show ?thesis using derived_host_origin by blast
  qed simp
  show ?thesis
  proof (cases "is_opaque_handle_url E url (active_allowlist ?A None)")
    case True
    then obtain parsed h where p: "urlparse (refused E) url = Some parsed" "url_hostname parsed = Some h"
        "list_ex (host_matches (py_lower h)) (active_allowlist ?A None)"
      by (rule opaque_host)
    then obtain entry where e: "entry \<in> set (active_allowlist ?A None)" "host_matches (py_lower h) entry" by (auto simp: list_ex_iff)
    show ?thesis
      by (intro exI [of _ parsed] exI [of _ h] exI [of _ "py_lower h"] exI [of _ entry]) (use p e(2) origin [OF e(1)] in \<open>simp only: insert_iff simp_thms\<close>)
  next
    case False
    then obtain pinned host where r: "resolve_and_validate E (Some (active_allowlist ?A None)) url = Inr (pinned, host)"
      using assms(1) by (auto simp: validate_proxy_url_def Let_def split: sum.splits)
    then obtain parsed where p: "urlparse (refused E) url = Some parsed" "url_hostname parsed = Some host"
        "list_ex (host_matches host) (active_allowlist ?A None)"
      by (auto simp: resolve_and_validate_def Let_def split: option.splits if_splits)
    then obtain entry where e: "entry \<in> set (active_allowlist ?A None)" "host_matches host entry" by (auto simp: list_ex_iff)
    show ?thesis
      by (intro exI [of _ parsed] exI [of _ host] exI [of _ host] exI [of _ entry]) (use p e(2) origin [OF e(1)] in \<open>simp only: insert_iff simp_thms\<close>)
  qed
qed

definition toy_server :: platform_connection where
  "toy_server = \<lparr>conn_id = ''c1'', platform = ''mattermost'', display_name = [], credentials = \<lparr>encrypted_credentials = [], credential_iv = [], credential_tag = []\<rparr>,
     selected_channels = [], teams_known_team_ids = [], conn_status = ''connected'', error_message = None, created_at = 0, updated_at = 0,
     conn_source = ''ui'', owner_principal_id = None\<rparr>"

theorem proxy_hosts_follow_connections_witness:
  "\<exists>parsed h host entry. urlparse (\<lambda>_. False) ''http://Files.Slack.com/x'' = Some parsed \<and> url_hostname parsed = Some h \<and> host \<in> {h, py_lower h} \<and>
     host_matches host entry \<and>
     (entry \<in> set PLATFORM_HOST_ALLOWLIST \<or>
      (\<exists>c \<in> set [toy_server]. \<exists>creds k h'. conn_status c = ''connected'' \<and> Some (JObj [(''base_url'', JStr ''https://Team.Example.com'')]) = Some (JObj creds) \<and>
         k \<in> set URL_CREDENTIAL_KEYS \<and> hostname_of (\<lambda>_. False) (json_get creds k) = Some h' \<and> entry = py_lower (py_strip h')))"
proof -
  let ?A = "\<lparr>env_allowlist = [], env_allowlist_extra = [], runtime_hosts = [''gone.example.com'']\<rparr>"
  let ?d = "\<lambda>_. Some (JObj [(''base_url'', JStr ''https://Team.Example.com'')])"
  have "case validate_proxy_url toy_guard (refresh_runtime_proxy_hosts (\<lambda>_. False) ?d (Some [toy_server]) ?A) None ''http://Files.Slack.com/x'' of
      Inl _ \<Rightarrow> False | Inr _ \<Rightarrow> True" by code_simp
  then obtain enc where g: "validate_proxy_url toy_guard (refresh_runtime_proxy_hosts (\<lambda>_. False) ?d (Some [toy_server]) ?A) None ''http://Files.Slack.com/x'' = Inr enc"
    by (auto split: sum.splits)
  have e: "py_strip (env_allowlist ?A) = []" "py_strip (env_allowlist_extra ?A) = []" by code_simp+
  have r: "refused toy_guard = (\<lambda>_. False)" by (simp add: toy_guard_def)
  show ?thesis using proxy_hosts_follow_connections [OF g e] unfolding r .
qed

section \<open>Divergences\<close>

text \<open>
  Addresses of the blocked IPv4 networks pass in their IPv6 spellings, and so does the unspecified
  IPv6 address: the version of an address decides which networks it is compared with.
\<close>

theorem mapped_addresses_pass:
  "is_private ''::ffff:169.254.169.254'' = Some False \<and> is_private ''::ffff:127.0.0.1'' = Some False \<and>
   is_private ''64:ff9b::a9fe:a9fe'' = Some False \<and> is_private ''::'' = Some False \<and> is_private ''169.254.169.254'' = Some True"
  by code_simp

text \<open>A suffix entry without its leading dot matches hosts of other domains; nothing requires the dot.\<close>

theorem suffix_without_dot_matches:
  "host_matches ''attackersharepoint.com'' ''suffix:sharepoint.com'' \<and> \<not> host_matches ''attackersharepoint.com'' ''suffix:.sharepoint.com''"
  by code_simp

text \<open>
  A URL that the parser refuses escapes the file proxy as an exception: the handler parses the URL a
  second time for its log line.
\<close>

theorem malformed_url_uncaught:
  "file_proxy_gate toy_guard \<lparr>env_allowlist = [], env_allowlist_extra = [], runtime_hosts = []\<rparr> ''http://[::1/x'' = Uncaught"
  by code_simp

text \<open>
  The media proxy can never serve the reference host of Telegram media, which is on its list: it
  resolves every host, and the reserved domain does not resolve.
\<close>

theorem telegram_handle_refused:
  "media_proxy_gate toy_guard [] [''tok''] ''https://tg.invalid/x'' = Refuse_media 400 \<and>
   validate_proxy_url toy_guard \<lparr>env_allowlist = [], env_allowlist_extra = [], runtime_hosts = []\<rparr> None ''https://tg.invalid/x''
     = Inr (url_quote ''https://tg.invalid/x'')"
  by code_simp

text \<open>The media proxy sends the bot tokens of Slack over plain HTTP when the URL says so.\<close>

theorem bot_token_over_http:
  "media_proxy_gate toy_guard [] [''tok''] ''http://files.slack.com/x'' = Fetch_with_tokens ''http://files.slack.com/x'' [''tok'']"
  by code_simp

end
