(* ===== verification/Spec2Isabelle.thy ===== *)
theory Spec2Isabelle
  imports Circuit_Breaker MCP_Rate_Limit LLM_Throttle Adaptive_Batcher Structure_Planner JSON_Recovery
    Policy_API Pipeline_Events ETA_Calculator Stream_Rewriter Channel_Purge Pipeline_Orchestrator Extraction_Lifecycle Sync_Scheduler MCP_Auth Channel_Access
    Entity_Dedup Wiki_Versions Write_Outbox Push_Sources Http_Safe
begin

text \<open>
  Beever Atlas ingests chat channels, extracts facts, entities and relationships with language models,
  stores them in a vector store and a graph, and serves wiki pages and cited answers from them. This
  library models the decision-making core of its Python package \<^verbatim>\<open>src/src/beever_atlas\<close> (file names
  below are relative to it) and proves what makes each part correct. A definition carries the name of
  the function it translates; a method is \<^verbatim>\<open>Class_method\<close>.

  \<^bold>\<open>How the program works, and where it is modelled.\<close>

  \<^item> Messages enter through a sync that the
    scheduler (\<^verbatim>\<open>services/scheduler.py\<close>, \<open>Sync_Scheduler\<close>) starts from the policies of a channel
    (\<^verbatim>\<open>models/sync_policy.py\<close>, \<^verbatim>\<open>services/policy_resolver.py\<close>, \<^verbatim>\<open>services/policy_presets.py\<close>,
    \<open>Sync_Policy\<close>; the endpoints of \<^verbatim>\<open>api/policies.py\<close>, \<open>Policy_API\<close>), or through signed pushes
    (\<^verbatim>\<open>services/push_hmac.py\<close>, \<^verbatim>\<open>api/sources.py\<close>, the source registry of \<^verbatim>\<open>api/admin.py\<close>,
    \<open>Push_Sources\<close>).
  \<^item> They land in the durable queue \<^verbatim>\<open>channel_messages\<close> (\<^verbatim>\<open>stores/mongodb_store.py\<close>,
    \<open>Extraction_Queue\<close>); \<open>Extraction_Lifecycle\<close> is its abstract contract. The background worker
    (\<^verbatim>\<open>services/extraction_worker.py\<close>, \<open>Extraction_Worker\<close>) claims due rows and hands them to the
    batch processor (\<^verbatim>\<open>services/batch_processor.py\<close>, \<open>Batch_Processor\<close>), which cuts them with
    \<^verbatim>\<open>services/adaptive_batcher.py\<close> (\<open>Adaptive_Batcher\<close>).
  \<^item> Model calls pass the circuit breaker (\<^verbatim>\<open>services/circuit_breaker.py\<close>, \<open>Circuit_Breaker\<close>) and
    the throttle (\<^verbatim>\<open>services/llm_throttle.py\<close>, \<open>LLM_Throttle\<close>); truncated replies are salvaged
    (\<^verbatim>\<open>services/json_recovery.py\<close>, \<open>JSON_Recovery\<close>).
  \<^item> The results of a batch are deduplicated (\<^verbatim>\<open>services/entity_dedup.py\<close>, \<open>Entity_Dedup\<close>) and
    persisted through an outbox (\<^verbatim>\<open>agents/ingestion/persister.py\<close>, \<^verbatim>\<open>services/reconciler.py\<close>,
    \<open>Write_Outbox\<close>); \<^verbatim>\<open>services/pipeline_orchestrator.py\<close> (\<open>Pipeline_Orchestrator\<close>) then
    consolidates the channel. \<open>Pipeline_Events\<close> and \<open>ETA_Calculator\<close> are what the dashboard shows.
  \<^item> A wiki is planned (\<^verbatim>\<open>wiki/structure/\<close>: \<open>Structure_Heuristic\<close>, \<open>Structure_Validator\<close>,
    \<open>Structure_Planner\<close>) and kept in versions (\<^verbatim>\<open>wiki/version_store.py\<close>, \<^verbatim>\<open>wiki/cache.py\<close>,
    \<open>Wiki_Versions\<close>). Answers stream through the citation rewriter
    (\<^verbatim>\<open>agents/citations/\<close>, \<open>Citation_Registry\<close>; \<^verbatim>\<open>agents/query/stream_rewriter.py\<close>,
    \<open>Stream_Rewriter\<close>).
  \<^item> Requests are authenticated and authorised: \<^verbatim>\<open>infra/loader_token.py\<close> (\<open>Loader_Token\<close>),
    \<^verbatim>\<open>infra/auth.py\<close> (\<open>Authentication\<close>), \<^verbatim>\<open>infra/mcp_auth.py\<close> (\<open>MCP_Auth\<close>),
    \<^verbatim>\<open>infra/mcp_rate_limit.py\<close> (\<open>MCP_Rate_Limit\<close>), \<^verbatim>\<open>stores/platform_store.py\<close>
    (\<open>Platform_Store\<close>), \<^verbatim>\<open>infra/channel_access.py\<close> with the listings that agree with it
    (\<open>Channel_Access\<close>). A channel is erased by \<^verbatim>\<open>services/channel_deletion.py\<close>
    (\<open>Channel_Purge\<close>). Outgoing requests pass the guard of \<^verbatim>\<open>infra/http_safe.py\<close>
    (\<open>Http_Safe\<close>).

  \<^bold>\<open>Shared theories.\<close> \<open>Atlas_Prelude\<close>, \<open>Py_Strings\<close> and \<open>Py_Json\<close> hold the Python values: clock
  readings and finite floats are rationals, integers are unbounded, strings are lists of Latin-1
  characters, a \<^verbatim>\<open>dict\<close> is an association list in insertion order, \<^verbatim>\<open>json.loads\<close> and
  \<^verbatim>\<open>json.dumps\<close> are functions with a round trip. \<open>Sliding_Window\<close>, \<open>Keyed_Registry\<close> and
  \<open>Interleaving\<close> hold the interfaces: the contract of a window limiter, of a registry of
  per-key components, of a state machine with an invariant, and of tasks that interleave at their
  awaited calls. Each is interpreted on the code's own definitions.

  \<^bold>\<open>How state and effects are modelled.\<close> The state of a component is a record, passed through its
  operations. A method that runs between two awaits is one step, as is one call of the database; where
  tasks can overlap, the interleaving is an explicit list of steps or a schedule, and the theorems
  quantify over it. An exception, an HTTP error or an early return is a value of a sum, an option or a
  datatype of outcomes. Log output is left out throughout.

  \<^bold>\<open>Parameters.\<close> What is not in the repository is an argument: the clock, SHA-1, SHA-256 and HMAC, the
  model and embedding services, APScheduler, the Redis script, the chat-platform bridge, DNS, random
  secrets, and the outcome of a whole extraction batch. Hypotheses about them are stated where they are
  needed (a law of the scheduler, a bound on a clock) and every theorem with a hypothesis has a witness.

  \<^bold>\<open>What the lemmas show.\<close>
  \<^item> Delivery: a claimed row is always finished by the tick that claimed it, no row is claimed twice,
    retries are bounded, a batch split loses and duplicates nothing, a stale claim converges, an
    extracted fact is stored before its intent is marked, a due intent is drained.
  \<^item> Exclusion and lifecycle: the purge lock, the consolidation registry, the version counters and the
    replay cache under every interleaving; the queue refines its abstract lifecycle.
  \<^item> Limits: window and budget bounds of the limiters, probe spacing of the breaker, termination of
    \<^verbatim>\<open>acquire\<close> with an explicit bound on its rounds, sizes of batches.
  \<^item> Security: exact characterisations of the principals, the channel guard and the token checks,
    separation of the key pools, authorship of pushed rows, the address ranges an outgoing request
    cannot reach.
  \<^item> Data: round trips of tokens, signatures, JSON and percent-encoding; determinism and completeness of
    the planner and of the deduplication; numbering of citations.

  \<^bold>\<open>Bounds and fuel.\<close> The JSON decoder runs on fuel \<open>2 * length + 1\<close>; each nested value consumes a
  character, and \<open>Py_Json\<close> proves that the fuel never changes the result. The loop of
  \<^verbatim>\<open>acquire\<close> is a fuelled recursion with a theorem that enough fuel returns. Undisturbed runs of tasks
  are a fixed number of steps (at most five calls). All other recursions are structural or have a
  termination proof.

  \<^bold>\<open>Not modelled.\<close> The stores' own query languages (Weaviate, Neo4j, Nebula) and the bodies of their
  calls; prompts, agents and model providers; the pages of the wiki compiler and maintainer, whose work
  is prompt construction, Markdown layout and store calls; clustering and summarisation inside
  consolidation; media download and transcription; importers; the chat front ends and bots in other
  languages. They are listed as components with the reason. Rounding of floats, text outside Latin-1
  and timing inside an atomic step are idealised as said above.
\<close>

end
